(* ===== verification/Fossic_Prelude.thy ===== *)
theory Fossic_Prelude
  imports "HOL-Library.Word" "HOL-Library.List_Lexorder" "HOL-Library.Char_ord"
begin

text \<open>
  Shared vocabulary of the development: the machine types of the Rust code, results with an
  error side, little-endian integers, path splitting, UTF-8 decoding of a string into
  characters, and the list facts that several components use.

  Conventions. A Rust \<open>String\<close> is its UTF-8 byte sequence, an Isabelle \<open>string\<close>; its
  \<open>len\<close> is \<open>length\<close>. A \<open>u32\<close> or \<open>u64\<close> is a word. An \<open>i64\<close> is an \<open>int\<close>, since the code
  only compares, stores and adds such values; a cast from \<open>u64\<close> is \<open>sint\<close> and a cast back is
  \<open>word_of_int\<close>, so both wrap as Rust's \<open>as\<close> does. A \<open>usize\<close> that counts objects in memory
  is a \<open>nat\<close>.
\<close>

named_theorems res_simps \<open>rewrite rules for results\<close>
named_theorems row_simps \<open>rewrite rules for table rows and their queries\<close>

section \<open>Machine types\<close>

type_synonym byte = "8 word"
type_synonym bytes = "byte list"
type_synonym u8 = "8 word"
type_synonym u32 = "32 word"
type_synonym u64 = "64 word"
type_synonym i64 = int

definition i64_max :: i64 where
  "i64_max = 9223372036854775807"

definition as_i64 :: "u64 \<Rightarrow> i64" where
  "as_i64 v = sint v"

definition as_u64 :: "i64 \<Rightarrow> u64" where
  "as_u64 v = word_of_int v"

lemma as_u64_as_i64 [simp]: "as_u64 (as_i64 v) = v"
  by (simp add: as_u64_def as_i64_def)

lemma as_i64_as_u64:
  assumes "- 9223372036854775808 \<le> v" and "v \<le> i64_max"
  shows "as_i64 (as_u64 v) = v"
proof -
  have "signed_take_bit 63 v = v"
    using assms by (simp add: signed_take_bit_int_eq_self_iff i64_max_def)
  then show ?thesis
    by (simp add: as_i64_def as_u64_def sint_sbintrunc')
qed

lemma as_i64_bounds: "- 9223372036854775808 \<le> as_i64 v" "as_i64 v \<le> i64_max"
  using sint_range_size [of v] by (simp_all add: as_i64_def i64_max_def word_size)

lemma as_i64_le_word:
  assumes "0 \<le> as_i64 v" "0 \<le> as_i64 w"
  shows "as_i64 v \<le> as_i64 w \<longleftrightarrow> v \<le> w"
proof -
  have sint_uint: "0 \<le> sint x \<Longrightarrow> sint x = uint x" for x :: u64
    using as_i64_bounds(2) [of x]
    by (simp add: uint_sint [of x] as_i64_def i64_max_def take_bit_int_eq_self)
  show ?thesis
    using assms sint_uint by (simp add: as_i64_def word_le_def)
qed

section \<open>Results\<close>

text \<open>A \<open>Result\<close> is a sum with the error on the left; \<open>?\<close> is \<open>bind_res\<close>.\<close>

definition bind_res :: "'e + 'a \<Rightarrow> ('a \<Rightarrow> 'e + 'b) \<Rightarrow> 'e + 'b" where
  "bind_res r f = (case r of Inl e \<Rightarrow> Inl e | Inr a \<Rightarrow> f a)"

lemma bind_res_simps [simp, res_simps]:
  "bind_res (Inl e) f = Inl e"
  "bind_res (Inr a) f = f a"
  by (simp_all add: bind_res_def)

lemma bind_res_Inr_iff:
  "bind_res r f = Inr b \<longleftrightarrow> (\<exists>a. r = Inr a \<and> f a = Inr b)"
  by (cases r) auto

lemma bind_res_Inl_iff:
  "bind_res r f = Inl e \<longleftrightarrow> r = Inl e \<or> (\<exists>a. r = Inr a \<and> f a = Inl e)"
  by (cases r) auto

lemma bind_res_assoc: "bind_res (bind_res r f) g = bind_res r (\<lambda>x. bind_res (f x) g)"
  by (cases r) auto

lemma bind_res_cong [fundef_cong]:
  "r = r' \<Longrightarrow> (\<And>a. r' = Inr a \<Longrightarrow> f a = f' a) \<Longrightarrow> bind_res r f = bind_res r' f'"
  by (cases r') auto

definition map_err :: "('e \<Rightarrow> 'f) \<Rightarrow> 'e + 'a \<Rightarrow> 'f + 'a" where
  "map_err g r = (case r of Inl e \<Rightarrow> Inl (g e) | Inr a \<Rightarrow> Inr a)"

lemma map_err_simps [simp, res_simps]:
  "map_err g (Inl e) = Inl (g e)"
  "map_err g (Inr a) = Inr a"
  by (simp_all add: map_err_def)

lemma map_err_Inr_iff: "map_err g r = Inr a \<longleftrightarrow> r = Inr a"
  by (cases r) auto

definition ok_or :: "'e \<Rightarrow> 'a option \<Rightarrow> 'e + 'a" where
  "ok_or e x = (case x of None \<Rightarrow> Inl e | Some a \<Rightarrow> Inr a)"

lemma ok_or_simps [simp, res_simps]: "ok_or e None = Inl e" "ok_or e (Some a) = Inr a"
  by (simp_all add: ok_or_def)

text \<open>Collecting an iterator of results stops at the first error.\<close>

fun collect_res :: "('a \<Rightarrow> 'e + 'b) \<Rightarrow> 'a list \<Rightarrow> 'e + 'b list" where
  "collect_res f [] = Inr []"
| "collect_res f (x # xs) =
     bind_res (f x) (\<lambda>y. bind_res (collect_res f xs) (\<lambda>ys. Inr (y # ys)))"

lemma collect_res_Inr_iff:
  "collect_res f xs = Inr ys \<longleftrightarrow> list_all2 (\<lambda>x y. f x = Inr y) xs ys"
  by (induction xs arbitrary: ys) (auto simp: bind_res_Inr_iff list_all2_Cons1)

lemma collect_res_total:
  "(\<And>x. x \<in> set xs \<Longrightarrow> f x = Inr (g x)) \<Longrightarrow> collect_res f xs = Inr (map g xs)"
  by (induction xs) auto

lemma collect_res_length: "collect_res f xs = Inr ys \<Longrightarrow> length ys = length xs"
  by (auto simp: collect_res_Inr_iff list_all2_lengthD)

lemma collect_res_append:
  "collect_res f (xs @ ys) =
     bind_res (collect_res f xs) (\<lambda>a. bind_res (collect_res f ys) (\<lambda>b. Inr (a @ b)))"
  by (induction xs) (auto simp: bind_res_def split: sum.splits)

text \<open>
  A computation that may not return gives an optional result, \<open>None\<close> when it does not return.
\<close>

definition bind_run :: "('e + 'a) option \<Rightarrow> ('a \<Rightarrow> ('e + 'b) option) \<Rightarrow> ('e + 'b) option" where
  "bind_run r f = (case r of None \<Rightarrow> None | Some (Inl e) \<Rightarrow> Some (Inl e) | Some (Inr a) \<Rightarrow> f a)"

lemma bind_run_simps [simp, res_simps]:
  "bind_run None f = None"
  "bind_run (Some (Inl e)) f = Some (Inl e)"
  "bind_run (Some (Inr a)) f = f a"
  by (simp_all add: bind_run_def)

lemma bind_run_Inr_iff:
  "bind_run r f = Some (Inr b) \<longleftrightarrow> (\<exists>a. r = Some (Inr a) \<and> f a = Some (Inr b))"
  by (auto simp: bind_run_def split: option.splits sum.splits)

fun collect_run :: "('a \<Rightarrow> ('e + 'b) option) \<Rightarrow> 'a list \<Rightarrow> ('e + 'b list) option" where
  "collect_run f [] = Some (Inr [])"
| "collect_run f (x # xs) =
     bind_run (f x) (\<lambda>y. bind_run (collect_run f xs) (\<lambda>ys. Some (Inr (y # ys))))"

lemma collect_run_Inr_iff:
  "collect_run f xs = Some (Inr ys) \<longleftrightarrow> list_all2 (\<lambda>x y. f x = Some (Inr y)) xs ys"
  by (induction xs arbitrary: ys) (auto simp: bind_run_Inr_iff list_all2_Cons1)

section \<open>Little-endian integers\<close>

fun le_bytes :: "nat \<Rightarrow> nat \<Rightarrow> bytes" where
  "le_bytes 0 n = []"
| "le_bytes (Suc k) n = word_of_nat (n mod 256) # le_bytes k (n div 256)"

fun le_val :: "bytes \<Rightarrow> nat" where
  "le_val [] = 0"
| "le_val (b # bs) = unat b + 256 * le_val bs"

lemma length_le_bytes [simp]: "length (le_bytes k n) = k"
  by (induction k arbitrary: n) auto

lemma unat_byte_mod: "unat (word_of_nat (n mod 256) :: byte) = n mod 256"
  by (simp add: unat_of_nat take_bit_eq_mod)

lemma le_val_le_bytes: "le_val (le_bytes k n) = n mod 256 ^ k"
proof (induction k arbitrary: n)
  case 0
  then show ?case by simp
next
  case (Suc k)
  have "n mod 256 + 256 * (n div 256 mod 256 ^ k) = n mod (256 * 256 ^ k)"
    by (simp add: mod_mult2_eq)
  then show ?case
    using Suc by (simp add: unat_byte_mod)
qed

lemma le_bytes_inj:
  assumes "le_bytes k m = le_bytes k n" and "m < 256 ^ k" and "n < 256 ^ k"
  shows "m = n"
  using assms by (metis le_val_le_bytes mod_less)

text \<open>\<open>u32::to_le_bytes\<close> and \<open>i64::to_le_bytes\<close> (two's complement).\<close>

definition u32_le :: "u32 \<Rightarrow> bytes" where
  "u32_le w = le_bytes 4 (unat w)"

definition u64_le :: "u64 \<Rightarrow> bytes" where
  "u64_le w = le_bytes 8 (unat w)"

definition i64_le :: "i64 \<Rightarrow> bytes" where
  "i64_le v = u64_le (as_u64 v)"

lemma length_int_le [simp]:
  "length (u32_le w) = 4" "length (u64_le u) = 8" "length (i64_le v) = 8"
  by (simp_all add: u32_le_def u64_le_def i64_le_def)

lemma u32_le_inj: "u32_le v = u32_le w \<longleftrightarrow> v = w"
proof
  assume *: "u32_le v = u32_le w"
  have "unat x < 256 ^ 4" for x :: u32
    using unsigned_less [of x] by simp
  then have "unat v = unat w"
    using * unfolding u32_le_def by (blast intro: le_bytes_inj)
  then show "v = w" by (simp only: word_unat_eq_iff)
qed simp

lemma u64_le_inj: "u64_le v = u64_le w \<longleftrightarrow> v = w"
proof
  assume *: "u64_le v = u64_le w"
  have "unat x < 256 ^ 8" for x :: u64
    using unsigned_less [of x] by simp
  then have "unat v = unat w"
    using * unfolding u64_le_def by (blast intro: le_bytes_inj)
  then show "v = w" by (simp only: word_unat_eq_iff)
qed simp

section \<open>Strings\<close>

text \<open>\<open>as_bytes\<close> of a string, and \<open>split\<close> at a character (never an empty list).\<close>

definition str_bytes :: "string \<Rightarrow> bytes" where
  "str_bytes s = map of_char s"

lemma length_str_bytes [simp]: "length (str_bytes s) = length s"
  by (simp add: str_bytes_def)

lemma of_char_lt_256: "(of_char c :: nat) < 256"
  by (metis mod_less_divisor of_char_mod_256 zero_less_numeral)

lemma unat_of_char: "unat (of_char c :: byte) = of_char c"
proof -
  have "(of_char c :: byte) = word_of_nat (of_char c)"
    by (simp only: of_nat_of_char)
  then show ?thesis
    using of_char_lt_256 [of c] by (simp add: unat_of_nat take_bit_eq_mod)
qed

lemma of_char_byte_inj: "(of_char c :: byte) = of_char d \<longleftrightarrow> c = d"
  by (metis of_char_eqI unat_of_char)

lemma str_bytes_inj: "str_bytes s = str_bytes t \<longleftrightarrow> s = t"
  unfolding str_bytes_def
  by (rule inj_map_eq_map) (simp add: inj_on_def of_char_byte_inj)

fun split_on :: "char \<Rightarrow> string \<Rightarrow> string list" where
  "split_on c [] = [[]]"
| "split_on c (x # xs) =
     (if x = c then [] # split_on c xs
      else case split_on c xs of [] \<Rightarrow> [[x]] | p # ps \<Rightarrow> (x # p) # ps)"

fun join_with :: "char \<Rightarrow> string list \<Rightarrow> string" where
  "join_with c [] = []"
| "join_with c [p] = p"
| "join_with c (p # q # ps) = p @ c # join_with c (q # ps)"

lemma split_on_not_Nil [simp]: "split_on c s \<noteq> []"
  by (induction s) (auto split: list.splits)

lemma split_on_segments: "p \<in> set (split_on c s) \<Longrightarrow> c \<notin> set p"
  by (induction s arbitrary: p) (auto split: list.splits if_splits)

lemma split_on_chars: "p \<in> set (split_on c s) \<Longrightarrow> x \<in> set p \<Longrightarrow> x \<in> set s"
  by (induction s arbitrary: p) (fastforce split: list.splits if_splits)+

lemma join_split [simp]: "join_with c (split_on c s) = s"
proof (induction s)
  case (Cons x xs)
  show ?case
  proof (cases "split_on c xs")
    case Nil
    then show ?thesis by simp
  next
    case (Cons p ps)
    with Cons.IH show ?thesis by (cases ps) auto
  qed
qed simp

lemma split_on_append_free: "c \<notin> set p \<Longrightarrow> split_on c (p @ c # s) = p # split_on c s"
  by (induction p) auto

lemma split_on_free: "c \<notin> set p \<Longrightarrow> split_on c p = [p]"
  by (induction p) auto

lemma split_join:
  "ps \<noteq> [] \<Longrightarrow> \<forall>p \<in> set ps. c \<notin> set p \<Longrightarrow> split_on c (join_with c ps) = ps"
  by (induction c ps rule: join_with.induct) (auto simp: split_on_append_free split_on_free)

lemma split_on_inj: "split_on c s = split_on c t \<longleftrightarrow> s = t"
  by (metis join_split)

text \<open>\<open>chars\<close>: the code points of a UTF-8 byte sequence. A Rust string is always valid UTF-8.\<close>

definition utf8_cont :: "string \<Rightarrow> nat \<Rightarrow> nat" where
  "utf8_cont s i = (if i < length s then of_char (s ! i) mod 64 else 0)"

fun utf8_chars :: "string \<Rightarrow> nat list" where
  "utf8_chars [] = []"
| "utf8_chars (a # s) =
     (let n = of_char a in
      if n < 128 then n # utf8_chars s
      else if n < 224 then (n mod 32 * 64 + utf8_cont s 0) # utf8_chars (drop 1 s)
      else if n < 240 then
        (n mod 16 * 4096 + utf8_cont s 0 * 64 + utf8_cont s 1) # utf8_chars (drop 2 s)
      else (n mod 8 * 262144 + utf8_cont s 0 * 4096 + utf8_cont s 1 * 64 + utf8_cont s 2)
             # utf8_chars (drop 3 s))"

lemma utf8_chars_ascii:
  "\<forall>a \<in> set s. of_char a < (128::nat) \<Longrightarrow> utf8_chars s = map of_char s"
  by (induction s) (auto simp: Let_def)

text \<open>A prefix test on strings, as \<open>starts_with\<close>.\<close>

fun starts_with :: "string \<Rightarrow> string \<Rightarrow> bool" where
  "starts_with s [] = True"
| "starts_with [] (p # ps) = False"
| "starts_with (c # s) (p # ps) = (c = p \<and> starts_with s ps)"

lemma starts_with_iff: "starts_with s p \<longleftrightarrow> (\<exists>t. s = p @ t)"
  by (induction s p rule: starts_with.induct) auto

section \<open>Lists\<close>

lemma filter_upto_split:
  fixes key :: "'a \<Rightarrow> 'k::linorder"
  assumes "sorted (map key xs)"
  shows "xs = filter (\<lambda>x. key x \<le> k) xs @ filter (\<lambda>x. k < key x) xs"
  using assms
proof (induction xs)
  case (Cons x xs)
  show ?case
  proof (cases "key x \<le> k")
    case True
    with Cons show ?thesis by auto
  next
    case False
    with Cons.prems have "\<forall>y \<in> set xs. k < key y" by fastforce
    with False Cons show ?thesis by (auto simp: filter_empty_conv)
  qed
qed simp

lemma distinct_map_filter: "distinct (map f xs) \<Longrightarrow> distinct (map f (filter P xs))"
  by (induction xs) auto

lemma find_Some_set: "find P xs = Some x \<Longrightarrow> x \<in> set xs \<and> P x"
  by (auto simp: find_Some_iff)

lemma find_unique:
  assumes "x \<in> set xs" "P x" "\<And>y. y \<in> set xs \<Longrightarrow> P y \<Longrightarrow> y = x"
  shows "find P xs = Some x"
proof (cases "find P xs")
  case None
  with assms(1,2) show ?thesis by (simp add: find_None_iff)
next
  case (Some y)
  then show ?thesis using assms(3) find_Some_set by metis
qed

text \<open>A loop that threads a state through fallible steps.\<close>

fun fold_res :: "('s \<Rightarrow> 'x \<Rightarrow> 'e + 's) \<Rightarrow> 's \<Rightarrow> 'x list \<Rightarrow> 'e + 's" where
  "fold_res step s [] = Inr s"
| "fold_res step s (x # xs) = bind_res (step s x) (\<lambda>s'. fold_res step s' xs)"

lemma fold_res_append:
  "fold_res step s (xs @ ys) = bind_res (fold_res step s xs) (\<lambda>s'. fold_res step s' ys)"
  by (induction xs arbitrary: s) (auto simp: bind_res_def split: sum.splits)

end
