(* ===== verification/Fossic_Types.thy ===== *)
theory Fossic_Types
  imports Fossic_Prelude
begin

text \<open>
  The data types of \<open>src/types.rs\<close> and \<open>src/error.rs\<close>: event identities with their hexadecimal
  form, appends, stored events, queries, options, branches, snapshots, read outcomes, cursors
  and policies; and the library functions the crate calls but does not contain (\<open>libs\<close>).

  An error message is represented by the constructor that names its format string together
  with the values it prints.
\<close>

section \<open>JSON values (\<open>serde_json::Value\<close>)\<close>

text \<open>
  A number is one of the three representations of \<open>serde_json\<close>: a non-negative integer, a
  negative integer, or a double given by its bits. An object is the list of its entries in
  the order the map yields them.
\<close>

datatype jnumber = PosInt u64 | NegInt i64 | Float u64

datatype json =
    JNull
  | JBool bool
  | JNumber jnumber
  | JString string
  | JArray "json list"
  | JObject "(string \<times> json) list"

fun is_object :: "json \<Rightarrow> bool" where
  "is_object (JObject _) = True"
| "is_object _ = False"

fun is_array :: "json \<Rightarrow> bool" where
  "is_array (JArray _) = True"
| "is_array _ = False"

text \<open>\<open>Number::as_i64\<close> and \<open>Number::as_u64\<close>.\<close>

fun number_as_i64 :: "jnumber \<Rightarrow> i64 option" where
  "number_as_i64 (PosInt n) = (if uint n \<le> i64_max then Some (uint n) else None)"
| "number_as_i64 (NegInt i) = Some i"
| "number_as_i64 (Float _) = None"

fun number_as_u64 :: "jnumber \<Rightarrow> u64 option" where
  "number_as_u64 (PosInt n) = Some n"
| "number_as_u64 (NegInt _) = None"
| "number_as_u64 (Float _) = None"

section \<open>Event identities\<close>

datatype event_id = EventId (id_bytes: bytes)

text \<open>Identities are compared as their bytes (the order of a SQLite BLOB column).\<close>

instantiation event_id :: linorder
begin

definition less_eq_event_id :: "event_id \<Rightarrow> event_id \<Rightarrow> bool" where
  "less_eq_event_id a b \<longleftrightarrow> id_bytes a \<le> id_bytes b"

definition less_event_id :: "event_id \<Rightarrow> event_id \<Rightarrow> bool" where
  "less_event_id a b \<longleftrightarrow> id_bytes a < id_bytes b"

instance
  by standard
    (auto simp: less_eq_event_id_def less_event_id_def event_id.expand intro: event_id.expand)

end

text \<open>\<open>EventId::to_hex\<close> prints each byte with \<open>{:02x}\<close>.\<close>

definition hex_digit :: "nat \<Rightarrow> char" where
  "hex_digit n = ''0123456789abcdef'' ! n"

definition hex_byte :: "u8 \<Rightarrow> string" where
  "hex_byte b = [hex_digit (unat b div 16), hex_digit (unat b mod 16)]"

definition to_hex :: "event_id \<Rightarrow> string" where
  "to_hex i = concat (map hex_byte (id_bytes i))"

section \<open>Errors\<close>

datatype reason =
    MustNotBeEmpty
  | ExceedsCharacterLimit nat
  | DisallowedCharacter nat
  | TooManySegments nat nat
  | EmptySegment
  | EdgeSlash
  | ContainsWhitespace
  | ContainsQuote
  | ReservedMain
  | MaxChars nat
  | NoSlashRuns
  | ExpectedHexChars nat
  | InvalidHexChar char
  | AlreadyDeadEnd string
  | AlreadyPromoted string
  | EveryNEventsPositive
  | EveryNSecondsPositive

datatype budget_kind = BudgetResultCount | BudgetByteSize

datatype cce_error = U64Overflow u64 | DuplicateKeys | StringTooLarge nat

datatype sqlite_error =
    ConstraintViolation | FromSqlConversionFailure nat | InvalidType nat | TooManyParameters

datatype error =
    StreamNotDeclared string
  | InvalidStreamId string reason
  | InvalidIndexedTags string
  | InvalidEventId reason
  | StoreNotFound string
  | SchemaMismatch u32 u32
  | NotImplemented string
  | BranchNotFound string string
  | BranchLifecycleError reason
  | InvalidBranchId string reason
  | InvalidAlternatives
  | ReducerPatternAmbiguous string string
  | ReducerNotFound string
  | ReducerNotFoundByName string
  | ReducerError string
  | NoEventsToSnapshot string string
  | PurgeConfirmationError string
  | EventNotFound string
  | UpcasterChainGap string u32
  | Cce cce_error
  | Sqlite sqlite_error
  | MsgpackEncode string
  | MsgpackDecode string
  | Io string
  | PoolExhausted nat u64
  | ReadBudgetExceeded budget_kind nat
  | ReducerPanicked string string string string
  | Internal string
  | SnapshotPolicyInvalid reason

type_synonym 'a res = "error + 'a"

text \<open>\<open>hex_nibble\<close> and \<open>EventId::from_hex\<close>.\<close>

definition hex_nibble :: "u8 \<Rightarrow> char + u8" where
  "hex_nibble b =
     (let n = unat b in
      if 48 \<le> n \<and> n \<le> 57 then Inr (b - 48)
      else if 97 \<le> n \<and> n \<le> 102 then Inr (b - 97 + 10)
      else if 65 \<le> n \<and> n \<le> 70 then Inr (b - 65 + 10)
      else Inl (char_of n))"

text \<open>
  The loop over \<open>chunks(2)\<close>. A last chunk of one byte cannot occur, since the length has been
  checked to be 64; the equation for it only makes the function total.
\<close>

fun hex_chunks :: "bytes \<Rightarrow> bytes res" where
  "hex_chunks [] = Inr []"
| "hex_chunks [x] = Inl (InvalidEventId (ExpectedHexChars 1))"
| "hex_chunks (x # y # rest) =
     bind_res (map_err (\<lambda>c. InvalidEventId (InvalidHexChar c)) (hex_nibble x)) (\<lambda>hi.
     bind_res (map_err (\<lambda>c. InvalidEventId (InvalidHexChar c)) (hex_nibble y)) (\<lambda>lo.
     bind_res (hex_chunks rest) (\<lambda>bs. Inr (or (push_bit 4 hi) lo # bs))))"

definition from_hex :: "string \<Rightarrow> event_id res" where
  "from_hex s =
     (if length s \<noteq> 64 then Inl (InvalidEventId (ExpectedHexChars (length s)))
      else bind_res (hex_chunks (str_bytes s)) (\<lambda>bs. Inr (EventId bs)))"

subsection \<open>The hexadecimal form\<close>

text \<open>Lower case of an ASCII letter, for the statement about parsed identities.\<close>

definition ascii_lower :: "char \<Rightarrow> char" where
  "ascii_lower c =
     (let n = (of_char c :: nat) in if 65 \<le> n \<and> n \<le> 90 then char_of (n + 32) else c)"

lemma hex_digit_code:
  assumes "n < 16"
  shows "(of_char (hex_digit n) :: nat) = (if n < 10 then 48 + n else 87 + n)"
proof -
  have "list_all (\<lambda>k. (of_char (hex_digit k) :: nat) = (if k < 10 then 48 + k else 87 + k))
      [0, 1, 2, 3, 4, 5, 6, 7, 8, 9, 10, 11, 12, 13, 14, 15]"
    by (simp add: hex_digit_def)
  moreover have "n \<in> set [0, 1, 2, 3, 4, 5, 6, 7, 8, 9, 10, 11, 12, 13, 14, 15]"
    using assms by (simp, presburger)
  ultimately show ?thesis by (simp only: list_all_iff)
qed

lemma hex_digit_inj:
  assumes "m < 16" "n < 16" "hex_digit m = hex_digit n"
  shows "m = n"
proof -
  have "(if m < 10 then 48 + m else 87 + m) = (if n < 10 then 48 + n else 87 + n)"
    using assms by (metis hex_digit_code)
  then show ?thesis by (simp split: if_splits)
qed

lemma ascii_lower_code:
  "(of_char (ascii_lower c) :: nat) =
     (let n = of_char c in if 65 \<le> n \<and> n \<le> 90 then n + 32 else n)"
  by (simp add: ascii_lower_def Let_def)

lemma unat_minus: "unat a \<le> unat b \<Longrightarrow> unat (b - a) = unat b - unat (a :: u8)"
  by (simp add: unat_sub word_le_nat_alt)

lemma unat_plus_10: "unat a < 16 \<Longrightarrow> unat (a + 10 :: u8) = unat a + 10"
  by (simp add: unat_word_ariths)

lemma hex_nibble_Inr:
  "hex_nibble (of_char c) = Inr v \<longleftrightarrow> unat v < 16 \<and> hex_digit (unat v) = ascii_lower c"
proof -
  let ?n = "of_char c :: nat"
  have dig: "hex_digit (unat v) = ascii_lower c \<longleftrightarrow>
      (if unat v < 10 then 48 + unat v else 87 + unat v) =
      (if 65 \<le> ?n \<and> ?n \<le> 90 then ?n + 32 else ?n)" if lt: "unat v < 16"
  proof -
    have "hex_digit (unat v) = ascii_lower c \<longleftrightarrow>
        (of_char (hex_digit (unat v)) :: nat) = of_char (ascii_lower c)"
      by (simp only: of_char_eq_iff)
    then show ?thesis by (simp only: ascii_lower_code hex_digit_code [OF lt] Let_def)
  qed
  have veq: "w = v \<longleftrightarrow> unat w = unat v" for w by (simp add: word_unat_eq_iff)
  have *: "48 \<le> ?n \<Longrightarrow> unat (of_char c - 48 :: u8) = ?n - 48"
     "97 \<le> ?n \<Longrightarrow> ?n \<le> 102 \<Longrightarrow> unat (of_char c - 87 :: u8) = ?n - 87"
     "65 \<le> ?n \<Longrightarrow> ?n \<le> 70 \<Longrightarrow> unat (of_char c - 55 :: u8) = ?n - 55"
    by (simp_all add: unat_minus unat_plus_10 unat_of_char)
  consider "48 \<le> ?n \<and> ?n \<le> 57" | "97 \<le> ?n \<and> ?n \<le> 102" | "65 \<le> ?n \<and> ?n \<le> 70"
    | "\<not> (48 \<le> ?n \<and> ?n \<le> 57)" "\<not> (97 \<le> ?n \<and> ?n \<le> 102)" "\<not> (65 \<le> ?n \<and> ?n \<le> 70)"
    by blast
  then show ?thesis
  proof cases
    case 1
    have "hex_nibble (of_char c) = Inr v \<longleftrightarrow> ?n - 48 = unat v"
      using 1 by (simp add: hex_nibble_def unat_of_char veq *(1) del: word_unat_eq_iff)
    then show ?thesis using 1 dig by (cases "unat v < 16") (simp_all, arith+)
  next
    case 2
    have "hex_nibble (of_char c) = Inr v \<longleftrightarrow> ?n - 87 = unat v"
      using 2 by (simp add: hex_nibble_def unat_of_char veq *(2))
    then show ?thesis using 2 dig by (cases "unat v < 16") (simp_all, arith+)
  next
    case 3
    have "hex_nibble (of_char c) = Inr v \<longleftrightarrow> ?n - 55 = unat v"
      using 3 by (simp add: hex_nibble_def unat_of_char veq *(3))
    then show ?thesis using 3 dig by (cases "unat v < 16") (simp_all, arith+)
  next
    case 4
    then have "hex_nibble (of_char c) = Inl c"
      unfolding hex_nibble_def Let_def unat_of_char by (simp only: if_False char_of_char)
    then show ?thesis using 4 dig by (cases "unat v < 16") (simp_all, arith)
  qed
qed

lemma nibbles_byte: "or (push_bit 4 (drop_bit 4 b)) (take_bit 4 b) = (b :: u8)"
  by (rule bit_eqI) (auto simp: bit_or_iff bit_push_bit_iff bit_drop_bit_eq bit_take_bit_iff)

lemma unat_nibbles: "unat b div 16 = unat (drop_bit 4 b)" "unat b mod 16 = unat (take_bit 4 b)"
  for b :: u8
  by (simp_all add: unsigned_drop_bit_eq unsigned_take_bit_eq drop_bit_eq_div take_bit_eq_mod unat_div_distrib unat_mod_distrib)

lemma nibble_lt: "unat (drop_bit 4 b) < 16" "unat (take_bit 4 b) < 16" for b :: u8
proof -
  have "unat b < 256" using unsigned_less [of b] by simp
  then show "unat (drop_bit 4 b) < 16" "unat (take_bit 4 b) < 16"
    by (simp_all flip: unat_nibbles)
qed

lemma nibble_parts:
  assumes "unat hi < 16" "unat lo < 16" and b: "b = or (push_bit 4 hi) (lo :: u8)"
  shows "drop_bit 4 b = hi" "take_bit 4 b = lo"
proof -
  have lo: "take_bit 4 lo = lo" and hi: "take_bit 4 hi = hi"
    using assms by (simp_all add: word_unat_eq_iff take_bit_eq_mod unat_mod_distrib)
  have "bit hi n \<Longrightarrow> n < 4" "bit lo n \<Longrightarrow> n < 4" for n
    by (metis bit_take_bit_iff hi, metis bit_take_bit_iff lo)
  then have "\<not> bit lo (4 + n)" "bit hi n \<Longrightarrow> n < 4" "bit lo n \<Longrightarrow> n < 4" for n
    by (metis not_add_less1, blast, blast)
  then show "drop_bit 4 b = hi" "take_bit 4 b = lo"
    unfolding b
    by (auto intro!: bit_eqI simp: bit_or_iff bit_push_bit_iff bit_drop_bit_eq bit_take_bit_iff)
qed

lemma to_hex_simps [simp]:
  "to_hex (EventId []) = []"
  "to_hex (EventId (b # bs)) =
     hex_digit (unat (drop_bit 4 b)) # hex_digit (unat (take_bit 4 b)) # to_hex (EventId bs)"
  by (simp_all add: to_hex_def hex_byte_def unat_nibbles)

lemma nibble_pair:
  "(\<exists>hi lo. hex_nibble (of_char c) = Inr hi \<and> hex_nibble (of_char d) = Inr lo \<and>
      b = or (push_bit 4 hi) lo) \<longleftrightarrow>
   hex_nibble (of_char c) = Inr (drop_bit 4 b) \<and> hex_nibble (of_char d) = Inr (take_bit 4 b)"
    (is "?L \<longleftrightarrow> ?R")
proof
  assume ?L
  then obtain hi lo where hl: "hex_nibble (of_char c) = Inr hi" "hex_nibble (of_char d) = Inr lo"
    and b: "b = or (push_bit 4 hi) lo" by blast
  then have "unat hi < 16" "unat lo < 16" by (simp_all add: hex_nibble_Inr)
  from nibble_parts [OF this b] hl show ?R by simp
next
  assume ?R
  then show ?L using nibbles_byte [of b, symmetric] by blast
qed

lemma hex_chunks_Inr:
  "hex_chunks (str_bytes s) = Inr bs \<longleftrightarrow> to_hex (EventId bs) = map ascii_lower s"
proof (induction s arbitrary: bs rule: induct_list012)
  case 1
  then show ?case by (cases bs) (auto simp: str_bytes_def)
next
  case (2 x)
  then show ?case by (cases bs) (auto simp: str_bytes_def)
next
  case (3 c d t)
  have "hex_chunks (str_bytes (c # d # t)) = Inr bs \<longleftrightarrow>
      (\<exists>hi lo u. hex_nibble (of_char c) = Inr hi \<and> hex_nibble (of_char d) = Inr lo \<and>
         hex_chunks (str_bytes t) = Inr u \<and> bs = or (push_bit 4 hi) lo # u)"
    by (auto simp: str_bytes_def bind_res_Inr_iff map_err_Inr_iff)
  also have "\<dots> \<longleftrightarrow> (\<exists>b u. bs = b # u \<and> hex_nibble (of_char c) = Inr (drop_bit 4 b) \<and>
      hex_nibble (of_char d) = Inr (take_bit 4 b) \<and> to_hex (EventId u) = map ascii_lower t)"
    unfolding "3.IH"(1) nibble_pair [symmetric] conj_assoc [symmetric] by blast
  also have "\<dots> \<longleftrightarrow> to_hex (EventId bs) = map ascii_lower (c # d # t)"
    by (cases bs) (auto simp: hex_nibble_Inr nibble_lt)
  finally show ?case .
qed

lemma length_to_hex: "length (to_hex i) = 2 * length (id_bytes i)"
  by (simp add: to_hex_def hex_byte_def length_concat o_def sum_list_triv)

text \<open>
  \<open>EventId::from_hex\<close> accepts exactly the 64-character strings that are, up to letter case,
  the printed form of a 32-byte identity, and returns that identity; in particular it inverts
  \<open>to_hex\<close>.
\<close>

theorem from_hex_spec:
  "from_hex s = Inr i \<longleftrightarrow> length (id_bytes i) = 32 \<and> to_hex i = map ascii_lower s"
proof (cases i)
  case (EventId bs)
  have len: "to_hex i = map ascii_lower s \<Longrightarrow> length s = 2 * length (id_bytes i)"
    by (metis length_map length_to_hex)
  have len64: "(2::nat) * n = 64 \<longleftrightarrow> n = 32" for n by arith
  have "from_hex s = Inr i \<longleftrightarrow> length s = 64 \<and> to_hex i = map ascii_lower s"
    unfolding from_hex_def EventId
    by (cases "length s = 64") (simp_all add: bind_res_Inr_iff hex_chunks_Inr)
  also have "\<dots> \<longleftrightarrow> length (id_bytes i) = 32 \<and> to_hex i = map ascii_lower s"
    using len by (metis (no_types) len64)
  finally show ?thesis .
qed

section \<open>Appends, stored events and queries\<close>

record append_req =
  a_stream_id :: string
  a_branch :: string
  a_event_type :: string
  a_type_version :: u32
  a_payload :: json
  a_causation_id :: "event_id option"
  a_correlation_id :: "event_id option"
  a_external_id :: "string option"
  a_indexed_tags :: "json option"
  a_timestamp_us :: "i64 option"

definition append_default :: append_req where
  "append_default =
     \<lparr>a_stream_id = [], a_branch = ''main'', a_event_type = [], a_type_version = 1,
      a_payload = JNull, a_causation_id = None, a_correlation_id = None, a_external_id = None,
      a_indexed_tags = None, a_timestamp_us = None\<rparr>"

record stored_event =
  ev_id :: event_id
  ev_stream_id :: string
  ev_branch :: string
  ev_version :: u64
  ev_timestamp_us :: i64
  ev_causation_id :: "event_id option"
  ev_correlation_id :: "event_id option"
  ev_event_type :: string
  ev_type_version :: u32
  ev_payload :: bytes
  ev_external_id :: "string option"
  ev_indexed_tags :: "json option"

record read_query =
  q_stream_id :: string
  q_branch :: string
  q_from_version :: "u64 option"
  q_to_version :: "u64 option"
  q_limit :: "u64 option"
  q_event_type_filter :: "string option"

definition read_query_stream :: "string \<Rightarrow> read_query" where
  "read_query_stream s =
     \<lparr>q_stream_id = s, q_branch = ''main'', q_from_version = None, q_to_version = None,
      q_limit = None, q_event_type_filter = None\<rparr>"

section \<open>Options, streams, branches, snapshots\<close>

datatype encryption_mode = Plaintext | OsKeyring | EnvVar string
datatype checkpoint_mode = CheckpointAuto | CheckpointManual u64
datatype first_open_policy = CreateIfMissing | RequireExisting

record open_options =
  opt_encryption :: encryption_mode
  opt_checkpoint_mode :: checkpoint_mode
  opt_on_first_open :: first_open_policy
  opt_read_pool_size :: nat
  opt_read_pool_timeout_ms :: u64
  opt_default_max_results :: "nat option"
  opt_default_max_bytes :: "nat option"
  opt_reducer_state_large_threshold_bytes :: u64
  opt_auto_gc_orphans :: bool
  opt_background_executor_grace_timeout_ms :: u64
  opt_executor_quiescence_window_ms :: u64

definition open_options_default :: open_options where
  "open_options_default =
     \<lparr>opt_encryption = Plaintext, opt_checkpoint_mode = CheckpointAuto,
      opt_on_first_open = CreateIfMissing, opt_read_pool_size = 4,
      opt_read_pool_timeout_ms = 30000, opt_default_max_results = None,
      opt_default_max_bytes = None, opt_reducer_state_large_threshold_bytes = 1048576,
      opt_auto_gc_orphans = False, opt_background_executor_grace_timeout_ms = 10000,
      opt_executor_quiescence_window_ms = 2000\<rparr>"

record stream_info =
  si_id :: string
  si_declared_by :: string
  si_declared_at :: i64
  si_description :: "string option"

record create_branch_req =
  cb_stream_id :: string
  cb_branch_id :: string
  cb_parent_id :: string
  cb_parent_version :: u64
  cb_description :: "string option"
  cb_alternatives :: "json option"

record branch_info =
  bi_id :: string
  bi_stream_id :: string
  bi_parent_id :: string
  bi_parent_version :: u64
  bi_description :: "string option"
  bi_created_at :: i64
  bi_lifecycle :: string
  bi_closed_at :: "i64 option"
  bi_closed_reason :: "string option"
  bi_alternatives :: "json option"

record snapshot_info =
  sn_stream_id :: string
  sn_branch :: string
  sn_version :: u64
  sn_reducer_name :: string
  sn_reducer_version :: u32
  sn_state_schema_version :: u32
  sn_created_at :: i64

section \<open>Bounded reads\<close>

datatype truncation_reason = ResultCount | ByteSize

datatype truncation_cursor = TruncationCursor (cursor_bytes: bytes)

datatype cursor_inner =
    CRange string string u64
  | CCorrelation bytes bytes
  | CCausation "bytes list" u8 u32

datatype 'a read_outcome =
    Complete 'a
  | Truncated 'a "truncation_cursor option" truncation_reason

datatype sampling_mode = Exhaustive | BreadthFirst nat | Adaptive nat

datatype snapshot_policy =
    Manual
  | EveryNEvents u32
  | EveryNSeconds u32
  | StateAdaptive u32 u32

section \<open>Library functions\<close>

text \<open>
  The functions of third-party crates and of Unicode tables that the code calls: Unicode
  normalisation, the BLAKE3 hash (32 bytes), MessagePack and JSON text conversions, the character
  classes of code points beyond ASCII, the \<open>Debug\<close> form of a string, and of SQLite the \<open>GLOB\<close>
  operator (pattern, text) and the comparisons of \<open>json_extract(column, '$.key')\<close> with \<open>NULL\<close>
  and with a bound value. They are parameters of the model.
\<close>

datatype sql_value = SqlInteger i64 | SqlReal u64 | SqlText string

record libs =
  nfc :: "string \<Rightarrow> string"
  blake3 :: "bytes \<Rightarrow> bytes"
  mp_to_vec :: "json \<Rightarrow> string + bytes"
  mp_from_slice :: "bytes \<Rightarrow> string + json"
  json_to_string :: "json \<Rightarrow> string"
  json_from_str :: "string \<Rightarrow> json option"
  cursor_to_vec :: "cursor_inner \<Rightarrow> string + bytes"
  cursor_from_slice :: "bytes \<Rightarrow> string + cursor_inner"
  unicode_alphanumeric :: "nat \<Rightarrow> bool"
  unicode_whitespace :: "nat \<Rightarrow> bool"
  debug_string :: "string \<Rightarrow> string"
  sql_glob :: "string \<Rightarrow> string \<Rightarrow> bool"
  json_extract_is_null :: "string option \<Rightarrow> string \<Rightarrow> bool"
  json_extract_equals :: "string option \<Rightarrow> string \<Rightarrow> sql_value \<Rightarrow> bool"

text \<open>Documented behaviour the theorems refer to by name.\<close>

definition json_text_ok :: "libs \<Rightarrow> bool" where
  "json_text_ok L \<longleftrightarrow> (\<forall>j. json_from_str L (json_to_string L j) = Some j)"

definition cursor_codec_ok :: "libs \<Rightarrow> bool" where
  "cursor_codec_ok L \<longleftrightarrow>
     (\<forall>c. \<exists>b. cursor_to_vec L c = Inr b \<and> cursor_from_slice L b = Inr c)"

definition is_alphanumeric :: "libs \<Rightarrow> nat \<Rightarrow> bool" where
  "is_alphanumeric L c =
     (if c < 128 then 48 \<le> c \<and> c \<le> 57 \<or> 65 \<le> c \<and> c \<le> 90 \<or> 97 \<le> c \<and> c \<le> 122
      else unicode_alphanumeric L c)"

definition is_whitespace :: "libs \<Rightarrow> nat \<Rightarrow> bool" where
  "is_whitespace L c =
     (if c < 128 then 9 \<le> c \<and> c \<le> 13 \<or> c = 32 else unicode_whitespace L c)"

text \<open>\<open>TruncationCursor::encode\<close> and \<open>decode\<close>.\<close>

definition cursor_encode :: "libs \<Rightarrow> cursor_inner \<Rightarrow> truncation_cursor res" where
  "cursor_encode L c =
     bind_res (map_err MsgpackEncode (cursor_to_vec L c)) (\<lambda>b. Inr (TruncationCursor b))"

definition cursor_decode :: "libs \<Rightarrow> truncation_cursor \<Rightarrow> cursor_inner res" where
  "cursor_decode L c = map_err MsgpackDecode (cursor_from_slice L (cursor_bytes c))"

lemma cursor_roundtrip:
  assumes "cursor_codec_ok L"
  obtains t where "cursor_encode L c = Inr t" and "cursor_decode L t = Inr c"
  using assms unfolding cursor_codec_ok_def cursor_encode_def cursor_decode_def
  by (metis bind_res_simps(2) map_err_simps(2) truncation_cursor.sel)

end
