(* ===== verification/Demo_Libs.thy ===== *)
theory Demo_Libs
  imports Fossic_Types "HOL-Library.Countable"
begin

text \<open>
  A concrete instance of the library functions, at which the witnesses of the other theories
  apply their properties. The codecs number the values (every JSON value and every cursor has a
  number) and write the number in unary, so that decoding inverts encoding; the hash keeps the
  last 32 bytes of its input; normalisation is the identity, as NFC is on ASCII text. Of the tests
  SQLite makes, \<open>GLOB\<close> is the wildcard \<open>*\<close> and literal characters, and a row without tags has no
  value under any key.
\<close>

instance word :: (len) countable
  by (rule countable_classI [of unat]) (simp add: word_unat_eq_iff)

instance jnumber :: countable
  by countable_datatype

instance json :: countable
  by countable_datatype

instance cursor_inner :: countable
  by countable_datatype

fun demo_glob :: "string \<Rightarrow> string \<Rightarrow> bool" where
  "demo_glob [] s = (s = [])"
| "demo_glob (c # p) s =
     (if c = CHR ''*'' then list_ex (\<lambda>i. demo_glob p (drop i s)) [0..<Suc (length s)]
      else case s of [] \<Rightarrow> False | x # xs \<Rightarrow> x = c \<and> demo_glob p xs)"

definition demo_libs :: libs where
  "demo_libs =
     \<lparr>nfc = (\<lambda>s. s),
      blake3 = (\<lambda>b. take 32 (rev b @ replicate 32 0)),
      mp_to_vec = (\<lambda>j. Inr (replicate (to_nat j) 0)),
      mp_from_slice = (\<lambda>b. Inr (from_nat (length b))),
      json_to_string = (\<lambda>j. replicate (to_nat j) (CHR ''j'')),
      json_from_str = (\<lambda>s. Some (from_nat (length s))),
      cursor_to_vec = (\<lambda>c. Inr (replicate (to_nat c) 0)),
      cursor_from_slice = (\<lambda>b. Inr (from_nat (length b))),
      unicode_alphanumeric = (\<lambda>c. False),
      unicode_whitespace = (\<lambda>c. False),
      debug_string = (\<lambda>s. s),
      sql_glob = demo_glob,
      json_extract_is_null = (\<lambda>tags key. tags = None),
      json_extract_equals = (\<lambda>tags key v. False)\<rparr>"

lemma demo_simps [simp]:
  "nfc demo_libs s = s"
  "blake3 demo_libs b = take 32 (rev b @ replicate 32 0)"
  "mp_from_slice demo_libs b = Inr (from_nat (length b))"
  "mp_to_vec demo_libs j = Inr (replicate (to_nat j) 0)"
  "json_from_str demo_libs (json_to_string demo_libs j) = Some j"
  "unicode_alphanumeric demo_libs c = False"
  "unicode_whitespace demo_libs c = False"
  "sql_glob demo_libs = demo_glob"
  by (simp_all add: demo_libs_def)

lemma demo_json_text_ok: "json_text_ok demo_libs"
  by (simp add: json_text_ok_def)

lemma demo_cursor_codec_ok: "cursor_codec_ok demo_libs"
  by (simp add: cursor_codec_ok_def demo_libs_def)

end
