(* ===== verification/Cce.thy ===== *)
theory Cce
  imports Demo_Libs "HOL-Library.Multiset"
begin

text \<open>
  The canonical content encoding of \<open>src/cce.rs\<close>: the encoder of JSON values and the preimage
  of an event identity. The abstract side is a canonical value (\<open>canon\<close>: normalised strings,
  canonical floats, map entries ordered by encoded key) with a serialiser \<open>ser\<close>. The encoder is
  shown to compute \<open>ser (canon v)\<close> exactly where the value is encodable, and \<open>ser\<close> is shown to
  be prefix free, so that equal encodings mean equal canonical values.
\<close>

section \<open>The encoder\<close>

definition TAG_NULL :: u8 where "TAG_NULL = 0"
definition TAG_BOOL :: u8 where "TAG_BOOL = 1"
definition TAG_INT :: u8 where "TAG_INT = 2"
definition TAG_FLOAT :: u8 where "TAG_FLOAT = 3"
definition TAG_STRING :: u8 where "TAG_STRING = 4"
definition TAG_BYTES :: u8 where "TAG_BYTES = 5"
definition TAG_ARRAY :: u8 where "TAG_ARRAY = 6"
definition TAG_MAP :: u8 where "TAG_MAP = 7"

lemmas tag_defs = TAG_NULL_def TAG_BOOL_def TAG_INT_def TAG_FLOAT_def TAG_STRING_def
  TAG_BYTES_def TAG_ARRAY_def TAG_MAP_def

definition MAX_STRING_BYTES :: nat where
  "MAX_STRING_BYTES = 64 * 1024 * 1024"

definition CCE_PREFIX :: bytes where
  "CCE_PREFIX = str_bytes ''fossic-cce-v1'' @ [0]"

text \<open>A length cast with \<open>as u32\<close> and written little-endian.\<close>

definition len_le :: "nat \<Rightarrow> bytes" where
  "len_le n = u32_le (word_of_nat n)"

text \<open>
  A double is its bit pattern: it is NaN when the exponent is all ones and the fraction is not
  zero, and it equals \<open>0.0\<close> when all bits but the sign are zero.
\<close>

definition f64_is_nan :: "u64 \<Rightarrow> bool" where
  "f64_is_nan v \<longleftrightarrow> and v 0x7FF0000000000000 = 0x7FF0000000000000 \<and> and v 0x000FFFFFFFFFFFFF \<noteq> 0"

definition f64_is_zero :: "u64 \<Rightarrow> bool" where
  "f64_is_zero v \<longleftrightarrow> and v 0x7FFFFFFFFFFFFFFF = 0"

definition canonicalize_f64 :: "u64 \<Rightarrow> u64" where
  "canonicalize_f64 v =
     (if f64_is_nan v then 0x7FF8000000000000 else if f64_is_zero v then 0 else v)"

definition encode_i64 :: "bytes \<Rightarrow> i64 \<Rightarrow> bytes" where
  "encode_i64 out v = out @ [TAG_INT] @ i64_le v"

definition encode_f64 :: "bytes \<Rightarrow> u64 \<Rightarrow> bytes" where
  "encode_f64 out v = out @ [TAG_FLOAT] @ u64_le (canonicalize_f64 v)"

definition encode_u32_as_i64 :: "bytes \<Rightarrow> u32 \<Rightarrow> bytes" where
  "encode_u32_as_i64 out v = encode_i64 out (uint v)"

definition encode_string :: "libs \<Rightarrow> bytes \<Rightarrow> string \<Rightarrow> cce_error + bytes" where
  "encode_string L out s =
     (let bs = str_bytes (nfc L s) in
      if length bs > MAX_STRING_BYTES then Inl (StringTooLarge (length bs))
      else Inr (out @ [TAG_STRING] @ len_le (length bs) @ bs))"

definition encode_bytes :: "bytes \<Rightarrow> bytes \<Rightarrow> bytes" where
  "encode_bytes out bs = out @ [TAG_BYTES] @ len_le (length bs) @ bs"

definition encode_optional_bytes :: "bytes \<Rightarrow> bytes option \<Rightarrow> bytes" where
  "encode_optional_bytes out b =
     (case b of None \<Rightarrow> out @ [TAG_NULL] | Some bs \<Rightarrow> encode_bytes out bs)"

text \<open>
  The number branch of \<open>encode_value\<close>. \<open>as_f64\<close> is reached for the \<open>Float\<close> representation
  only, where it returns the double itself.
\<close>

fun float_bits :: "jnumber \<Rightarrow> u64" where
  "float_bits (Float f) = f"
| "float_bits _ = 0"

definition encode_number :: "bytes \<Rightarrow> jnumber \<Rightarrow> cce_error + bytes" where
  "encode_number out n =
     (case number_as_i64 n of
        Some i \<Rightarrow> Inr (encode_i64 out i)
      | None \<Rightarrow>
          (case number_as_u64 n of
             Some u \<Rightarrow> Inl (U64Overflow u)
           | None \<Rightarrow> Inr (encode_f64 out (float_bits n))))"

text \<open>The check \<open>pairs.windows(2)\<close> for equal neighbours.\<close>

fun adjacent_dup :: "(bytes \<times> bytes) list \<Rightarrow> bool" where
  "adjacent_dup (a # b # ps) = (fst a = fst b \<or> adjacent_dup (b # ps))"
| "adjacent_dup _ = False"

text \<open>
  \<open>encode_value\<close> appends to \<open>out\<close>. On an error the vector keeps a partial encoding, which every
  caller drops, so the model returns the error alone.
\<close>

fun encode_value :: "libs \<Rightarrow> bytes \<Rightarrow> json \<Rightarrow> cce_error + bytes"
  and encode_items :: "libs \<Rightarrow> bytes \<Rightarrow> json list \<Rightarrow> cce_error + bytes"
  and encode_pairs :: "libs \<Rightarrow> (string \<times> json) list \<Rightarrow> cce_error + (bytes \<times> bytes) list"
where
  "encode_value L out JNull = Inr (out @ [TAG_NULL])"
| "encode_value L out (JBool b) = Inr (out @ [TAG_BOOL] @ [if b then 1 else 0])"
| "encode_value L out (JNumber n) = encode_number out n"
| "encode_value L out (JString s) = encode_string L out s"
| "encode_value L out (JArray arr) =
     encode_items L (out @ [TAG_ARRAY] @ len_le (length arr)) arr"
| "encode_value L out (JObject kvs) =
     bind_res (encode_pairs L kvs) (\<lambda>pairs0.
       let pairs = sort_key fst pairs0 in
       if adjacent_dup pairs then Inl DuplicateKeys
       else Inr (out @ [TAG_MAP] @ len_le (length pairs) @ concat (map (\<lambda>(k, v). k @ v) pairs)))"
| "encode_items L out [] = Inr out"
| "encode_items L out (x # xs) = bind_res (encode_value L out x) (\<lambda>out'. encode_items L out' xs)"
| "encode_pairs L [] = Inr []"
| "encode_pairs L ((k, v) # kvs) =
     bind_res (encode_string L [] k) (\<lambda>kb.
     bind_res (encode_value L [] v) (\<lambda>vb.
     bind_res (encode_pairs L kvs) (\<lambda>ps. Inr ((kb, vb) # ps))))"

text \<open>\<open>derive_event_id\<close>: the buffer that is hashed, and the hash of it.\<close>

definition event_preimage ::
  "libs \<Rightarrow> string \<Rightarrow> u32 \<Rightarrow> bytes option \<Rightarrow> json \<Rightarrow> cce_error + bytes" where
  "event_preimage L event_type type_version causation_id payload =
     bind_res (encode_string L CCE_PREFIX event_type) (\<lambda>buf.
       encode_value L
         (encode_optional_bytes (encode_u32_as_i64 buf type_version) causation_id) payload)"

definition derive_event_id ::
  "libs \<Rightarrow> string \<Rightarrow> u32 \<Rightarrow> bytes option \<Rightarrow> json \<Rightarrow> cce_error + bytes" where
  "derive_event_id L event_type type_version causation_id payload =
     bind_res (event_preimage L event_type type_version causation_id payload)
       (\<lambda>buf. Inr (blake3 L buf))"

section \<open>Canonical values\<close>

datatype cce =
    CNull
  | CBool bool
  | CInt i64
  | CFloat u64
  | CStr string
  | CArr "cce list"
  | CMap "(string \<times> cce) list"

definition ser_str :: "string \<Rightarrow> bytes" where
  "ser_str s = TAG_STRING # len_le (length s) @ str_bytes s"

fun ser :: "cce \<Rightarrow> bytes" where
  "ser CNull = [TAG_NULL]"
| "ser (CBool b) = [TAG_BOOL, if b then 1 else 0]"
| "ser (CInt i) = TAG_INT # i64_le i"
| "ser (CFloat f) = TAG_FLOAT # u64_le f"
| "ser (CStr s) = ser_str s"
| "ser (CArr xs) = TAG_ARRAY # len_le (length xs) @ concat (map ser xs)"
| "ser (CMap kvs) = TAG_MAP # len_le (length kvs) @ concat (map (\<lambda>(k, v). ser_str k @ ser v) kvs)"

definition canon_number :: "jnumber \<Rightarrow> cce" where
  "canon_number n =
     (case number_as_i64 n of Some i \<Rightarrow> CInt i
      | None \<Rightarrow> CFloat (canonicalize_f64 (float_bits n)))"

fun canon :: "libs \<Rightarrow> json \<Rightarrow> cce" where
  "canon L JNull = CNull"
| "canon L (JBool b) = CBool b"
| "canon L (JNumber n) = canon_number n"
| "canon L (JString s) = CStr (nfc L s)"
| "canon L (JArray xs) = CArr (map (canon L) xs)"
| "canon L (JObject kvs) =
     CMap (sort_key (\<lambda>kv. ser_str (fst kv)) (map (\<lambda>(k, v). (nfc L k, canon L v)) kvs))"

text \<open>
  The values the encoder accepts: integers in the range of \<open>i64\<close>, strings of at most 64 MiB
  once normalised, object keys that stay distinct once normalised.
\<close>

definition number_encodable :: "jnumber \<Rightarrow> bool" where
  "number_encodable n \<longleftrightarrow> (case n of PosInt u \<Rightarrow> uint u \<le> i64_max | _ \<Rightarrow> True)"

definition str_encodable :: "libs \<Rightarrow> string \<Rightarrow> bool" where
  "str_encodable L s \<longleftrightarrow> length (nfc L s) \<le> MAX_STRING_BYTES"

fun encodable :: "libs \<Rightarrow> json \<Rightarrow> bool" where
  "encodable L (JNumber n) = number_encodable n"
| "encodable L (JString s) = str_encodable L s"
| "encodable L (JArray xs) = list_all (encodable L) xs"
| "encodable L (JObject kvs) =
     (list_all (\<lambda>(k, v). str_encodable L k \<and> encodable L v) kvs \<and>
      distinct (map (\<lambda>(k, v). nfc L k) kvs))"
| "encodable L _ = True"

section \<open>The encoder computes the canonical serialisation\<close>

lemma map_insort_key:
  "map g (insort_key (\<lambda>x. f (g x)) x xs) = insort_key f (g x) (map g xs)"
  by (induction xs) auto

lemma map_sort_key: "map g (sort_key (\<lambda>x. f (g x)) xs) = sort_key f (map g xs)"
  by (induction xs) (auto simp: map_insort_key)

lemma adjacent_dup_sorted:
  "sorted (map fst ps) \<Longrightarrow> adjacent_dup ps \<longleftrightarrow> \<not> distinct (map fst ps)"
proof (induction ps rule: adjacent_dup.induct)
  case (1 a b ps)
  then have "sorted (map fst (b # ps))" by simp
  then have IH: "adjacent_dup (b # ps) \<longleftrightarrow> \<not> distinct (map fst (b # ps))" by (rule "1.IH")
  have "fst a \<in> fst ` set ps \<Longrightarrow> fst a = fst b"
    using "1.prems" by (auto intro: antisym)
  then show ?case using IH by auto
qed auto

lemma distinct_map_sort_key: "distinct (map f (sort_key g xs)) \<longleftrightarrow> distinct (map f xs)"
proof -
  have "mset (map f (sort_key g xs)) = mset (map f xs)" by simp
  then show ?thesis by (rule mset_eq_imp_distinct_iff)
qed

lemma len_le_inj: "m < 2 ^ 32 \<Longrightarrow> n < 2 ^ 32 \<Longrightarrow> len_le m = len_le n \<longleftrightarrow> m = n"
  unfolding len_le_def u32_le_inj by (simp add: word_of_nat_eq_iff take_bit_nat_eq_self)

lemma length_len_le [simp]: "length (len_le n) = 4"
  by (simp add: len_le_def)

lemma ser_str_inj:
  assumes "length s < 2 ^ 32" "length t < 2 ^ 32" "ser_str s @ r = ser_str t @ r'"
  shows "s = t \<and> r = r'"
proof -
  have *: "len_le (length s) @ str_bytes s @ r = len_le (length t) @ str_bytes t @ r'"
    using assms(3) by (simp add: ser_str_def)
  then have "len_le (length s) = len_le (length t)"
    by (metis append_eq_append_conv length_len_le)
  then have "length s = length t" using assms len_le_inj by blast
  with * show ?thesis by (simp add: str_bytes_inj)
qed

lemma encode_string_eq:
  "encode_string L out s =
     (if str_encodable L s then Inr (out @ ser_str (nfc L s))
      else Inl (StringTooLarge (length (nfc L s))))"
  by (simp add: encode_string_def str_encodable_def ser_str_def Let_def)

lemma encode_number_eq:
  "\<exists>e. encode_number out n =
     (if number_encodable n then Inr (out @ ser (canon_number n)) else Inl e)"
  by (cases n)
    (auto simp: encode_number_def number_encodable_def canon_number_def encode_i64_def
      encode_f64_def)

lemma encode_pairs_length: "encode_pairs L kvs = Inr ps \<Longrightarrow> length ps = length kvs"
  by (induction kvs arbitrary: ps) (auto simp: bind_res_Inr_iff)

lemma ser_str_eq_iff:
  "length s \<le> MAX_STRING_BYTES \<Longrightarrow> length t \<le> MAX_STRING_BYTES \<Longrightarrow>
   ser_str s = ser_str t \<longleftrightarrow> s = t"
  using ser_str_inj [of s t "[]" "[]"] by (auto simp: MAX_STRING_BYTES_def)

definition ser_entry :: "string \<times> cce \<Rightarrow> bytes \<times> bytes" where
  "ser_entry kv = (ser_str (fst kv), ser (snd kv))"

definition canon_entry :: "libs \<Rightarrow> string \<times> json \<Rightarrow> string \<times> cce" where
  "canon_entry L kv = (nfc L (fst kv), canon L (snd kv))"

lemma encode_value_spec_aux:
  "\<exists>e. encode_value L out v = (if encodable L v then Inr (out @ ser (canon L v)) else Inl e)"
  "\<exists>e. encode_items L out xs =
     (if list_all (encodable L) xs then Inr (out @ concat (map (\<lambda>x. ser (canon L x)) xs)) else Inl e)"
  "\<exists>e. encode_pairs L kvs =
     (if list_all (\<lambda>(k, v). str_encodable L k \<and> encodable L v) kvs
      then Inr (map (\<lambda>kv. ser_entry (canon_entry L kv)) kvs) else Inl e)"
proof (induction L out v and L out xs and L kvs
    rule: encode_value_encode_items_encode_pairs.induct)
  case (6 L out kvs)
  show ?case
  proof (cases "list_all (\<lambda>(k, v). str_encodable L k \<and> encodable L v) kvs")
    case False
    then show ?thesis using "6.IH" by auto
  next
    case True
    let ?cs = "map (canon_entry L) kvs"
    let ?ps = "sort_key fst (map ser_entry ?cs)"
    have ep: "encode_pairs L kvs = Inr (map ser_entry ?cs)"
      using "6.IH" True by (auto simp: o_def)
    have small: "length (fst c) \<le> MAX_STRING_BYTES" if "c \<in> set ?cs" for c
      using True that by (auto simp: list_all_iff canon_entry_def str_encodable_def)
    have "distinct (map fst ?ps) \<longleftrightarrow> distinct (map ser_str (map fst ?cs))"
      by (simp add: distinct_map_sort_key ser_entry_def o_def)
    also have "\<dots> \<longleftrightarrow> distinct (map fst ?cs)"
    proof -
      have "inj_on ser_str (set (map fst ?cs))"
        using small by (auto simp: inj_on_def ser_str_eq_iff)
      then show ?thesis using distinct_map [of ser_str "map fst ?cs"] by blast
    qed
    finally have dup: "adjacent_dup ?ps \<longleftrightarrow> \<not> distinct (map (\<lambda>(k, v). nfc L k) kvs)"
      by (simp add: adjacent_dup_sorted canon_entry_def o_def case_prod_unfold)
    have "?ps = map ser_entry (sort_key (\<lambda>kv. ser_str (fst kv)) ?cs)"
      unfolding map_sort_key [of ser_entry fst, symmetric] by (simp add: ser_entry_def)
    then have "concat (map (\<lambda>(k, v). k @ v) ?ps) =
        concat (map (\<lambda>(k, v). ser_str k @ ser v) (sort_key (\<lambda>kv. ser_str (fst kv)) ?cs))"
      by (simp add: o_def ser_entry_def case_prod_unfold)
    moreover have "canon L (JObject kvs) = CMap (sort_key (\<lambda>kv. ser_str (fst kv)) ?cs)"
      by (simp add: canon_entry_def [abs_def] case_prod_unfold)
    ultimately show ?thesis
      using True dup by (simp add: ep del: canon.simps)
  qed
next
  case (3 L out n)
  show ?case using encode_number_eq [of out n] by (auto split: if_splits)
next
  case (5 L out arr)
  then show ?case by (auto simp: o_def)
next
  case (10 L k v kvs)
  let ?ok = "list_all (\<lambda>(k, v). str_encodable L k \<and> encodable L v) kvs"
  show ?case
  proof (cases "str_encodable L k \<and> encodable L v")
    case True
    then have vb: "encode_value L [] v = Inr (ser (canon L v))"
      and kb: "encode_string L [] k = Inr (ser_str (nfc L k))"
      using "10.IH"(1) by (auto simp: encode_string_eq)
    from "10.IH"(2) [OF kb vb] obtain e where "encode_pairs L kvs =
        (if ?ok then Inr (map (\<lambda>kv. ser_entry (canon_entry L kv)) kvs) else Inl e)"
      by blast
    with True show ?thesis by (simp add: kb vb ser_entry_def canon_entry_def)
  next
    case False
    then show ?thesis using "10.IH"(1) by (auto simp: encode_string_eq)
  qed
qed (auto simp: encode_string_eq)

section \<open>The serialisation is prefix free\<close>

text \<open>What the width of the length fields and of \<open>i64\<close> imposes on a canonical value.\<close>

fun cce_fits :: "cce \<Rightarrow> bool" where
  "cce_fits (CInt i) = (- 9223372036854775808 \<le> i \<and> i \<le> i64_max)"
| "cce_fits (CStr s) = (length s < 2 ^ 32)"
| "cce_fits (CArr xs) = (length xs < 2 ^ 32 \<and> list_all cce_fits xs)"
| "cce_fits (CMap kvs) =
     (length kvs < 2 ^ 32 \<and> list_all (\<lambda>(k, v). length k < 2 ^ 32 \<and> cce_fits v) kvs)"
| "cce_fits _ = True"

fun fits :: "json \<Rightarrow> bool" where
  "fits (JNumber (NegInt i)) = (- 9223372036854775808 \<le> i \<and> i < 0)"
| "fits (JArray xs) = (length xs < 2 ^ 32 \<and> list_all fits xs)"
| "fits (JObject kvs) = (length kvs < 2 ^ 32 \<and> list_all (\<lambda>(k, v). fits v) kvs)"
| "fits _ = True"

lemma i64_le_inj:
  assumes "- 9223372036854775808 \<le> i" "i \<le> i64_max" "- 9223372036854775808 \<le> j" "j \<le> i64_max"
    and "i64_le i = i64_le j"
  shows "i = j"
proof -
  have "as_u64 i = as_u64 j" using assms(5) by (simp add: i64_le_def u64_le_inj)
  then show ?thesis using assms(1-4) by (metis as_i64_as_u64)
qed

lemma concat_prefix_free:
  assumes "\<And>x y r s. x \<in> set xs \<Longrightarrow> y \<in> set ys \<Longrightarrow> f x @ r = f y @ s \<Longrightarrow> x = y \<and> r = s"
    and "length xs = length ys" and "concat (map f xs) @ r = concat (map f ys) @ s"
  shows "xs = ys \<and> r = s"
  using assms(2,1,3)
proof (induction xs ys rule: list_induct2)
  case (Cons x xs y ys)
  from Cons.prems(2) have "f x @ concat (map f xs) @ r = f y @ concat (map f ys) @ s" by simp
  from Cons.prems(1) [OF _ _ this] have *: "x = y" "concat (map f xs) @ r = concat (map f ys) @ s"
    by simp_all
  moreover have "xs = ys \<and> r = s"
    by (rule Cons.IH [OF _ *(2)]) (use Cons.prems(1) in auto)
  ultimately show ?case by simp
qed simp

lemmas tag_neq = tag_defs ser_str_def

lemma ser_prefix_free:
  "cce_fits c \<Longrightarrow> cce_fits d \<Longrightarrow> ser c @ r = ser d @ s \<Longrightarrow> c = d \<and> r = s"
proof (induction c arbitrary: d r s)
  case CNull
  then show ?case by (cases d) (auto simp: tag_neq)
next
  case (CBool b)
  then show ?case by (cases d) (auto simp: tag_neq split: if_splits)
next
  case (CInt i)
  then show ?case
    by (cases d) (auto simp: tag_neq dest: i64_le_inj)
next
  case (CFloat f)
  then show ?case by (cases d) (auto simp: tag_neq u64_le_inj)
next
  case (CStr t)
  show ?case
  proof (cases d)
    case (CStr u)
    have "length t < 2 ^ 32" "length u < 2 ^ 32" "ser_str t @ r = ser_str u @ s"
      using CStr.prems(1,2) CStr.prems(3) unfolding CStr cce_fits.simps ser.simps by blast+
    from ser_str_inj [OF this] CStr show ?thesis by simp
  qed (use CStr.prems in \<open>auto simp: tag_neq\<close>)
next
  case (CArr xs)
  show ?case
  proof (cases d)
    case (CArr ys)
    from CArr.prems(3) CArr have "len_le (length xs) = len_le (length ys)"
      and eq: "concat (map ser xs) @ r = concat (map ser ys) @ s" by auto
    then have len: "length xs = length ys"
      using CArr.prems(1,2) CArr by (simp add: len_le_inj)
    have "x = y \<and> r' = s'"
      if "x \<in> set xs" "y \<in> set ys" "ser x @ r' = ser y @ s'" for x y r' s'
    proof -
      have "cce_fits x" "cce_fits y"
        using that(1,2) CArr.prems(1,2) CArr by (auto simp: list_all_iff)
      then show ?thesis by (rule CArr.IH [OF that(1) _ _ that(3)])
    qed
    then have "xs = ys \<and> r = s" using len eq by (rule concat_prefix_free)
    then show ?thesis by (simp only: CArr)
  qed (use CArr.prems in \<open>auto simp: tag_neq\<close>)
next
  case (CMap kvs)
  show ?case
  proof (cases d)
    case (CMap kws)
    let ?f = "\<lambda>(k, v). ser_str k @ ser v"
    from CMap.prems(3) CMap have "len_le (length kvs) = len_le (length kws)"
      and eq: "concat (map ?f kvs) @ r = concat (map ?f kws) @ s" by auto
    then have len: "length kvs = length kws"
      using CMap.prems(1,2) CMap by (simp add: len_le_inj)
    have "x = y \<and> r' = s'"
      if "x \<in> set kvs" "y \<in> set kws" "?f x @ r' = ?f y @ s'" for x y r' s'
    proof -
      obtain k v where x: "x = (k, v)" by (cases x)
      obtain k' v' where y: "y = (k', v')" by (cases y)
      have fit: "length k < 2 ^ 32" "length k' < 2 ^ 32" "cce_fits v" "cce_fits v'"
        using that CMap.prems(1,2) CMap x y by (auto simp: list_all_iff)
      have "ser_str k @ (ser v @ r') = ser_str k' @ (ser v' @ s')" using that(3) x y by simp
      from ser_str_inj [OF fit(1,2) this] have "k = k'" "ser v @ r' = ser v' @ s'" by simp_all
      moreover from CMap.IH [OF that(1) _ fit(3,4) this(2)] x have "v = v' \<and> r' = s'" by simp
      ultimately show ?thesis by (simp add: x y)
    qed
    then have "kvs = kws \<and> r = s" using len eq by (rule concat_prefix_free)
    then show ?thesis by (simp only: CMap)
  qed (use CMap.prems in \<open>auto simp: tag_neq\<close>)
qed

section \<open>Properties of the encoding\<close>

lemma encodable_fits: "encodable L v \<Longrightarrow> fits v \<Longrightarrow> cce_fits (canon L v)"
proof (induction L v rule: canon.induct)
  case (3 L n)
  then show ?case
    using uint_ge_0 [where 'a = 64]
    by (cases n) (auto simp: canon_number_def number_encodable_def i64_max_def
      intro: order_trans [of _ 0])
next
  case (4 L s)
  then show ?case by (simp add: str_encodable_def MAX_STRING_BYTES_def)
next
  case (5 L xs)
  then show ?case by (auto simp: list_all_iff)
next
  case (6 L kvs)
  have "length (nfc L k) < 2 ^ 32 \<and> cce_fits (canon L v)" if kv: "(k, v) \<in> set kvs" for k v
  proof -
    from kv "6.prems" have "str_encodable L k" "encodable L v" "fits v"
      by (auto simp: list_all_iff)
    with "6.IH" [OF kv refl] show ?thesis
      by (simp add: str_encodable_def MAX_STRING_BYTES_def)
  qed
  then show ?case using "6.prems" by (auto simp: list_all_iff)
qed auto

text \<open>
  C19. \<open>encode_value\<close> on any JSON value: where the integers fit \<open>i64\<close>, the strings fit 64 MiB and
  the normalised keys of each object are distinct, it appends the serialisation of the canonical
  value; everywhere else it returns an error.
\<close>

theorem encode_value_spec:
  "\<exists>e. encode_value L out v =
     (if encodable L v then Inr (out @ ser (canon L v)) else Inl e)"
  by (rule encode_value_spec_aux(1))

lemma encode_value_ok: "encodable L v \<Longrightarrow> encode_value L out v = Inr (out @ ser (canon L v))"
  using encode_value_spec_aux(1) [of L out v] by auto

lemma encode_value_Inr: "encode_value L out v = Inr r \<Longrightarrow> encodable L v \<and> r = out @ ser (canon L v)"
  using encode_value_spec_aux(1) [of L out v] by (auto split: if_splits)

text \<open>
  C14. CCE is uniquely decodable: if the encodings of two values, each followed by arbitrary
  bytes, coincide, then the two values have the same canonical form and the bytes that follow
  are the same. So no encoding is a proper prefix of another.
\<close>

theorem encode_value_prefix_free:
  assumes "encode_value L [] v = Inr b" and "encode_value L [] w = Inr c"
    and "fits v" and "fits w" and "b @ r = c @ s"
  shows "canon L v = canon L w \<and> r = s"
proof -
  from assms(1,2) have v: "encodable L v" "b = ser (canon L v)"
    and w: "encodable L w" "c = ser (canon L w)"
    using encode_value_Inr [of L "[]"] by fastforce+
  show ?thesis
    using ser_prefix_free [of "canon L v" "canon L w" r s] encodable_fits v w assms(3-5) by blast
qed

definition demo_object :: json where
  "demo_object = JObject [(''b'', JBool True), (''a'', JNull)]"

definition demo_object_swapped :: json where
  "demo_object_swapped = JObject [(''a'', JNull), (''b'', JBool True)]"

lemma demo_object_encodable: "encodable demo_libs demo_object"
  by (simp add: demo_object_def str_encodable_def MAX_STRING_BYTES_def)

theorem encode_value_prefix_free_witness:
  "canon demo_libs demo_object = canon demo_libs demo_object \<and> [7 :: byte] = [7]"
proof (rule encode_value_prefix_free)
  show "encode_value demo_libs [] demo_object = Inr ([] @ ser (canon demo_libs demo_object))"
    "encode_value demo_libs [] demo_object = Inr ([] @ ser (canon demo_libs demo_object))"
    by (simp_all only: encode_value_ok demo_object_encodable)
qed (simp_all add: demo_object_def)

text \<open>A key order does not matter: permuted entries give the same canonical value.\<close>

lemma canon_object_perm:
  assumes "mset kvs = mset kws" and "encodable L (JObject kvs)"
  shows "canon L (JObject kvs) = canon L (JObject kws)"
proof -
  let ?g = "\<lambda>(k, v). (nfc L k, canon L v)" and ?key = "\<lambda>kv. ser_str (fst kv)"
  have small: "length (fst c) \<le> MAX_STRING_BYTES" if "c \<in> set (map ?g kvs)" for c
    using assms(2) that by (auto simp: list_all_iff str_encodable_def)
  have dist: "distinct (map fst (map ?g kvs))"
    using assms(2) by (simp add: o_def case_prod_unfold)
  have "inj_on ?key (set (map ?g kvs))"
  proof (rule inj_onI)
    fix c d assume c: "c \<in> set (map ?g kvs)" and d: "d \<in> set (map ?g kvs)" and "?key c = ?key d"
    then have "fst c = fst d" using small ser_str_eq_iff by blast
    with dist c d show "c = d" by (meson distinct_map inj_onD)
  qed
  moreover have "mset (map ?g kws) = mset (map ?g kvs)" using assms(1) by simp
  ultimately have "sort_key ?key (map ?g kvs) = sort_key ?key (map ?g kws)"
    by (intro sort_key_inj_key_eq) auto
  then show ?thesis by simp
qed

text \<open>
  The order in which a map yields its entries does not influence the encoding: an object
  whose entries are permuted encodes to the same bytes.
\<close>

theorem encode_object_order_irrelevant:
  assumes "mset kvs = mset kws" and "encode_value L out (JObject kvs) = Inr b"
  shows "encode_value L out (JObject kws) = Inr b"
proof -
  from assms(2) have v: "encodable L (JObject kvs)" "b = out @ ser (canon L (JObject kvs))"
    using encode_value_Inr by blast+
  have "set kvs = set kws" using assms(1) by (metis set_mset_mset)
  moreover have "mset (map f kvs) = mset (map f kws)" for f :: "string \<times> json \<Rightarrow> string"
    using assms(1) by simp
  ultimately have "encodable L (JObject kws)"
    using v(1) mset_eq_imp_distinct_iff
    unfolding encodable.simps list_all_iff by metis
  then show ?thesis
    by (simp only: encode_value_ok v(2) canon_object_perm [OF assms(1) v(1)])
qed

theorem encode_object_order_irrelevant_witness:
  "encode_value demo_libs [] demo_object_swapped = Inr (ser (canon demo_libs demo_object))"
proof -
  have enc: "encode_value demo_libs [] demo_object = Inr (ser (canon demo_libs demo_object))"
    using encode_value_ok [OF demo_object_encodable, of "[]"] by (simp only: append_Nil)
  have perm: "mset [(''b'', JBool True), (''a'', JNull)] = mset [(''a'', JNull), (''b'', JBool True)]"
    by simp
  show ?thesis
    using encode_object_order_irrelevant [OF perm, of demo_libs "[]"] enc
    unfolding demo_object_def demo_object_swapped_def by blast
qed

section \<open>Event identities\<close>

definition ser_opt :: "bytes option \<Rightarrow> bytes" where
  "ser_opt b = encode_optional_bytes [] b"

lemma encode_optional_bytes_eq: "encode_optional_bytes out b = out @ ser_opt b"
  by (cases b) (simp_all add: ser_opt_def encode_optional_bytes_def encode_bytes_def)

definition short_opt :: "bytes option \<Rightarrow> bool" where
  "short_opt b \<longleftrightarrow> (case b of None \<Rightarrow> True | Some bs \<Rightarrow> length bs < 2 ^ 32)"

lemma ser_opt_prefix_free:
  assumes "short_opt b" "short_opt c" and eq: "ser_opt b @ r = ser_opt c @ s"
  shows "b = c \<and> r = s"
proof (cases b)
  case None
  then show ?thesis using eq
    by (cases c) (auto simp: ser_opt_def encode_optional_bytes_def encode_bytes_def tag_defs)
next
  case (Some bs)
  then obtain cs where c: "c = Some cs"
    using eq by (cases c) (auto simp: ser_opt_def encode_optional_bytes_def encode_bytes_def tag_defs)
  have *: "len_le (length bs) @ bs @ r = len_le (length cs) @ cs @ s"
    using eq Some c by (simp add: ser_opt_def encode_optional_bytes_def encode_bytes_def)
  then have "len_le (length bs) = len_le (length cs)"
    by (metis append_eq_append_conv length_len_le)
  then have "length bs = length cs"
    using assms(1,2) Some c by (simp add: short_opt_def len_le_inj)
  with * Some c show ?thesis by simp
qed

lemma event_preimage_eq:
  "event_preimage L ty ver caus p = Inr b \<longleftrightarrow>
     str_encodable L ty \<and> encodable L p \<and>
     b = CCE_PREFIX @ ser_str (nfc L ty) @ (TAG_INT # i64_le (uint ver)) @ ser_opt caus @
         ser (canon L p)"
  using encode_value_ok [of L p] encode_value_Inr [of L _ p]
  by (auto simp: event_preimage_def encode_string_eq encode_optional_bytes_eq
      encode_u32_as_i64_def encode_i64_def)

lemma uint_u32_i64: "- 9223372036854775808 \<le> uint (v :: u32)" "uint (v :: u32) \<le> i64_max"
proof -
  have "0 \<le> uint v" "uint v < 4294967296"
    using uint_ge_0 [of v] uint_lt2p [of v] by simp_all
  then show "- 9223372036854775808 \<le> uint v" "uint v \<le> i64_max"
    unfolding i64_max_def by linarith+
qed

text \<open>
  C15. The bytes that are hashed determine the event: two preimages are equal exactly when the
  event types agree up to normalisation and the versions, the causation identities and the
  canonical payloads agree.
\<close>

theorem event_preimage_injective:
  assumes "event_preimage L ty ver caus p = Inr b" and "event_preimage L ty' ver' caus' p' = Inr b'"
    and "fits p" and "fits p'" and "short_opt caus" and "short_opt caus'"
  shows "b = b' \<longleftrightarrow> nfc L ty = nfc L ty' \<and> ver = ver' \<and> caus = caus' \<and> canon L p = canon L p'"
proof
  assume "b = b'"
  with assms(1,2) have enc: "str_encodable L ty" "encodable L p" "str_encodable L ty'" "encodable L p'"
    and eq: "ser_str (nfc L ty) @ (TAG_INT # i64_le (uint ver)) @ ser_opt caus @ ser (canon L p) =
      ser_str (nfc L ty') @ (TAG_INT # i64_le (uint ver')) @ ser_opt caus' @ ser (canon L p')"
    by (auto simp: event_preimage_eq)
  from ser_str_inj [OF _ _ eq] enc have ty: "nfc L ty = nfc L ty'"
    and eq1: "i64_le (uint ver) @ ser_opt caus @ ser (canon L p) =
      i64_le (uint ver') @ ser_opt caus' @ ser (canon L p')"
    by (auto simp: str_encodable_def MAX_STRING_BYTES_def)
  then have ver: "i64_le (uint ver) = i64_le (uint ver')"
    and eq2: "ser_opt caus @ ser (canon L p) = ser_opt caus' @ ser (canon L p')"
    by (auto simp: append_eq_append_conv)
  from ver have "ver = ver'"
    using i64_le_inj [OF uint_u32_i64 uint_u32_i64 ver] by (simp only: word_uint_eq_iff)
  moreover from ser_opt_prefix_free [OF assms(5,6) eq2] have "caus = caus'"
    and "ser (canon L p) @ [] = ser (canon L p') @ []" by simp_all
  moreover from ser_prefix_free [OF _ _ this(2)] have "canon L p = canon L p'"
    using encodable_fits enc assms(3,4) by blast
  ultimately show "nfc L ty = nfc L ty' \<and> ver = ver' \<and> caus = caus' \<and> canon L p = canon L p'"
    using ty by blast
next
  assume "nfc L ty = nfc L ty' \<and> ver = ver' \<and> caus = caus' \<and> canon L p = canon L p'"
  then show "b = b'" using assms(1,2) by (simp add: event_preimage_eq)
qed

theorem event_preimage_injective_witness:
  "\<exists>b b'. event_preimage demo_libs ''Ping'' 1 None demo_object = Inr b \<and>
     event_preimage demo_libs ''Ping'' 2 None demo_object = Inr b' \<and> b \<noteq> b'"
proof -
  obtain b where b: "event_preimage demo_libs ''Ping'' 1 None demo_object = Inr b"
    using demo_object_encodable
    by (simp add: event_preimage_eq str_encodable_def MAX_STRING_BYTES_def)
  obtain b' where b': "event_preimage demo_libs ''Ping'' 2 None demo_object = Inr b'"
    using demo_object_encodable
    by (simp add: event_preimage_eq str_encodable_def MAX_STRING_BYTES_def)
  have f: "fits demo_object" by (simp add: demo_object_def)
  have n: "short_opt None" by (simp add: short_opt_def)
  have "b \<noteq> b'" using event_preimage_injective [OF b b' f f n n] by simp
  then show ?thesis using b b' by blast
qed

text \<open>
  Two derivations that do not collide give the same identity exactly for the same event.
\<close>

lemma derive_event_id_Inr:
  "derive_event_id L ty ver caus p = Inr i \<longleftrightarrow>
     (\<exists>b. event_preimage L ty ver caus p = Inr b \<and> i = blake3 L b)"
  by (auto simp: derive_event_id_def bind_res_Inr_iff)

end
