(* ===== verification/Database.thy ===== *)
theory Database
  imports Fossic_Types
begin

text \<open>
  The SQLite file as the code sees it (\<open>src/schema.rs\<close> and the row reader of \<open>src/read.rs\<close>): one
  list of rows per table, in insertion order, and the statements the components share. A
  statement is modelled by its effect on the rows, constraint violations included; failures of
  the storage layer (I/O, a busy file) are outside the model. The table \<open>stream_deks\<close> is never
  used by the code and has no field.
\<close>

section \<open>Tables\<close>

record event_row =
  r_id :: event_id
  r_stream_id :: string
  r_branch :: string
  r_version :: i64
  r_timestamp_us :: i64
  r_causation_id :: "event_id option"
  r_correlation_id :: "event_id option"
  r_event_type :: string
  r_type_version :: i64
  r_payload :: bytes
  r_external_id :: "string option"
  r_indexed_tags :: "string option"

record branch_row =
  br_id :: string
  br_stream_id :: string
  br_parent_id :: string
  br_parent_version :: i64
  br_description :: "string option"
  br_created_at :: i64
  br_lifecycle :: string
  br_closed_at :: "i64 option"
  br_closed_reason :: "string option"
  br_alternatives :: "string option"

record snapshot_row =
  sr_stream_id :: string
  sr_branch :: string
  sr_version :: i64
  sr_reducer_name :: string
  sr_reducer_version :: i64
  sr_state_schema_version :: i64
  sr_state_blob :: bytes
  sr_created_at :: i64

record stream_row =
  st_id :: string
  st_declared_by :: string
  st_declared_at :: i64
  st_description :: "string option"

record cursor_row =
  cu_consumer_id :: string
  cu_stream_id :: string
  cu_branch :: string
  cu_version :: i64
  cu_updated_at :: i64

record db =
  t_events :: "event_row list"
  t_branches :: "branch_row list"
  t_snapshots :: "snapshot_row list"
  t_streams :: "stream_row list"
  t_cursors :: "cursor_row list"
  t_upcasters :: "(string \<times> i64 \<times> i64 \<times> i64) list"
  t_meta :: "(string \<times> string) list"
  has_schema :: bool
  user_version :: u32

definition empty_db :: db where
  "empty_db =
     \<lparr>t_events = [], t_branches = [], t_snapshots = [], t_streams = [], t_cursors = [],
      t_upcasters = [], t_meta = [], has_schema = False, user_version = 0\<rparr>"

section \<open>Opening: migrations and bootstrap\<close>

definition CURRENT_SCHEMA_VERSION :: u32 where
  "CURRENT_SCHEMA_VERSION = 1"

definition run_migrations :: "db \<Rightarrow> db res" where
  "run_migrations d =
     (if user_version d > CURRENT_SCHEMA_VERSION
      then Inl (SchemaMismatch (user_version d) CURRENT_SCHEMA_VERSION)
      else if user_version d = CURRENT_SCHEMA_VERSION then Inr d
      else if has_schema d then Inl (Sqlite ConstraintViolation)
      else Inr (d\<lparr>has_schema := True, user_version := CURRENT_SCHEMA_VERSION\<rparr>))"

text \<open>\<open>INSERT OR IGNORE INTO meta\<close> for one pair; the printed numbers are arguments.\<close>

definition meta_insert_or_ignore :: "string \<times> string \<Rightarrow> db \<Rightarrow> db" where
  "meta_insert_or_ignore kv d =
     (if fst kv \<in> fst ` set (t_meta d) then d else d\<lparr>t_meta := t_meta d @ [kv]\<rparr>)"

definition bootstrap_meta :: "string \<Rightarrow> string \<Rightarrow> string \<Rightarrow> db \<Rightarrow> db" where
  "bootstrap_meta now_text crate_version encryption_mode d =
     fold meta_insert_or_ignore
       [(''fossic_schema_version'', ''1''), (''cce_version'', ''fossic-cce-v1''),
        (''created_at_us'', now_text), (''created_by_version'', crate_version),
        (''encryption_mode'', encryption_mode)] d"

definition stream_insert_or_ignore :: "stream_row \<Rightarrow> db \<Rightarrow> db" where
  "stream_insert_or_ignore row d =
     (if \<exists>r \<in> set (t_streams d). st_id r = st_id row then d
      else d\<lparr>t_streams := t_streams d @ [row]\<rparr>)"

definition SYSTEM_STREAM :: string where
  "SYSTEM_STREAM = ''_fossic/system''"

definition bootstrap_system_streams :: "i64 \<Rightarrow> db \<Rightarrow> db" where
  "bootstrap_system_streams now d =
     stream_insert_or_ignore
       \<lparr>st_id = SYSTEM_STREAM, st_declared_by = ''fossic'', st_declared_at = now,
        st_description = Some ''Internal fossic system events''\<rparr> d"

section \<open>The events table\<close>

text \<open>\<open>COALESCE(MAX(version), -1)\<close> for one stream and branch.\<close>

definition branch_versions :: "db \<Rightarrow> string \<Rightarrow> string \<Rightarrow> i64 list" where
  "branch_versions d s b =
     map r_version (filter (\<lambda>r. r_stream_id r = s \<and> r_branch r = b) (t_events d))"

definition max_version :: "db \<Rightarrow> string \<Rightarrow> string \<Rightarrow> i64" where
  "max_version d s b =
     (case branch_versions d s b of [] \<Rightarrow> -1 | v # vs \<Rightarrow> Max (set (v # vs)))"

definition next_version :: "db \<Rightarrow> string \<Rightarrow> string \<Rightarrow> i64" where
  "next_version d s b = max_version d s b + 1"

text \<open>
  \<open>INSERT OR IGNORE INTO events\<close>: a row that violates the primary key on \<open>id\<close> or the unique
  constraint on \<open>(stream_id, branch, version)\<close> is skipped. The second component is the number
  of changed rows.
\<close>

definition event_conflict :: "db \<Rightarrow> event_row \<Rightarrow> bool" where
  "event_conflict d row \<longleftrightarrow>
     (\<exists>r \<in> set (t_events d). r_id r = r_id row \<or>
        r_stream_id r = r_stream_id row \<and> r_branch r = r_branch row \<and>
        r_version r = r_version row)"

definition event_insert_or_ignore :: "event_row \<Rightarrow> db \<Rightarrow> db \<times> nat" where
  "event_insert_or_ignore row d =
     (if event_conflict d row then (d, 0) else (d\<lparr>t_events := t_events d @ [row]\<rparr>, 1))"

text \<open>\<open>row_to_event\<close>: the only column whose conversion can fail is the JSON text of the tags.\<close>

definition row_to_event :: "libs \<Rightarrow> event_row \<Rightarrow> stored_event res" where
  "row_to_event L row =
     bind_res
       (case r_indexed_tags row of
          None \<Rightarrow> Inr None
        | Some t \<Rightarrow>
            (case json_from_str L t of
               None \<Rightarrow> Inl (Sqlite (FromSqlConversionFailure 11))
             | Some j \<Rightarrow> Inr (Some j)))
       (\<lambda>tags. Inr
          \<lparr>ev_id = r_id row, ev_stream_id = r_stream_id row, ev_branch = r_branch row,
           ev_version = as_u64 (r_version row), ev_timestamp_us = r_timestamp_us row,
           ev_causation_id = r_causation_id row, ev_correlation_id = r_correlation_id row,
           ev_event_type = r_event_type row,
           ev_type_version = word_of_int (r_type_version row), ev_payload = r_payload row,
           ev_external_id = r_external_id row, ev_indexed_tags = tags\<rparr>)"

definition rows_to_events :: "libs \<Rightarrow> event_row list \<Rightarrow> stored_event list res" where
  "rows_to_events L rows = collect_res (row_to_event L) rows"

section \<open>Well-formed tables\<close>

text \<open>
  The constraints SQLite enforces and the range of the version numbers the code assigns.
\<close>

definition row_key :: "event_row \<Rightarrow> string \<times> string \<times> i64" where
  "row_key r = (r_stream_id r, r_branch r, r_version r)"

definition events_wf :: "event_row list \<Rightarrow> bool" where
  "events_wf rs \<longleftrightarrow>
     distinct (map r_id rs) \<and>
     distinct (map row_key rs) \<and>
     (\<forall>r \<in> set rs. 0 \<le> r_version r)"

text \<open>Every row can be read back, and its version is in the range of \<open>i64\<close>.\<close>

definition row_readable :: "libs \<Rightarrow> event_row \<Rightarrow> bool" where
  "row_readable L r \<longleftrightarrow> (\<exists>e. row_to_event L r = Inr e)"

lemma max_version_ge: "v \<in> set (branch_versions d s b) \<Longrightarrow> v \<le> max_version d s b"
  by (auto simp: max_version_def split: list.splits)

lemma max_version_in:
  "branch_versions d s b \<noteq> [] \<Longrightarrow> max_version d s b \<in> set (branch_versions d s b)"
proof (cases "branch_versions d s b")
  case (Cons v vs)
  then show ?thesis using Max_in [of "set (v # vs)"] by (simp add: max_version_def)
qed simp

lemma next_version_fresh:
  assumes "r \<in> set (t_events d)" "r_stream_id r = s" "r_branch r = b"
  shows "r_version r < next_version d s b"
proof -
  have "r_version r \<in> set (branch_versions d s b)"
    using assms by (auto simp: branch_versions_def)
  from max_version_ge [OF this] show ?thesis by (simp add: next_version_def)
qed

lemma next_version_nonneg:
  assumes "events_wf (t_events d)"
  shows "0 \<le> next_version d s b"
proof (cases "branch_versions d s b = []")
  case True
  then show ?thesis by (simp add: next_version_def max_version_def)
next
  case False
  from max_version_in [OF this] assms show ?thesis
    by (auto simp: branch_versions_def events_wf_def next_version_def)
qed

text \<open>With the version the code computes, the only possible conflict is the identity.\<close>

lemma event_conflict_id:
  "r_version row = next_version d (r_stream_id row) (r_branch row) \<Longrightarrow>
   event_conflict d row \<longleftrightarrow> r_id row \<in> r_id ` set (t_events d)"
  unfolding event_conflict_def using next_version_fresh [of _ d "r_stream_id row" "r_branch row"]
  by (metis (no_types, lifting) image_iff less_irrefl)

lemma event_insert_wf:
  assumes "events_wf (t_events d)"
    and "r_version row = next_version d (r_stream_id row) (r_branch row)"
    and "event_insert_or_ignore row d = (d', n)"
  shows "events_wf (t_events d')"
proof (cases "event_conflict d row")
  case True
  then show ?thesis using assms(1,3) by (simp add: event_insert_or_ignore_def)
next
  case False
  have none: "r_id r \<noteq> r_id row \<and> row_key r \<noteq> row_key row" if "r \<in> set (t_events d)" for r
    using False that unfolding event_conflict_def row_key_def by blast
  have "r_id row \<notin> r_id ` set (t_events d)" "row_key row \<notin> row_key ` set (t_events d)"
    by (metis imageE none)+
  moreover have "t_events d' = t_events d @ [row]"
    using False assms(3) unfolding event_insert_or_ignore_def by auto
  ultimately show ?thesis
    using assms(1) next_version_nonneg [OF assms(1)] by (simp add: events_wf_def assms(2))
qed

end
