(* ===== verification/Streams.thy ===== *)
theory Streams
  imports Database Demo_Libs
begin

text \<open>
  The stream registry (\<open>src/stream.rs\<close>): validation of stream identifiers, idempotent
  declaration, existence and the user-facing list.
\<close>

definition MAX_STREAM_ID_LEN :: nat where "MAX_STREAM_ID_LEN = 256"
definition MAX_STREAM_SEGMENTS :: nat where "MAX_STREAM_SEGMENTS = 4"

definition stream_char_ok :: "libs \<Rightarrow> nat \<Rightarrow> bool" where
  "stream_char_ok L c \<longleftrightarrow> is_alphanumeric L c \<or> c = 45 \<or> c = 95 \<or> c = 47"

fun check_stream_chars :: "libs \<Rightarrow> string \<Rightarrow> nat list \<Rightarrow> unit res" where
  "check_stream_chars L id0 [] = Inr ()"
| "check_stream_chars L id0 (c # cs) =
     (if \<not> stream_char_ok L c then Inl (InvalidStreamId id0 (DisallowedCharacter c))
      else check_stream_chars L id0 cs)"

fun check_segments :: "string \<Rightarrow> string list \<Rightarrow> unit res" where
  "check_segments id0 [] = Inr ()"
| "check_segments id0 (seg # segs) =
     (if seg = [] then Inl (InvalidStreamId id0 EmptySegment) else check_segments id0 segs)"

definition validate_stream_id :: "libs \<Rightarrow> string \<Rightarrow> unit res" where
  "validate_stream_id L id0 =
     (if id0 = [] then Inl (InvalidStreamId id0 MustNotBeEmpty)
      else if length id0 > MAX_STREAM_ID_LEN
      then Inl (InvalidStreamId id0 (ExceedsCharacterLimit MAX_STREAM_ID_LEN))
      else bind_res (check_stream_chars L id0 (utf8_chars id0)) (\<lambda>_.
        let segments = split_on (CHR ''/'') id0 in
        if length segments > MAX_STREAM_SEGMENTS
        then Inl (InvalidStreamId id0 (TooManySegments (length segments) MAX_STREAM_SEGMENTS))
        else check_segments id0 segments))"

definition declare_stream_impl ::
  "libs \<Rightarrow> i64 \<Rightarrow> db \<Rightarrow> string \<Rightarrow> string \<Rightarrow> string option \<Rightarrow> db res" where
  "declare_stream_impl L now d stream_id declared_by description =
     bind_res (validate_stream_id L stream_id) (\<lambda>_.
       Inr (stream_insert_or_ignore
         \<lparr>st_id = stream_id, st_declared_by = declared_by, st_declared_at = now,
          st_description = description\<rparr> d))"

definition stream_exists_impl :: "db \<Rightarrow> string \<Rightarrow> bool" where
  "stream_exists_impl d stream_id \<longleftrightarrow>
     length (filter (\<lambda>r. st_id r = stream_id) (t_streams d)) > 0"

text \<open>
  SQLite's \<open>LIKE\<close>: \<open>%\<close> matches any run of characters, \<open>_\<close> any single character, and ASCII
  letters match regardless of case.
\<close>

definition like_fold :: "nat \<Rightarrow> nat" where
  "like_fold c = (if 65 \<le> c \<and> c \<le> 90 then c + 32 else c)"

fun sql_like :: "nat list \<Rightarrow> nat list \<Rightarrow> bool" where
  "sql_like [] s = (s = [])"
| "sql_like (p # ps) s =
     (if p = 37 then list_ex (\<lambda>i. sql_like ps (drop i s)) [0..<Suc (length s)]
      else case s of [] \<Rightarrow> False
        | c # cs \<Rightarrow> (p = 95 \<or> like_fold p = like_fold c) \<and> sql_like ps cs)"

definition streams_impl :: "db \<Rightarrow> stream_info list" where
  "streams_impl d =
     map (\<lambda>r. \<lparr>si_id = st_id r, si_declared_by = st_declared_by r,
               si_declared_at = st_declared_at r, si_description = st_description r\<rparr>)
       (sort_key st_id
         (filter (\<lambda>r. \<not> sql_like (utf8_chars ''_fossic/%'') (utf8_chars (st_id r)))
           (t_streams d)))"

section \<open>Validation\<close>

lemma check_stream_chars_iff:
  "check_stream_chars L id0 cs = Inr () \<longleftrightarrow> (\<forall>c \<in> set cs. stream_char_ok L c)"
  by (induction cs) auto

lemma check_segments_iff: "check_segments id0 segs = Inr () \<longleftrightarrow> [] \<notin> set segs"
  by (induction segs) auto

lemma validate_stream_id_iff:
  "validate_stream_id L id0 = Inr () \<longleftrightarrow>
     id0 \<noteq> [] \<and> length id0 \<le> 256 \<and> (\<forall>c \<in> set (utf8_chars id0). stream_char_ok L c) \<and>
     length (split_on (CHR ''/'') id0) \<le> 4 \<and> [] \<notin> set (split_on (CHR ''/'') id0)"
  by (auto simp: validate_stream_id_def MAX_STREAM_ID_LEN_def MAX_STREAM_SEGMENTS_def
      bind_res_Inr_iff check_stream_chars_iff check_segments_iff Let_def)

lemma split_segments_iff:
  "length (split_on c s) \<le> n \<and> [] \<notin> set (split_on c s) \<longleftrightarrow>
     (\<exists>segs. segs \<noteq> [] \<and> length segs \<le> n \<and> s = join_with c segs \<and>
        (\<forall>p \<in> set segs. p \<noteq> [] \<and> c \<notin> set p))"
proof
  assume "length (split_on c s) \<le> n \<and> [] \<notin> set (split_on c s)"
  then show "\<exists>segs. segs \<noteq> [] \<and> length segs \<le> n \<and> s = join_with c segs \<and>
        (\<forall>p \<in> set segs. p \<noteq> [] \<and> c \<notin> set p)"
    using split_on_segments [of _ c s] join_split [of c s]
    by (intro exI [of _ "split_on c s"]) auto
next
  assume "\<exists>segs. segs \<noteq> [] \<and> length segs \<le> n \<and> s = join_with c segs \<and>
        (\<forall>p \<in> set segs. p \<noteq> [] \<and> c \<notin> set p)"
  then show "length (split_on c s) \<le> n \<and> [] \<notin> set (split_on c s)"
    by (auto simp: split_join)
qed

text \<open>
  \<open>validate_stream_id\<close> accepts exactly the paths of one to four non-empty segments joined by
  \<open>/\<close>, at most 256 bytes long, all of whose characters are alphanumeric, \<open>-\<close>, \<open>_\<close> or \<open>/\<close>.
\<close>

theorem validate_stream_id_spec:
  "validate_stream_id L s = Inr () \<longleftrightarrow>
     length s \<le> 256 \<and> (\<forall>c \<in> set (utf8_chars s). stream_char_ok L c) \<and>
     (\<exists>segs. segs \<noteq> [] \<and> length segs \<le> 4 \<and> s = join_with (CHR ''/'') segs \<and>
        (\<forall>p \<in> set segs. p \<noteq> [] \<and> CHR ''/'' \<notin> set p))"
proof -
  have "s \<noteq> []" if "[] \<notin> set (split_on (CHR ''/'') s)" using that by auto
  then show ?thesis
    unfolding validate_stream_id_iff split_segments_iff [symmetric] by blast
qed

theorem validate_stream_id_spec_witness:
  "validate_stream_id demo_libs ''a/b'' = Inr ()"
proof -
  have "''a/b'' = join_with (CHR ''/'') [''a'', ''b'']" by simp
  moreover have "\<forall>c \<in> set (utf8_chars ''a/b''). stream_char_ok demo_libs c"
    by (simp add: stream_char_ok_def is_alphanumeric_def)
  moreover have "\<forall>p \<in> set [''a'', ''b'']. p \<noteq> [] \<and> CHR ''/'' \<notin> set p" by simp
  ultimately have "\<exists>segs. segs \<noteq> [] \<and> length segs \<le> 4 \<and> ''a/b'' = join_with (CHR ''/'') segs \<and>
      (\<forall>p \<in> set segs. p \<noteq> [] \<and> CHR ''/'' \<notin> set p)"
    by (intro exI [of _ "[''a'', ''b'']"]) simp
  then show ?thesis
    unfolding validate_stream_id_spec by (simp add: stream_char_ok_def is_alphanumeric_def)
qed

section \<open>The registry\<close>

lemma stream_exists_iff: "stream_exists_impl d s \<longleftrightarrow> (\<exists>r \<in> set (t_streams d). st_id r = s)"
  by (auto simp: stream_exists_impl_def filter_empty_conv)

lemma stream_exists_insert:
  "stream_exists_impl (stream_insert_or_ignore row d) s \<longleftrightarrow> s = st_id row \<or> stream_exists_impl d s"
  by (auto simp: stream_exists_iff stream_insert_or_ignore_def)

lemma declare_frame:
  assumes "declare_stream_impl L now d s by0 desc = Inr d'"
  shows "t_events d' = t_events d" "t_branches d' = t_branches d" "t_snapshots d' = t_snapshots d"
    "t_cursors d' = t_cursors d"
  using assms
  by (auto simp: declare_stream_impl_def bind_res_Inr_iff stream_insert_or_ignore_def)

text \<open>
  Declaring a stream is idempotent: a declaration that succeeds makes exactly that stream
  exist besides the earlier ones, and a later declaration of it changes nothing, whoever makes
  it.
\<close>

theorem declare_stream_idempotent:
  assumes "declare_stream_impl L now d s by0 desc = Inr d'"
  shows "declare_stream_impl L now2 d' s by2 desc2 = Inr d' \<and>
    (\<forall>t. stream_exists_impl d' t \<longleftrightarrow> t = s \<or> stream_exists_impl d t)"
proof -
  from assms have v: "validate_stream_id L s = Inr ()"
    by (auto simp: declare_stream_impl_def bind_res_Inr_iff)
  with assms have d': "d' = stream_insert_or_ignore
      \<lparr>st_id = s, st_declared_by = by0, st_declared_at = now, st_description = desc\<rparr> d"
    by (simp add: declare_stream_impl_def)
  then have ex: "stream_exists_impl d' t \<longleftrightarrow> t = s \<or> stream_exists_impl d t" for t
    by (simp add: stream_exists_insert)
  then have "\<exists>r \<in> set (t_streams d'). st_id r = s" by (auto simp: stream_exists_iff)
  then have "declare_stream_impl L now2 d' s by2 desc2 = Inr d'"
    by (simp add: declare_stream_impl_def v stream_insert_or_ignore_def)
  with ex show ?thesis by blast
qed

theorem declare_stream_idempotent_witness:
  "\<exists>d'. declare_stream_impl demo_libs 5 empty_db ''a/b'' ''app'' None = Inr d' \<and>
     declare_stream_impl demo_libs 9 d' ''a/b'' ''other'' (Some ''x'') = Inr d'"
proof -
  have "declare_stream_impl demo_libs 5 empty_db ''a/b'' ''app'' None =
      Inr (empty_db\<lparr>t_streams := [\<lparr>st_id = ''a/b'', st_declared_by = ''app'', st_declared_at = 5,
        st_description = None\<rparr>]\<rparr>)"
    by (simp add: declare_stream_impl_def validate_stream_id_def MAX_STREAM_ID_LEN_def
        MAX_STREAM_SEGMENTS_def stream_char_ok_def is_alphanumeric_def Let_def
        stream_insert_or_ignore_def empty_db_def)
  from this declare_stream_idempotent [OF this, of 9 "''other''" "Some ''x''"] show ?thesis
    by blast
qed

text \<open>
  The user-facing list does not show every user stream: the pattern \<open>'_fossic/%'\<close> of the
  query uses \<open>_\<close> as a wildcard, so a stream such as \<open>xfossic/a\<close> can be declared, exists, and is
  missing from the list.
\<close>

theorem streams_hides_user_stream:
  "\<exists>d'. declare_stream_impl L now empty_db ''xfossic/a'' ''app'' None = Inr d' \<and>
     stream_exists_impl d' ''xfossic/a'' \<and> \<not> starts_with ''xfossic/a'' ''_fossic/'' \<and>
     streams_impl d' = []"
proof -
  have "declare_stream_impl L now empty_db ''xfossic/a'' ''app'' None =
      Inr (empty_db\<lparr>t_streams := [\<lparr>st_id = ''xfossic/a'', st_declared_by = ''app'',
        st_declared_at = now, st_description = None\<rparr>]\<rparr>)"
    by (simp add: declare_stream_impl_def validate_stream_id_def MAX_STREAM_ID_LEN_def
        MAX_STREAM_SEGMENTS_def stream_char_ok_def is_alphanumeric_def Let_def
        stream_insert_or_ignore_def empty_db_def)
  moreover have "sql_like (utf8_chars ''_fossic/%'') (utf8_chars ''xfossic/a'')"
    by (simp add: like_fold_def)
  ultimately show ?thesis
    by (simp add: stream_exists_impl_def streams_impl_def del: sql_like.simps utf8_chars.simps)
qed

end
