(* ===== verification/Append.thy ===== *)
theory Append
  imports Cce Streams
begin

text \<open>
  Writing events (\<open>src/append.rs\<close>): the single, the conditional and the batch append, each one
  transaction on the store file. An error drops the transaction, so an operation returns the new
  file only on success.

  What the three have in common is the contract \<open>event_writer\<close>: the file changes only by
  inserting rows whose version is the next free one of their stream and branch. The invariants of
  the events table follow from the contract once for every writer.
\<close>

section \<open>Operations\<close>

record append_outcome =
  ao_event_id :: event_id
  ao_version :: u64
  ao_timestamp_us :: i64
  ao_payload_bytes :: bytes
  ao_is_new :: bool

fun json_kind :: "json \<Rightarrow> string" where
  "json_kind (JArray _) = ''array''"
| "json_kind (JBool _) = ''bool''"
| "json_kind (JNumber _) = ''number''"
| "json_kind (JString _) = ''string''"
| "json_kind JNull = ''null''"
| "json_kind (JObject _) = ''object''"

fun json_kind_batch :: "json \<Rightarrow> string" where
  "json_kind_batch (JArray _) = ''array''"
| "json_kind_batch _ = ''non-object''"

definition check_indexed_tags :: "(json \<Rightarrow> string) \<Rightarrow> json option \<Rightarrow> unit res" where
  "check_indexed_tags kind tags =
     (case tags of None \<Rightarrow> Inr ()
      | Some t \<Rightarrow> if is_object t then Inr () else Inl (InvalidIndexedTags (kind t)))"

text \<open>\<open>rmp_serde::to_vec(\<dots>).unwrap_or_default()\<close>.\<close>

definition outcome_bytes :: "libs \<Rightarrow> json \<Rightarrow> bytes" where
  "outcome_bytes L payload = (case mp_to_vec L payload of Inl _ \<Rightarrow> [] | Inr b \<Rightarrow> b)"

text \<open>The identity of an append and the row it inserts.\<close>

definition append_event_id :: "libs \<Rightarrow> append_req \<Rightarrow> json \<Rightarrow> event_id res" where
  "append_event_id L a payload =
     bind_res
       (map_err Cce (derive_event_id L (a_event_type a) (a_type_version a)
          (map_option id_bytes (a_causation_id a)) payload))
       (\<lambda>b. Inr (EventId b))"

definition append_row ::
  "libs \<Rightarrow> append_req \<Rightarrow> event_id \<Rightarrow> i64 \<Rightarrow> i64 \<Rightarrow> bytes \<Rightarrow> event_row" where
  "append_row L a i version timestamp payload_bytes =
     \<lparr>r_id = i, r_stream_id = a_stream_id a, r_branch = a_branch a, r_version = version,
      r_timestamp_us = timestamp, r_causation_id = a_causation_id a,
      r_correlation_id = a_correlation_id a, r_event_type = a_event_type a,
      r_type_version = uint (a_type_version a), r_payload = payload_bytes,
      r_external_id = a_external_id a,
      r_indexed_tags = map_option (json_to_string L) (a_indexed_tags a)\<rparr>"

definition append_timestamp :: "i64 \<Rightarrow> append_req \<Rightarrow> i64" where
  "append_timestamp now a = (case a_timestamp_us a of None \<Rightarrow> now | Some t \<Rightarrow> t)"

definition append_impl ::
  "libs \<Rightarrow> i64 \<Rightarrow> append_req \<Rightarrow> json \<Rightarrow> bytes \<Rightarrow> db \<Rightarrow> (db \<times> append_outcome) res" where
  "append_impl L now a payload payload_bytes d =
     bind_res (check_indexed_tags json_kind (a_indexed_tags a)) (\<lambda>_.
     bind_res (append_event_id L a payload) (\<lambda>event_id.
       let timestamp_us = append_timestamp now a in
       if \<not> stream_exists_impl d (a_stream_id a) then Inl (StreamNotDeclared (a_stream_id a))
       else
         let next = next_version d (a_stream_id a) (a_branch a);
             (d', rows_changed) = event_insert_or_ignore
                (append_row L a event_id next timestamp_us payload_bytes) d
         in Inr (d', \<lparr>ao_event_id = event_id, ao_version = as_u64 next,
                      ao_timestamp_us = timestamp_us,
                      ao_payload_bytes = outcome_bytes L payload,
                      ao_is_new = rows_changed > 0\<rparr>)))"

definition append_if_impl ::
  "libs \<Rightarrow> i64 \<Rightarrow> append_req \<Rightarrow> json \<Rightarrow> bytes \<Rightarrow> (db \<Rightarrow> bool res) \<Rightarrow> db \<Rightarrow>
     (db \<times> append_outcome option) res" where
  "append_if_impl L now a payload payload_bytes condition d =
     bind_res (check_indexed_tags json_kind (a_indexed_tags a)) (\<lambda>_.
     bind_res (append_event_id L a payload) (\<lambda>event_id.
       let timestamp_us = append_timestamp now a in
       if \<not> stream_exists_impl d (a_stream_id a) then Inl (StreamNotDeclared (a_stream_id a))
       else bind_res (condition d) (\<lambda>holds.
         if \<not> holds then Inr (d, None)
         else
           let next = next_version d (a_stream_id a) (a_branch a);
               (d', rows_changed) = event_insert_or_ignore
                  (append_row L a event_id next timestamp_us payload_bytes) d
           in Inr (d', Some \<lparr>ao_event_id = event_id, ao_version = as_u64 next,
                             ao_timestamp_us = timestamp_us,
                             ao_payload_bytes = outcome_bytes L payload,
                             ao_is_new = rows_changed > 0\<rparr>))))"

text \<open>
  The batch. The first loop encodes every item before the transaction starts (the clock is read
  once per item, so the reads are a list), the second inserts the items in order.
\<close>

record encoded =
  en_event_id :: event_id
  en_payload_bytes :: bytes
  en_payload_for_outcome :: bytes
  en_timestamp_us :: i64

definition batch_encode ::
  "libs \<Rightarrow> append_req \<times> i64 \<times> json \<times> bytes \<Rightarrow> encoded res" where
  "batch_encode L x =
     (case x of (a, now, payload_val, payload_bytes) \<Rightarrow>
       bind_res (check_indexed_tags json_kind_batch (a_indexed_tags a)) (\<lambda>_.
       bind_res (append_event_id L a payload_val) (\<lambda>event_id.
         Inr \<lparr>en_event_id = event_id, en_payload_bytes = payload_bytes,
              en_payload_for_outcome = outcome_bytes L payload_val,
              en_timestamp_us = append_timestamp now a\<rparr>)))"

fun batch_insert ::
  "libs \<Rightarrow> (append_req \<times> encoded) list \<Rightarrow> db \<Rightarrow> (db \<times> append_outcome list) res" where
  "batch_insert L [] d = Inr (d, [])"
| "batch_insert L ((a, enc) # rest) d =
     (if \<not> stream_exists_impl d (a_stream_id a) then Inl (StreamNotDeclared (a_stream_id a))
      else
        let next = next_version d (a_stream_id a) (a_branch a);
            (d', rows_changed) = event_insert_or_ignore
               (append_row L a (en_event_id enc) next (en_timestamp_us enc)
                  (en_payload_bytes enc)) d
        in bind_res (batch_insert L rest d') (\<lambda>(d'', outs).
             Inr (d'', \<lparr>ao_event_id = en_event_id enc, ao_version = as_u64 next,
                        ao_timestamp_us = en_timestamp_us enc,
                        ao_payload_bytes = en_payload_for_outcome enc,
                        ao_is_new = rows_changed > 0\<rparr> # outs)))"

definition append_batch_impl ::
  "libs \<Rightarrow> (append_req \<times> i64 \<times> json \<times> bytes) list \<Rightarrow> db \<Rightarrow>
     (db \<times> append_outcome list) res" where
  "append_batch_impl L items d =
     (if items = [] then Inr (d, [])
      else bind_res (collect_res (batch_encode L) items) (\<lambda>encs.
        batch_insert L (zip (map fst items) encs) d))"

section \<open>The writer contract\<close>

text \<open>
  One run of a writer: a sequence of insertions, each with the next free version of its stream
  and branch, into a stream that exists; or no change.
\<close>

inductive event_writes :: "db \<Rightarrow> db \<Rightarrow> bool" where
  writes_refl: "event_writes d d"
| writes_insert:
    "event_writes d d' \<Longrightarrow> r_version row = next_version d' (r_stream_id row) (r_branch row) \<Longrightarrow>
     stream_exists_impl d' (r_stream_id row) \<Longrightarrow>
     event_writes d (fst (event_insert_or_ignore row d'))"

lemma event_writes_trans: "event_writes d' d'' \<Longrightarrow> event_writes d d' \<Longrightarrow> event_writes d d''"
  by (induction rule: event_writes.induct) (auto intro: event_writes.intros)

lemma event_writes_one:
  "r_version row = next_version d (r_stream_id row) (r_branch row) \<Longrightarrow>
   stream_exists_impl d (r_stream_id row) \<Longrightarrow>
   event_writes d (fst (event_insert_or_ignore row d))"
  by (intro writes_insert writes_refl)

text \<open>
  The versions of every stream and branch are 0, 1, 2, and so on in insertion order, without
  gaps.
\<close>

definition versions_dense :: "db \<Rightarrow> bool" where
  "versions_dense d \<longleftrightarrow>
     (\<forall>s b. branch_versions d s b = map int [0..<length (branch_versions d s b)])"

definition streams_declared :: "db \<Rightarrow> bool" where
  "streams_declared d \<longleftrightarrow> (\<forall>r \<in> set (t_events d). stream_exists_impl d (r_stream_id r))"

lemma next_version_dense:
  assumes "versions_dense d"
  shows "next_version d s b = int (length (branch_versions d s b))"
proof (cases "length (branch_versions d s b)")
  case 0
  then show ?thesis by (simp add: next_version_def max_version_def)
next
  case (Suc n)
  have *: "branch_versions d s b = map int [0..<Suc n]"
    using assms Suc unfolding versions_dense_def by metis
  then have "set (branch_versions d s b) = int ` {..n}"
    by (simp only: set_map set_upt) (auto simp: less_Suc_eq_le)
  moreover have "Max (int ` {..n}) = int n"
    by (intro Max_eqI) auto
  ultimately have "max_version d s b = int n"
    using Suc by (auto simp: max_version_def split: list.splits)
  then show ?thesis by (simp add: next_version_def Suc)
qed

lemma insert_branch_versions:
  "branch_versions (d\<lparr>t_events := t_events d @ [row]\<rparr>) s b =
     branch_versions d s b @
     (if r_stream_id row = s \<and> r_branch row = b then [r_version row] else [])"
  by (simp add: branch_versions_def)

lemma insert_dense:
  assumes "versions_dense d" "r_version row = next_version d (r_stream_id row) (r_branch row)"
  shows "versions_dense (fst (event_insert_or_ignore row d))"
proof -
  have "versions_dense (d\<lparr>t_events := t_events d @ [row]\<rparr>)"
    unfolding versions_dense_def
  proof (intro allI)
    fix s b
    have "branch_versions d s b = map int [0..<length (branch_versions d s b)]"
      using assms(1) by (simp add: versions_dense_def)
    then show "branch_versions (d\<lparr>t_events := t_events d @ [row]\<rparr>) s b =
        map int [0..<length (branch_versions (d\<lparr>t_events := t_events d @ [row]\<rparr>) s b)]"
      using assms(2) next_version_dense [OF assms(1)] by (simp add: insert_branch_versions)
  qed
  then show ?thesis using assms(1) by (simp add: event_insert_or_ignore_def)
qed

lemma insert_frame:
  assumes "d' = fst (event_insert_or_ignore row d)"
  shows "t_branches d' = t_branches d" "t_snapshots d' = t_snapshots d"
    "t_streams d' = t_streams d" "t_cursors d' = t_cursors d"
    "\<exists>new. t_events d' = t_events d @ new \<and> set new \<subseteq> {row}"
  using assms by (auto simp: event_insert_or_ignore_def)

lemma stream_exists_cong: "t_streams d' = t_streams d \<Longrightarrow> stream_exists_impl d' s = stream_exists_impl d s"
  by (simp add: stream_exists_iff)

text \<open>What a run of insertions keeps and what it adds.\<close>

lemma event_writes_wf: "event_writes d d' \<Longrightarrow> events_wf (t_events d) \<Longrightarrow> events_wf (t_events d')"
  by (induction rule: event_writes.induct) (auto intro: event_insert_wf simp: prod_eq_iff)

lemma event_writes_dense: "event_writes d d' \<Longrightarrow> versions_dense d \<Longrightarrow> versions_dense d'"
  by (induction rule: event_writes.induct) (auto intro: insert_dense)

lemma event_writes_frame:
  "event_writes d d' \<Longrightarrow> t_streams d' = t_streams d \<and> t_branches d' = t_branches d \<and>
     t_snapshots d' = t_snapshots d \<and> t_cursors d' = t_cursors d"
  by (induction rule: event_writes.induct) (simp_all add: insert_frame(1-4) [OF refl])

lemma event_writes_declared: "event_writes d d' \<Longrightarrow> streams_declared d \<Longrightarrow> streams_declared d'"
proof (induction rule: event_writes.induct)
  case (writes_insert d d' row)
  then have "streams_declared d'" by blast
  moreover note writes_insert.hyps(3)
  ultimately show ?case
    using insert_frame [OF refl, of row d']
    by (auto simp: streams_declared_def event_insert_or_ignore_def stream_exists_iff)
qed

lemma next_version_mono:
  assumes "set (branch_versions d s b) \<subseteq> set (branch_versions d' s b)" and "events_wf (t_events d')"
  shows "next_version d s b \<le> next_version d' s b"
proof (cases "branch_versions d s b = []")
  case True
  then show ?thesis
    using next_version_nonneg [OF assms(2), of s b] by (simp add: next_version_def max_version_def)
next
  case False
  from max_version_in [OF this] assms(1) have "max_version d s b \<in> set (branch_versions d' s b)"
    by blast
  from max_version_ge [OF this] show ?thesis by (simp add: next_version_def)
qed

text \<open>Rows are only added at the end, each with a version above all earlier ones of its branch.\<close>

lemma event_writes_append_only:
  "event_writes d d' \<Longrightarrow> events_wf (t_events d) \<Longrightarrow>
   \<exists>new. t_events d' = t_events d @ new \<and>
     (\<forall>r \<in> set new. next_version d (r_stream_id r) (r_branch r) \<le> r_version r)"
proof (induction rule: event_writes.induct)
  case (writes_insert d d' row)
  then obtain new where new: "t_events d' = t_events d @ new"
    "\<forall>r \<in> set new. next_version d (r_stream_id r) (r_branch r) \<le> r_version r" by blast
  have "events_wf (t_events d')" using writes_insert event_writes_wf by blast
  moreover have "set (branch_versions d s b) \<subseteq> set (branch_versions d' s b)" for s b
    by (auto simp: branch_versions_def new(1))
  ultimately have "next_version d (r_stream_id row) (r_branch row) \<le> r_version row"
    using next_version_mono writes_insert.hyps(2) by metis
  with new insert_frame(5) [OF refl, of row d'] show ?case by fastforce
qed simp

lemma event_writes_next_version:
  assumes "event_writes d d'" and "events_wf (t_events d)"
  shows "next_version d s b \<le> next_version d' s b"
proof (rule next_version_mono)
  show "set (branch_versions d s b) \<subseteq> set (branch_versions d' s b)"
    using event_writes_append_only [OF assms] by (auto simp: branch_versions_def)
  show "events_wf (t_events d')" by (rule event_writes_wf [OF assms])
qed

text \<open>The interface of a writer and what every writer guarantees.\<close>

locale event_writer =
  fixes run :: "db \<Rightarrow> 'e + db \<times> 'a"
  assumes run_writes: "run d = Inr (d', out) \<Longrightarrow> event_writes d d'"
begin

lemmas run_wf = event_writes_wf [OF run_writes]
lemmas run_dense = event_writes_dense [OF run_writes]
lemmas run_frame = event_writes_frame [OF run_writes]
lemmas run_declared = event_writes_declared [OF run_writes]
lemmas run_append_only = event_writes_append_only [OF run_writes]

lemma run_invariants:
  assumes "run d = Inr (d', out)"
    and "events_wf (t_events d)" "versions_dense d" "streams_declared d"
  shows "events_wf (t_events d')" "versions_dense d'" "streams_declared d'"
  using assms by (auto intro: run_wf run_dense run_declared)

end

section \<open>The three appends are writers\<close>

lemma append_impl_Inr:
  "append_impl L now a p pb d = Inr (d', out) \<longleftrightarrow>
     check_indexed_tags json_kind (a_indexed_tags a) = Inr () \<and>
     append_event_id L a p = Inr (ao_event_id out) \<and> stream_exists_impl d (a_stream_id a) \<and>
     (let row = append_row L a (ao_event_id out) (next_version d (a_stream_id a) (a_branch a))
                  (append_timestamp now a) pb
      in d' = fst (event_insert_or_ignore row d) \<and>
         out = \<lparr>ao_event_id = ao_event_id out,
                ao_version = as_u64 (next_version d (a_stream_id a) (a_branch a)),
                ao_timestamp_us = append_timestamp now a,
                ao_payload_bytes = outcome_bytes L p,
                ao_is_new = \<not> event_conflict d row\<rparr>)"
  by (auto simp: append_impl_def bind_res_Inr_iff Let_def event_insert_or_ignore_def
      split: prod.splits if_splits)

lemma append_row_simps [simp]:
  "r_stream_id (append_row L a i v t pb) = a_stream_id a"
  "r_branch (append_row L a i v t pb) = a_branch a"
  "r_version (append_row L a i v t pb) = v"
  "r_id (append_row L a i v t pb) = i"
  "r_payload (append_row L a i v t pb) = pb"
  by (simp_all add: append_row_def)

lemma append_impl_writes: "append_impl L now a p pb d = Inr (d', out) \<Longrightarrow> event_writes d d'"
  by (auto simp: append_impl_Inr Let_def intro: event_writes_one)

interpretation ap: event_writer "append_impl L now a p pb" for L now a p pb
  by unfold_locales (rule append_impl_writes)

lemma append_if_cases:
  "append_if_impl L now a p pb cond d =
     bind_res (check_indexed_tags json_kind (a_indexed_tags a)) (\<lambda>_.
     bind_res (append_event_id L a p) (\<lambda>_.
       if \<not> stream_exists_impl d (a_stream_id a) then Inl (StreamNotDeclared (a_stream_id a))
       else bind_res (cond d) (\<lambda>holds.
         if holds then bind_res (append_impl L now a p pb d) (\<lambda>(d', out). Inr (d', Some out))
         else Inr (d, None))))"
  by (cases "check_indexed_tags json_kind (a_indexed_tags a)"; cases "append_event_id L a p";
      cases "cond d") (auto simp: append_if_impl_def append_impl_def Let_def split: prod.splits)

lemma append_if_impl_writes:
  "append_if_impl L now a p pb cond d = Inr (d', out) \<Longrightarrow> event_writes d d'"
  by (auto simp: append_if_cases bind_res_Inr_iff
      intro: append_impl_writes writes_refl split: if_splits)

interpretation apif: event_writer "append_if_impl L now a p pb cond" for L now a p pb cond
  by unfold_locales (rule append_if_impl_writes)

lemma batch_insert_writes: "batch_insert L xs d = Inr (d', outs) \<Longrightarrow> event_writes d d'"
proof (induction L xs d arbitrary: d' outs rule: batch_insert.induct)
  case (1 L d)
  then show ?case by (simp add: writes_refl)
next
  case (2 L a enc rest d)
  let ?row = "append_row L a (en_event_id enc) (next_version d (a_stream_id a) (a_branch a))
    (en_timestamp_us enc) (en_payload_bytes enc)"
  obtain d1 n where ins: "event_insert_or_ignore ?row d = (d1, n)" by fastforce
  from "2.prems" have ex: "stream_exists_impl d (a_stream_id a)" by (auto split: if_splits)
  with "2.prems" ins obtain d2 outs' where "batch_insert L rest d1 = Inr (d2, outs')" "d' = d2"
    by (auto simp: Let_def bind_res_Inr_iff)
  with "2.IH" ex ins have "event_writes d1 d'" by (auto simp: Let_def)
  moreover have "event_writes d d1"
    using event_writes_one [of ?row d] ex ins by simp
  ultimately show ?case by (rule event_writes_trans)
qed

lemma append_batch_impl_writes:
  "append_batch_impl L items d = Inr (d', outs) \<Longrightarrow> event_writes d d'"
  by (auto simp: append_batch_impl_def bind_res_Inr_iff
      intro: batch_insert_writes writes_refl split: if_splits)

interpretation apb: event_writer "append_batch_impl L items" for L items
  by unfold_locales (rule append_batch_impl_writes)

section \<open>When an append succeeds\<close>

lemma check_indexed_tags_iff:
  "check_indexed_tags kind tags = Inr () \<longleftrightarrow> (case tags of None \<Rightarrow> True | Some t \<Rightarrow> is_object t)"
  by (auto simp: check_indexed_tags_def split: option.splits)

lemma append_event_id_ok:
  "(\<exists>i. append_event_id L a p = Inr i) \<longleftrightarrow>
     str_encodable L (a_event_type a) \<and> encodable L p"
  by (auto simp: append_event_id_def bind_res_Inr_iff map_err_Inr_iff derive_event_id_Inr
      event_preimage_eq)

lemma append_impl_ok_iff:
  "(\<exists>d' out. append_impl L now a p pb d = Inr (d', out)) \<longleftrightarrow>
     (case a_indexed_tags a of None \<Rightarrow> True | Some t \<Rightarrow> is_object t) \<and>
     str_encodable L (a_event_type a) \<and> encodable L p \<and> stream_exists_impl d (a_stream_id a)"
proof -
  have "(\<exists>d' out. append_impl L now a p pb d = Inr (d', out)) \<longleftrightarrow>
      check_indexed_tags json_kind (a_indexed_tags a) = Inr () \<and>
      (\<exists>i. append_event_id L a p = Inr i) \<and> stream_exists_impl d (a_stream_id a)" (is "?L \<longleftrightarrow> ?R")
  proof
    assume ?L
    then show ?R unfolding append_impl_Inr by blast
  next
    assume ?R
    then obtain i where "append_event_id L a p = Inr i" by blast
    with \<open>?R\<close> show ?L
      by (cases "event_insert_or_ignore (append_row L a i (next_version d (a_stream_id a)
            (a_branch a)) (append_timestamp now a) pb) d") (simp add: append_impl_def Let_def)
  qed
  then show ?thesis unfolding check_indexed_tags_iff append_event_id_ok by blast
qed

text \<open>
  C21. An append succeeds exactly when its tags are absent or a JSON object, its event type and
  payload are encodable, and its stream has been declared; in every other case it is an error.
\<close>

theorem append_impl_succeeds:
  "(\<exists>d' out. append_impl L now a p pb d = Inr (d', out)) \<longleftrightarrow>
     (case a_indexed_tags a of None \<Rightarrow> True | Some t \<Rightarrow> is_object t) \<and>
     str_encodable L (a_event_type a) \<and> encodable L p \<and> stream_exists_impl d (a_stream_id a)"
  by (rule append_impl_ok_iff)

text \<open>A file with one declared stream and an append to it, for the witnesses.\<close>

definition demo_db :: db where
  "demo_db = empty_db\<lparr>t_streams := [\<lparr>st_id = ''a/b'', st_declared_by = ''app'',
     st_declared_at = 0, st_description = None\<rparr>]\<rparr>"

definition demo_append :: append_req where
  "demo_append = append_default\<lparr>a_stream_id := ''a/b'', a_event_type := ''Ping''\<rparr>"

lemma demo_db_wf: "events_wf (t_events demo_db)" "versions_dense demo_db" "streams_declared demo_db"
  by (simp_all add: demo_db_def empty_db_def events_wf_def versions_dense_def branch_versions_def
      streams_declared_def)

lemma demo_append_ok: "\<exists>d' out. append_impl demo_libs 5 demo_append JNull [] demo_db = Inr (d', out)"
  unfolding append_impl_ok_iff
  by (simp add: demo_append_def append_default_def str_encodable_def MAX_STRING_BYTES_def
      stream_exists_iff demo_db_def)

section \<open>Properties of the single append\<close>

lemma append_impl_changes:
  assumes "append_impl L now a p pb d = Inr (d', out)"
  shows "ao_event_id out \<in> r_id ` set (t_events d') \<and>
    (if ao_is_new out
     then t_events d' = t_events d @ [append_row L a (ao_event_id out)
            (next_version d (a_stream_id a) (a_branch a)) (append_timestamp now a) pb] \<and>
          ao_event_id out \<notin> r_id ` set (t_events d)
     else d' = d)"
proof -
  let ?row = "append_row L a (ao_event_id out) (next_version d (a_stream_id a) (a_branch a))
    (append_timestamp now a) pb"
  have d': "d' = fst (event_insert_or_ignore ?row d)"
    and new: "ao_is_new out \<longleftrightarrow> \<not> event_conflict d ?row"
    using assms unfolding append_impl_Inr Let_def
    by (blast, metis append_outcome.select_convs(5))
  have "event_conflict d ?row \<longleftrightarrow> ao_event_id out \<in> r_id ` set (t_events d)"
    by (subst event_conflict_id) simp_all
  then show ?thesis using d' new by (simp add: event_insert_or_ignore_def)
qed

text \<open>
  C12. A successful append returns an identity that is stored. When the event is new, the file
  gains exactly one row, at the end, that carries the append's data, with the next free version
  of its stream and branch; otherwise the file is unchanged and a row with the same identity was
  there before.
\<close>

theorem append_impl_effect:
  assumes "append_impl L now a p pb d = Inr (d', out)"
  shows "ao_event_id out \<in> r_id ` set (t_events d') \<and>
    (if ao_is_new out
     then t_events d' = t_events d @ [append_row L a (ao_event_id out)
            (next_version d (a_stream_id a) (a_branch a)) (append_timestamp now a) pb] \<and>
          ao_event_id out \<notin> r_id ` set (t_events d)
     else d' = d)"
  by (rule append_impl_changes [OF assms])

theorem append_impl_effect_witness:
  "\<exists>d' out. append_impl demo_libs 5 demo_append JNull [] demo_db = Inr (d', out) \<and>
     length (t_events d') = 1 \<and> ao_is_new out"
proof -
  obtain d' out where ok: "append_impl demo_libs 5 demo_append JNull [] demo_db = Inr (d', out)"
    using demo_append_ok by blast
  have "t_events demo_db = []" by (simp add: demo_db_def empty_db_def)
  with append_impl_effect [OF ok] have "length (t_events d') = 1 \<and> ao_is_new out"
    by (auto split: if_splits)
  with ok show ?thesis by blast
qed

text \<open>
  C13. Appending is idempotent: repeating an append, at any later time, returns the same identity,
  reports it as a duplicate and leaves the file as it is.
\<close>

theorem append_impl_idempotent:
  assumes "append_impl L now a p pb d = Inr (d', out)"
  shows "\<exists>out2. append_impl L now2 a p pb2 d' = Inr (d', out2) \<and>
    ao_event_id out2 = ao_event_id out \<and> \<not> ao_is_new out2"
proof -
  let ?row = "append_row L a (ao_event_id out) (next_version d' (a_stream_id a) (a_branch a))
    (append_timestamp now2 a) pb2"
  have "ao_event_id out \<in> r_id ` set (t_events d')"
    using append_impl_changes [OF assms] by blast
  then have conflict: "event_conflict d' ?row"
    by (subst event_conflict_id) simp_all
  have "stream_exists_impl d' (a_stream_id a)"
    using assms ap.run_frame [OF assms] stream_exists_cong unfolding append_impl_Inr by blast
  then have "append_impl L now2 a p pb2 d' = Inr (d', \<lparr>ao_event_id = ao_event_id out,
      ao_version = as_u64 (next_version d' (a_stream_id a) (a_branch a)),
      ao_timestamp_us = append_timestamp now2 a, ao_payload_bytes = outcome_bytes L p,
      ao_is_new = False\<rparr>)"
    using assms conflict unfolding append_impl_Inr Let_def
    by (simp add: event_insert_or_ignore_def)
  then show ?thesis by fastforce
qed

theorem append_impl_idempotent_witness:
  "\<exists>d' out out2. append_impl demo_libs 5 demo_append JNull [] demo_db = Inr (d', out) \<and>
     append_impl demo_libs 6 demo_append JNull [1] d' = Inr (d', out2) \<and> \<not> ao_is_new out2"
proof -
  obtain d' out where ok: "append_impl demo_libs 5 demo_append JNull [] demo_db = Inr (d', out)"
    using demo_append_ok by blast
  from append_impl_idempotent [OF ok, of 6 "[1]"] ok show ?thesis by blast
qed

section \<open>Conditional and batch appends against the single append\<close>

text \<open>
  A conditional append whose condition holds is an append, one whose condition fails writes
  nothing, and an error of the condition is returned as it is.
\<close>

theorem append_if_impl_spec:
  assumes "append_impl L now a p pb d = Inr (d', out)"
  shows "append_if_impl L now a p pb cond d =
    (case cond d of Inl e \<Rightarrow> Inl e | Inr True \<Rightarrow> Inr (d', Some out) | Inr False \<Rightarrow> Inr (d, None))"
proof -
  from assms have "check_indexed_tags json_kind (a_indexed_tags a) = Inr ()"
    "append_event_id L a p = Inr (ao_event_id out)" "stream_exists_impl d (a_stream_id a)"
    unfolding append_impl_Inr by blast+
  then show ?thesis
    unfolding append_if_cases assms by (cases "cond d") (auto split: bool.splits)
qed

theorem append_if_impl_spec_witness:
  "append_if_impl demo_libs 5 demo_append JNull [] (\<lambda>d. Inr (t_events d \<noteq> [])) demo_db =
     Inr (demo_db, None)"
proof -
  obtain d' out where ok: "append_impl demo_libs 5 demo_append JNull [] demo_db = Inr (d', out)"
    using demo_append_ok by blast
  from append_if_impl_spec [OF ok, of "\<lambda>d. Inr (t_events d \<noteq> [])"] show ?thesis
    by (simp add: demo_db_def empty_db_def)
qed

text \<open>The reference: one append after another.\<close>

fun append_seq ::
  "libs \<Rightarrow> (append_req \<times> i64 \<times> json \<times> bytes) list \<Rightarrow> db \<Rightarrow>
     (db \<times> append_outcome list) res" where
  "append_seq L [] d = Inr (d, [])"
| "append_seq L ((a, now, p, pb) # items) d =
     bind_res (append_impl L now a p pb d) (\<lambda>(d', out).
     bind_res (append_seq L items d') (\<lambda>(d'', outs). Inr (d'', out # outs)))"

lemma check_kind_irrelevant:
  "check_indexed_tags k tags = Inr () \<longleftrightarrow> check_indexed_tags k' tags = Inr ()"
  by (simp only: check_indexed_tags_iff)

lemma batch_encode_Inr:
  "batch_encode L (a, now, p, pb) = Inr enc \<longleftrightarrow>
     check_indexed_tags json_kind (a_indexed_tags a) = Inr () \<and>
     append_event_id L a p = Inr (en_event_id enc) \<and>
     enc = \<lparr>en_event_id = en_event_id enc, en_payload_bytes = pb,
            en_payload_for_outcome = outcome_bytes L p,
            en_timestamp_us = append_timestamp now a\<rparr>"
  unfolding check_kind_irrelevant [of json_kind _ json_kind_batch]
  by (cases enc) (auto simp: batch_encode_def bind_res_Inr_iff)

lemma batch_insert_Cons_Inr:
  assumes "batch_encode L (a, now, p, pb) = Inr enc"
  shows "batch_insert L ((a, enc) # rest) d = Inr r \<longleftrightarrow>
    bind_res (append_impl L now a p pb d) (\<lambda>(d', out).
      bind_res (batch_insert L rest d') (\<lambda>(d'', outs). Inr (d'', out # outs))) = Inr r"
proof -
  from assms have enc: "check_indexed_tags json_kind (a_indexed_tags a) = Inr ()"
    "append_event_id L a p = Inr (en_event_id enc)" "en_payload_bytes enc = pb"
    "en_payload_for_outcome enc = outcome_bytes L p"
    "en_timestamp_us enc = append_timestamp now a"
    unfolding batch_encode_Inr
    by (blast, blast, metis encoded.select_convs(2), metis encoded.select_convs(3),
        metis encoded.select_convs(4))
  then show ?thesis
    by (auto simp: append_impl_def Let_def bind_res_def split: prod.splits sum.splits)
qed

lemma batch_insert_append_seq:
  "(\<exists>encs. collect_res (batch_encode L) items = Inr encs \<and>
      batch_insert L (zip (map fst items) encs) d = Inr r) \<longleftrightarrow> append_seq L items d = Inr r"
proof (induction L items d arbitrary: r rule: append_seq.induct)
  case (1 L d)
  then show ?case by simp
next
  case (2 L a now p pb items d)
  have "append_seq L ((a, now, p, pb) # items) d = Inr r \<longleftrightarrow>
      (\<exists>d' out d'' outs. append_impl L now a p pb d = Inr (d', out) \<and>
         append_seq L items d' = Inr (d'', outs) \<and> r = (d'', out # outs))"
    by (auto simp: bind_res_Inr_iff)
  also have "\<dots> \<longleftrightarrow> (\<exists>d' out d'' outs encs. append_impl L now a p pb d = Inr (d', out) \<and>
      collect_res (batch_encode L) items = Inr encs \<and>
      batch_insert L (zip (map fst items) encs) d' = Inr (d'', outs) \<and> r = (d'', out # outs))"
    using "2.IH" by (metis prod.collapse)
  also have "\<dots> \<longleftrightarrow> (\<exists>enc encs. batch_encode L (a, now, p, pb) = Inr enc \<and>
      collect_res (batch_encode L) items = Inr encs \<and>
      batch_insert L ((a, enc) # zip (map fst items) encs) d = Inr r)"
    (is "?L \<longleftrightarrow> ?R")
  proof
    assume ?L
    then obtain d' out d'' outs encs where ap: "append_impl L now a p pb d = Inr (d', out)"
      and encs: "collect_res (batch_encode L) items = Inr encs"
      and rest: "batch_insert L (zip (map fst items) encs) d' = Inr (d'', outs)"
        "r = (d'', out # outs)" by blast
    from ap have be: "batch_encode L (a, now, p, pb) = Inr
        \<lparr>en_event_id = ao_event_id out, en_payload_bytes = pb,
         en_payload_for_outcome = outcome_bytes L p, en_timestamp_us = append_timestamp now a\<rparr>"
      (is "_ = Inr ?enc") unfolding append_impl_Inr batch_encode_Inr by simp
    have "batch_insert L ((a, ?enc) # zip (map fst items) encs) d = Inr r"
      unfolding batch_insert_Cons_Inr [OF be] by (simp add: ap rest)
    with be encs show ?R by blast
  next
    assume ?R
    then obtain enc encs where be: "batch_encode L (a, now, p, pb) = Inr enc"
      and encs: "collect_res (batch_encode L) items = Inr encs"
      and "batch_insert L ((a, enc) # zip (map fst items) encs) d = Inr r" by blast
    from this(3) [unfolded batch_insert_Cons_Inr [OF be]] encs show ?L
      by (auto simp: bind_res_Inr_iff)
  qed
  finally show ?case
    by (auto simp: bind_res_Inr_iff simp del: batch_insert.simps append_seq.simps)
qed

text \<open>
  C20. A batch that succeeds has the effect and the outcomes of appending its items one after
  another, and it succeeds whenever those appends all do.
\<close>

theorem append_batch_impl_sequential:
  "append_batch_impl L items d = Inr r \<longleftrightarrow> append_seq L items d = Inr r"
  using batch_insert_append_seq [of L items d r]
  by (auto simp: append_batch_impl_def bind_res_Inr_iff)

end
