(* ===== verification/Read.thy ===== *)
theory Read
  imports Append
begin

text \<open>
  Reading events (\<open>src/read.rs\<close>): range reads, reads by identity, batch of identities and
  external identity, and the bounded range read with its resume cursor.

  The bounded reads of the store share one scanning loop and one paging discipline. The locale
  \<open>paged_read\<close> states what the discipline needs from a query (resuming at the cursor of a page
  yields exactly the rows after it) and proves what paging gives: every page is within budget,
  and the pages together are the unbounded read.
\<close>

section \<open>Operations\<close>

definition type_filter_ok :: "string option \<Rightarrow> event_row \<Rightarrow> bool" where
  "type_filter_ok f r \<longleftrightarrow> (case f of None \<Rightarrow> True | Some t \<Rightarrow> r_event_type r = t)"

text \<open>The range statement: its \<open>WHERE\<close> clause, \<open>ORDER BY version ASC\<close>, and \<open>LIMIT\<close>.\<close>

definition select_range ::
  "db \<Rightarrow> string \<Rightarrow> string \<Rightarrow> i64 \<Rightarrow> i64 \<Rightarrow> string option \<Rightarrow> event_row list" where
  "select_range d s b from0 to0 f =
     sort_key r_version
       (filter (\<lambda>r. r_stream_id r = s \<and> r_branch r = b \<and> from0 \<le> r_version r \<and>
          r_version r \<le> to0 \<and> type_filter_ok f r) (t_events d))"

text \<open>A negative \<open>LIMIT\<close> is no limit.\<close>

definition sql_limit :: "i64 \<Rightarrow> 'a list \<Rightarrow> 'a list" where
  "sql_limit n xs = (if n < 0 then xs else take (nat n) xs)"

definition upper_version :: "u64 option \<Rightarrow> i64" where
  "upper_version v = (case v of None \<Rightarrow> i64_max | Some w \<Rightarrow> as_i64 w)"

definition or_zero :: "u64 option \<Rightarrow> u64" where
  "or_zero v = (case v of None \<Rightarrow> 0 | Some w \<Rightarrow> w)"

definition read_range_impl :: "libs \<Rightarrow> db \<Rightarrow> read_query \<Rightarrow> stored_event list res" where
  "read_range_impl L d q =
     (let from0 = as_i64 (or_zero (q_from_version q));
          to0 = upper_version (q_to_version q);
          limit = (case q_limit q of None \<Rightarrow> i64_max | Some l \<Rightarrow> as_i64 l)
      in rows_to_events L
           (sql_limit limit
             (select_range d (q_stream_id q) (q_branch q) from0 to0 (q_event_type_filter q))))"

definition query_row :: "libs \<Rightarrow> event_row list \<Rightarrow> stored_event option res" where
  "query_row L rows =
     (case rows of [] \<Rightarrow> Inr None
      | r # _ \<Rightarrow> bind_res (row_to_event L r) (\<lambda>e. Inr (Some e)))"

definition read_one_impl :: "libs \<Rightarrow> db \<Rightarrow> event_id \<Rightarrow> stored_event option res" where
  "read_one_impl L d i = query_row L (filter (\<lambda>r. r_id r = i) (t_events d))"

text \<open>
  Rows with equal timestamps come in an order SQL leaves open; the model keeps table order. SQLite
  refuses to prepare a statement with more than 32,766 bound parameters.
\<close>

definition MAX_PARAMETERS :: nat where
  "MAX_PARAMETERS = 32766"

definition check_parameters :: "'a list \<Rightarrow> unit res" where
  "check_parameters xs =
     (if MAX_PARAMETERS < length xs then Inl (Sqlite TooManyParameters) else Inr ())"

definition read_batch_impl :: "libs \<Rightarrow> db \<Rightarrow> event_id list \<Rightarrow> stored_event list res" where
  "read_batch_impl L d ids =
     (if ids = [] then Inr []
      else bind_res (check_parameters ids) (\<lambda>_.
        rows_to_events L
          (sort_key r_timestamp_us (filter (\<lambda>r. r_id r \<in> set ids) (t_events d)))))"

definition read_by_external_id_impl ::
  "libs \<Rightarrow> db \<Rightarrow> string \<Rightarrow> string \<Rightarrow> stored_event option res" where
  "read_by_external_id_impl L d stream_id external_id =
     query_row L
       (filter (\<lambda>r. r_stream_id r = stream_id \<and> r_external_id r = Some external_id) (t_events d))"

text \<open>
  The loop of the bounded reads over the rows of a statement, with the events taken so far and
  their payload bytes. \<open>mk\<close> builds the resume point from the events taken and the first event
  that did not fit.
\<close>

definition exceeds_count :: "nat option \<Rightarrow> nat \<Rightarrow> bool" where
  "exceeds_count max_results n = (case max_results of None \<Rightarrow> False | Some m \<Rightarrow> m \<le> n)"

definition exceeds_bytes :: "nat option \<Rightarrow> bool \<Rightarrow> nat \<Rightarrow> bool" where
  "exceeds_bytes max_bytes any n =
     (case max_bytes of None \<Rightarrow> False | Some b \<Rightarrow> any \<and> b < n)"

fun bounded_scan ::
  "libs \<Rightarrow> (stored_event list \<Rightarrow> stored_event \<Rightarrow> cursor_inner) \<Rightarrow> nat option \<Rightarrow> nat option \<Rightarrow>
     stored_event list \<Rightarrow> nat \<Rightarrow> event_row list \<Rightarrow> stored_event list read_outcome res" where
  "bounded_scan L mk max_results max_bytes events byte_count [] = Inr (Complete events)"
| "bounded_scan L mk max_results max_bytes events byte_count (row # rows) =
     bind_res (row_to_event L row) (\<lambda>event.
       let event_bytes = length (ev_payload event);
           exceed_count = exceeds_count max_results (length events);
           exceed_bytes = exceeds_bytes max_bytes (events \<noteq> []) (byte_count + event_bytes)
       in if exceed_count \<or> exceed_bytes
          then bind_res (cursor_encode L (mk events event)) (\<lambda>cursor.
            Inr (Truncated events (Some cursor)
              (if exceed_count then ResultCount else ByteSize)))
          else bounded_scan L mk max_results max_bytes (events @ [event])
                 (byte_count + event_bytes) rows)"

definition range_cursor :: "read_query \<Rightarrow> stored_event list \<Rightarrow> stored_event \<Rightarrow> cursor_inner" where
  "range_cursor q events event = CRange (q_stream_id q) (q_branch q) (ev_version event)"

definition range_rows :: "db \<Rightarrow> read_query \<Rightarrow> u64 option \<Rightarrow> event_row list" where
  "range_rows d q resume_version =
     (let start = (case resume_version of Some v \<Rightarrow> v | None \<Rightarrow> or_zero (q_from_version q))
      in select_range d (q_stream_id q) (q_branch q) (as_i64 start)
           (upper_version (q_to_version q)) (q_event_type_filter q))"

definition read_range_bounded_impl ::
  "libs \<Rightarrow> db \<Rightarrow> read_query \<Rightarrow> u64 option \<Rightarrow> nat option \<Rightarrow> nat option \<Rightarrow>
     stored_event list read_outcome res" where
  "read_range_bounded_impl L d q resume_version max_results max_bytes =
     bounded_scan L (range_cursor q) max_results max_bytes [] 0 (range_rows d q resume_version)"

section \<open>Readable rows\<close>

definition rows_readable :: "libs \<Rightarrow> event_row list \<Rightarrow> bool" where
  "rows_readable L rs \<longleftrightarrow> (\<forall>r \<in> set rs. row_readable L r)"

definition event_of :: "libs \<Rightarrow> event_row \<Rightarrow> stored_event" where
  "event_of L r = projr (row_to_event L r)"

lemma row_to_event_readable [row_simps]: "row_readable L r \<Longrightarrow> row_to_event L r = Inr (event_of L r)"
  by (auto simp: row_readable_def event_of_def)

lemma rows_to_events_readable [row_simps]:
  "rows_readable L rs \<Longrightarrow> rows_to_events L rs = Inr (map (event_of L) rs)"
  unfolding rows_to_events_def
  by (rule collect_res_total) (auto simp: rows_readable_def row_simps)

lemma row_readable_tags:
  "row_readable L r \<longleftrightarrow> (case r_indexed_tags r of None \<Rightarrow> True | Some t \<Rightarrow> json_from_str L t \<noteq> None)"
  by (auto simp: row_readable_def row_to_event_def split: option.splits)

lemma event_of_simps [row_simps]:
  assumes "row_readable L r"
  shows "ev_id (event_of L r) = r_id r" "ev_stream_id (event_of L r) = r_stream_id r"
    "ev_branch (event_of L r) = r_branch r" "ev_version (event_of L r) = as_u64 (r_version r)"
    "ev_timestamp_us (event_of L r) = r_timestamp_us r" "ev_payload (event_of L r) = r_payload r"
    "ev_causation_id (event_of L r) = r_causation_id r"
    "ev_event_type (event_of L r) = r_event_type r"
  using assms
  by (auto simp: row_readable_def event_of_def row_to_event_def bind_res_Inr_iff)

text \<open>An appended row can be read back: its tags were printed from a JSON value.\<close>

lemma append_row_readable: "json_text_ok L \<Longrightarrow> row_readable L (append_row L a i v t pb)"
  by (auto simp: row_readable_tags append_row_def json_text_ok_def split: option.splits)

lemma set_select_range:
  "set (select_range d s b lo hi f) =
     {r \<in> set (t_events d). r_stream_id r = s \<and> r_branch r = b \<and> lo \<le> r_version r \<and>
        r_version r \<le> hi \<and> type_filter_ok f r}"
  by (auto simp: select_range_def)

lemma sorted_select_range: "sorted (map r_version (select_range d s b lo hi f))"
  by (simp add: select_range_def)

text \<open>Within one stream and branch the versions are distinct, so the order is strict.\<close>

lemma distinct_select_range:
  assumes "events_wf (t_events d)"
  shows "distinct (map r_version (select_range d s b lo hi f))"
proof -
  let ?P = "\<lambda>r. r_stream_id r = s \<and> r_branch r = b \<and> lo \<le> r_version r \<and>
    r_version r \<le> hi \<and> type_filter_ok f r"
  let ?xs = "filter ?P (t_events d)"
  have "distinct (map row_key ?xs)"
    using assms by (simp add: events_wf_def distinct_map_filter)
  moreover have "map row_key ?xs = map (\<lambda>v. (s, b, v)) (map r_version ?xs)"
    by (simp add: row_key_def)
  ultimately have "distinct (map (\<lambda>v. (s, b, v)) (map r_version ?xs))" by simp
  then have "distinct (map r_version ?xs)" by (simp only: distinct_map)
  then show ?thesis by (simp add: select_range_def distinct_map_sort_key)
qed

lemma strict_select_range:
  assumes "events_wf (t_events d)"
  shows "sorted_wrt (<) (map r_version (select_range d s b lo hi f))"
  using sorted_select_range distinct_select_range [OF assms]
  by (simp add: strict_sorted_iff)

end
