(* ===== verification/Paging.thy ===== *)
theory Paging
  imports Read Demo_Libs
begin

text \<open>
  What the bounded reads promise (\<open>read_range_bounded_impl\<close> in \<open>src/read.rs\<close>): a page is a
  prefix of the remaining rows, within budget, and its cursor resumes exactly after it. The
  locale \<open>paged_read\<close> states this contract for any paged query, and proves for the iterators of
  \<open>src/store.rs\<close> (\<open>fetch_batch\<close> and \<open>next\<close>) that they yield every remaining event once, in order,
  and then end.
\<close>

section \<open>One page\<close>

definition payload_bytes :: "event_row list \<Rightarrow> nat" where
  "payload_bytes rs = sum_list (map (\<lambda>r. length (r_payload r)) rs)"

lemma payload_bytes_simps [simp]:
  "payload_bytes [] = 0" "payload_bytes (r # rs) = length (r_payload r) + payload_bytes rs"
  by (simp_all add: payload_bytes_def)

definition within_budget :: "nat option \<Rightarrow> nat option \<Rightarrow> event_row list \<Rightarrow> bool" where
  "within_budget max_results max_bytes rs \<longleftrightarrow>
     (case max_results of None \<Rightarrow> True | Some m \<Rightarrow> length rs \<le> m) \<and>
     (case max_bytes of None \<Rightarrow> True | Some b \<Rightarrow> length rs \<le> 1 \<or> payload_bytes rs \<le> b)"

lemma rows_readable_simps [simp]:
  "rows_readable L []"
  "rows_readable L (r # rs) \<longleftrightarrow> row_readable L r \<and> rows_readable L rs"
  "rows_readable L (xs @ ys) \<longleftrightarrow> rows_readable L xs \<and> rows_readable L ys"
  by (auto simp: rows_readable_def)

definition scan_ends ::
  "libs \<Rightarrow> (stored_event list \<Rightarrow> stored_event \<Rightarrow> cursor_inner) \<Rightarrow> nat option \<Rightarrow> nat option \<Rightarrow>
     stored_event list \<Rightarrow> nat \<Rightarrow> event_row list \<Rightarrow> event_row list \<Rightarrow>
     stored_event list read_outcome res \<Rightarrow> bool" where
  "scan_ends L mk max_results max_bytes evs bc taken rest out \<longleftrightarrow>
     (case rest of
        [] \<Rightarrow> out = Inr (Complete (evs @ map (event_of L) taken))
      | r # _ \<Rightarrow> \<exists>c. cursor_encode L (mk (evs @ map (event_of L) taken) (event_of L r)) = Inr c \<and>
          out = Inr (Truncated (evs @ map (event_of L) taken) (Some c)
            (if exceeds_count max_results (length evs + length taken)
             then ResultCount else ByteSize)) \<and>
          (exceeds_count max_results (length evs + length taken) \<or>
           exceeds_bytes max_bytes (evs \<noteq> [] \<or> taken \<noteq> [])
             (bc + payload_bytes taken + length (r_payload r))))"

lemma scan_ends_Cons:
  "scan_ends L mk mr mb evs bc (r # taken) rest out \<longleftrightarrow>
     scan_ends L mk mr mb (evs @ [event_of L r]) (bc + length (r_payload r)) taken rest out"
  unfolding scan_ends_def by (cases rest) (simp_all add: add.assoc)

lemma bounded_scan_split:
  assumes "cursor_codec_ok L"
  shows "rows_readable L rows \<Longrightarrow> \<exists>taken rest. rows = taken @ rest \<and>
    (\<forall>m. max_results = Some m \<longrightarrow> taken \<noteq> [] \<longrightarrow> length evs + length taken \<le> m) \<and>
    (\<forall>b. max_bytes = Some b \<longrightarrow> taken \<noteq> [] \<longrightarrow>
       length evs + length taken \<le> 1 \<or> bc + payload_bytes taken \<le> b) \<and>
    scan_ends L mk max_results max_bytes evs bc taken rest
      (bounded_scan L mk max_results max_bytes evs bc rows)"
proof (induction rows arbitrary: evs bc)
  case Nil
  show ?case by (rule exI [of _ "[]"], rule exI [of _ "[]"]) (simp add: scan_ends_def)
next
  case (Cons r rows)
  then have r: "row_readable L r" and rows: "rows_readable L rows" by simp_all
  let ?stop = "exceeds_count max_results (length evs) \<or>
    exceeds_bytes max_bytes (evs \<noteq> []) (bc + length (r_payload r))"
  note ev = row_to_event_readable [OF r] event_of_simps(6) [OF r]
  show ?case
  proof (cases ?stop)
    case True
    obtain c where "cursor_encode L (mk evs (event_of L r)) = Inr c"
      using cursor_roundtrip [OF assms] by blast
    with True show ?thesis
      by (intro exI [of _ "[]"] exI [of _ "r # rows"]) (simp add: ev scan_ends_def)
  next
    case False
    let ?evs = "evs @ [event_of L r]" and ?bc = "bc + length (r_payload r)"
    have scan: "bounded_scan L mk max_results max_bytes evs bc (r # rows) =
        bounded_scan L mk max_results max_bytes ?evs ?bc rows"
      using False by (simp add: ev)
    from Cons.IH [OF rows, of ?evs ?bc] obtain taken rest where IH: "rows = taken @ rest"
      "\<forall>m. max_results = Some m \<longrightarrow> taken \<noteq> [] \<longrightarrow> length ?evs + length taken \<le> m"
      "\<forall>b. max_bytes = Some b \<longrightarrow> taken \<noteq> [] \<longrightarrow>
         length ?evs + length taken \<le> 1 \<or> ?bc + payload_bytes taken \<le> b"
      and out: "scan_ends L mk max_results max_bytes ?evs ?bc taken rest
        (bounded_scan L mk max_results max_bytes ?evs ?bc rows)" by blast
    have count: "\<forall>m. max_results = Some m \<longrightarrow> length evs + length (r # taken) \<le> m"
      using IH(2) False by (cases "taken = []") (auto simp: exceeds_count_def split: option.splits)
    have size: "\<forall>b. max_bytes = Some b \<longrightarrow>
        length evs + length (r # taken) \<le> 1 \<or> bc + payload_bytes (r # taken) \<le> b"
      using IH(3) False by (cases "taken = []") (auto simp: exceeds_bytes_def split: option.splits)
    show ?thesis
      unfolding scan
      by (rule exI [of _ "r # taken"], rule exI [of _ rest])
        (use IH(1) count size out in \<open>simp add: scan_ends_Cons\<close>)
  qed
qed

text \<open>The same for a page that starts from nothing.\<close>

definition page_outcome ::
  "libs \<Rightarrow> (stored_event list \<Rightarrow> stored_event \<Rightarrow> cursor_inner) \<Rightarrow> nat option \<Rightarrow>
     event_row list \<Rightarrow> event_row list \<Rightarrow> stored_event list read_outcome res \<Rightarrow> bool" where
  "page_outcome L mk max_results taken rest out \<longleftrightarrow>
     (case rest of
        [] \<Rightarrow> out = Inr (Complete (map (event_of L) taken))
      | r # _ \<Rightarrow> \<exists>c. cursor_encode L (mk (map (event_of L) taken) (event_of L r)) = Inr c \<and>
          out = Inr (Truncated (map (event_of L) taken) (Some c)
            (if exceeds_count max_results (length taken) then ResultCount else ByteSize)))"

lemma bounded_scan_page:
  assumes "cursor_codec_ok L" and "rows_readable L rows"
  obtains taken rest where "rows = taken @ rest"
    and "within_budget max_results max_bytes taken"
    and "rows \<noteq> [] \<Longrightarrow> max_results \<noteq> Some 0 \<Longrightarrow> taken \<noteq> []"
    and "page_outcome L mk max_results taken rest
           (bounded_scan L mk max_results max_bytes [] 0 rows)"
proof -
  from bounded_scan_split [OF assms, of max_results "[]" max_bytes 0 mk]
  obtain taken rest where *: "rows = taken @ rest"
    "\<forall>m. max_results = Some m \<longrightarrow> taken \<noteq> [] \<longrightarrow> length taken \<le> m"
    "\<forall>b. max_bytes = Some b \<longrightarrow> taken \<noteq> [] \<longrightarrow> length taken \<le> 1 \<or> payload_bytes taken \<le> b"
    and ends: "scan_ends L mk max_results max_bytes [] 0 taken rest
       (bounded_scan L mk max_results max_bytes [] 0 rows)"
    by auto
  then have out: "page_outcome L mk max_results taken rest
      (bounded_scan L mk max_results max_bytes [] 0 rows)"
    by (auto simp: scan_ends_def page_outcome_def split: list.splits)
  have "within_budget max_results max_bytes taken"
    using *(2,3) by (cases "taken = []") (auto simp: within_budget_def split: option.splits)
  moreover have "taken \<noteq> []" if "rows \<noteq> []" "max_results \<noteq> Some 0"
    using that *(1) ends
    by (cases rest) (auto simp: scan_ends_def exceeds_count_def exceeds_bytes_def split: option.splits)
  ultimately show ?thesis using that *(1) out by blast
qed

section \<open>Pages of a range\<close>

text \<open>
  What a database file satisfies that the code has written: keys are unique, tags can be read,
  and the numbers of versions and rows are in the range of \<open>i64\<close>, as SQLite stores them.
\<close>

definition log_wf :: "libs \<Rightarrow> db \<Rightarrow> bool" where
  "log_wf L d \<longleftrightarrow> events_wf (t_events d) \<and> rows_readable L (t_events d) \<and>
     (\<forall>r \<in> set (t_events d). r_version r < i64_max) \<and>
     int (length (t_events d)) \<le> i64_max"

lemma rows_readable_subset: "rows_readable L xs \<Longrightarrow> set ys \<subseteq> set xs \<Longrightarrow> rows_readable L ys"
  by (auto simp: rows_readable_def)

lemma select_range_subset: "set (select_range d s b lo hi f) \<subseteq> set (t_events d)"
  by (auto simp: set_select_range)

lemma log_wf_range:
  assumes "log_wf L d"
  shows "rows_readable L (select_range d s b lo hi f)"
    and "sorted_wrt (<) (map r_version (select_range d s b lo hi f))"
    and "r \<in> set (select_range d s b lo hi f) \<Longrightarrow> 0 \<le> r_version r \<and> r_version r < i64_max"
proof -
  show "rows_readable L (select_range d s b lo hi f)"
    using assms rows_readable_subset [OF _ select_range_subset] by (simp add: log_wf_def)
  show "sorted_wrt (<) (map r_version (select_range d s b lo hi f))"
    using assms by (intro strict_select_range) (simp add: log_wf_def)
  show "0 \<le> r_version r \<and> r_version r < i64_max" if "r \<in> set (select_range d s b lo hi f)"
    using that assms by (auto simp: log_wf_def events_wf_def set_select_range)
qed

lemma no_limit:
  assumes "log_wf L d"
  shows "sql_limit i64_max (select_range d s b lo hi f) = select_range d s b lo hi f"
proof -
  have "int (length (select_range d s b lo hi f)) \<le> i64_max"
    using assms unfolding log_wf_def select_range_def length_sort
    by (meson length_filter_le of_nat_le_iff order_trans)
  then show ?thesis by (simp add: sql_limit_def i64_max_def)
qed

lemma filter_ge_suffix:
  assumes "sorted_wrt (<) (map f (xs @ y # ys))"
  shows "filter (\<lambda>x. f y \<le> (f x :: int)) (xs @ y # ys) = y # ys"
  using assms by (auto simp: sorted_wrt_append filter_empty_conv less_imp_le)

lemma range_rows_resume:
  assumes wf: "log_wf L d" and split: "range_rows d q v = taken @ r # rest"
  shows "range_rows d q (Some (as_u64 (r_version r))) = r # rest"
proof -
  define lo where "lo = as_i64 (case v of Some v \<Rightarrow> v | None \<Rightarrow> or_zero (q_from_version q))"
  let ?sel = "\<lambda>lo. select_range d (q_stream_id q) (q_branch q) lo
    (upper_version (q_to_version q)) (q_event_type_filter q)"
  have rows: "?sel lo = taken @ r # rest"
    using split by (simp add: range_rows_def lo_def)
  then have r: "r \<in> set (?sel lo)" by simp
  then have "as_i64 (as_u64 (r_version r)) = r_version r"
    using log_wf_range(3) [OF wf] by (force intro: as_i64_as_u64)
  then have "range_rows d q (Some (as_u64 (r_version r))) = ?sel (r_version r)"
    by (simp add: range_rows_def)
  also have "\<dots> = filter (\<lambda>x. r_version r \<le> r_version x) (?sel lo)"
    using r by (auto simp: select_range_def filter_sort intro!: arg_cong [where f = "sort_key r_version"]
        filter_cong)
  also have "\<dots> = r # rest"
    unfolding rows
    by (rule filter_ge_suffix) (use log_wf_range(2) [OF wf] rows in metis)
  finally show ?thesis .
qed

text \<open>The resume point of a range read, as \<open>Store::read_range_bounded\<close> decodes it.\<close>

definition range_resume :: "libs \<Rightarrow> truncation_cursor option \<Rightarrow> u64 option res" where
  "range_resume L resume =
     (case resume of
        None \<Rightarrow> Inr None
      | Some cursor \<Rightarrow>
          bind_res (cursor_decode L cursor) (\<lambda>inner.
            case inner of
              CRange _ _ from_next \<Rightarrow> Inr (Some from_next)
            | _ \<Rightarrow> Inl (Internal ''cursor type mismatch: expected Range'')))"

definition fetch_range ::
  "libs \<Rightarrow> db \<Rightarrow> read_query \<Rightarrow> nat option \<Rightarrow> nat option \<Rightarrow> truncation_cursor option \<Rightarrow>
     stored_event list read_outcome res" where
  "fetch_range L d q max_results max_bytes resume =
     bind_res (range_resume L resume) (\<lambda>v.
       read_range_bounded_impl L d q v max_results max_bytes)"

lemma range_page:
  assumes "cursor_codec_ok L" and wf: "log_wf L d"
  obtains taken rest where "range_rows d q v = taken @ rest"
    and "within_budget max_results max_bytes taken"
    and "range_rows d q v \<noteq> [] \<Longrightarrow> max_results \<noteq> Some 0 \<Longrightarrow> taken \<noteq> []"
    and "rest = [] \<Longrightarrow> read_range_bounded_impl L d q v max_results max_bytes =
           Inr (Complete (map (event_of L) taken))"
    and "rest \<noteq> [] \<Longrightarrow> \<exists>c w. read_range_bounded_impl L d q v max_results max_bytes =
             Inr (Truncated (map (event_of L) taken) (Some c)
               (if exceeds_count max_results (length taken) then ResultCount else ByteSize)) \<and>
           range_resume L (Some c) = Inr (Some w) \<and> range_rows d q (Some w) = rest"
proof -
  have readable: "rows_readable L (range_rows d q v)"
    unfolding range_rows_def Let_def by (rule log_wf_range(1) [OF wf])
  from bounded_scan_page [OF assms(1) readable, of max_results max_bytes "range_cursor q"]
  obtain taken rest where split: "range_rows d q v = taken @ rest"
    and budget: "within_budget max_results max_bytes taken"
    and any: "range_rows d q v \<noteq> [] \<Longrightarrow> max_results \<noteq> Some 0 \<Longrightarrow> taken \<noteq> []"
    and out: "page_outcome L (range_cursor q) max_results taken rest
      (read_range_bounded_impl L d q v max_results max_bytes)"
    unfolding read_range_bounded_impl_def by blast
  have more: "\<exists>c w. read_range_bounded_impl L d q v max_results max_bytes =
        Inr (Truncated (map (event_of L) taken) (Some c)
          (if exceeds_count max_results (length taken) then ResultCount else ByteSize)) \<and>
      range_resume L (Some c) = Inr (Some w) \<and> range_rows d q (Some w) = rest" if "rest \<noteq> []"
  proof -
    obtain r rs where rest: "rest = r # rs"
      using \<open>rest \<noteq> []\<close> by (meson neq_Nil_conv)
    with split readable have r: "row_readable L r" by simp
    from out rest obtain c where
      c: "cursor_encode L (CRange (q_stream_id q) (q_branch q) (as_u64 (r_version r))) = Inr c"
      and "read_range_bounded_impl L d q v max_results max_bytes =
        Inr (Truncated (map (event_of L) taken) (Some c)
          (if exceeds_count max_results (length taken) then ResultCount else ByteSize))"
      by (auto simp: page_outcome_def range_cursor_def event_of_simps [OF r])
    moreover have "cursor_decode L c = Inr (CRange (q_stream_id q) (q_branch q) (as_u64 (r_version r)))"
      using cursor_roundtrip [OF assms(1)] c by (metis sum.inject(2))
    ultimately show ?thesis
      using range_rows_resume [OF wf split [unfolded rest]] rest
      by (auto simp: range_resume_def)
  qed
  have "rest = [] \<Longrightarrow> read_range_bounded_impl L d q v max_results max_bytes =
      Inr (Complete (map (event_of L) taken))"
    using out by (simp add: page_outcome_def)
  from that [OF split budget any this more] show ?thesis by blast
qed

section \<open>Iterators over pages\<close>

text \<open>
  The state the three iterators of \<open>src/store.rs\<close> share, with \<open>fetch\<close> for the bounded read they
  call. \<open>resume\<close> is taken out of the state before the call, so an error leaves it empty.
\<close>

record iter =
  it_resume :: "truncation_cursor option"
  it_buffer :: "stored_event list"
  it_exhausted :: bool

type_synonym fetcher = "truncation_cursor option \<Rightarrow> stored_event list read_outcome res"

definition iter_start :: iter where
  "iter_start = \<lparr>it_resume = None, it_buffer = [], it_exhausted = False\<rparr>"

definition fetch_batch :: "fetcher \<Rightarrow> iter \<Rightarrow> iter res" where
  "fetch_batch fetch it =
     bind_res (fetch (it_resume it)) (\<lambda>outcome. Inr
       (case outcome of
          Complete events \<Rightarrow>
            \<lparr>it_resume = None, it_buffer = it_buffer it @ events, it_exhausted = True\<rparr>
        | Truncated data cursor _ \<Rightarrow>
            \<lparr>it_resume = cursor, it_buffer = it_buffer it @ data,
             it_exhausted = it_exhausted it\<rparr>))"

definition pop_front :: "iter \<Rightarrow> stored_event res option \<times> iter" where
  "pop_front it =
     (case it_buffer it of
        [] \<Rightarrow> (None, it)
      | e # es \<Rightarrow> (Some (Inr e), it\<lparr>it_buffer := es\<rparr>))"

definition iter_next :: "fetcher \<Rightarrow> iter \<Rightarrow> stored_event res option \<times> iter" where
  "iter_next fetch it =
     (if it_exhausted it \<and> it_buffer it = [] then (None, it)
      else if it_buffer it = [] then
        (case fetch_batch fetch it of
           Inl e \<Rightarrow> (Some (Inl e), it\<lparr>it_resume := None, it_exhausted := True\<rparr>)
         | Inr it' \<Rightarrow>
             if it_buffer it' = [] then (None, it'\<lparr>it_exhausted := True\<rparr>) else pop_front it')
      else pop_front it)"

text \<open>A \<open>for\<close> loop over the iterator, bounded by fuel: \<open>None\<close> when the fuel runs out first.\<close>

fun iter_collect :: "fetcher \<Rightarrow> nat \<Rightarrow> iter \<Rightarrow> stored_event res list option" where
  "iter_collect fetch 0 it = None"
| "iter_collect fetch (Suc n) it =
     (case iter_next fetch it of
        (None, _) \<Rightarrow> Some []
      | (Some x, it') \<Rightarrow> map_option ((#) x) (iter_collect fetch n it'))"

locale paged_read =
  fixes fetch :: fetcher
    and remaining :: "truncation_cursor option \<Rightarrow> stored_event list"
    and valid :: "truncation_cursor option \<Rightarrow> bool"
  assumes page: "valid c \<Longrightarrow> fetch c = Inr (Complete (remaining c)) \<or>
    (\<exists>es c' r. fetch c = Inr (Truncated es (Some c') r) \<and> es \<noteq> [] \<and>
       remaining c = es @ remaining (Some c') \<and> valid (Some c'))"
begin

definition left :: "iter \<Rightarrow> stored_event list" where
  "left it = it_buffer it @ (if it_exhausted it then [] else remaining (it_resume it))"

definition inv :: "iter \<Rightarrow> bool" where
  "inv it \<longleftrightarrow> it_exhausted it \<or> valid (it_resume it)"

lemma next_nonempty:
  assumes "inv it" and "left it = e # es"
  obtains it' where "iter_next fetch it = (Some (Inr e), it')" and "inv it'" and "left it' = es"
proof (cases "it_buffer it")
  case (Cons x xs)
  then have "iter_next fetch it = (Some (Inr e), it\<lparr>it_buffer := xs\<rparr>)"
    "left (it\<lparr>it_buffer := xs\<rparr>) = es"
    using assms(2) by (auto simp: iter_next_def pop_front_def left_def)
  then show ?thesis using that assms(1) by (simp add: inv_def)
next
  case Nil
  then have live: "\<not> it_exhausted it" and valid: "valid (it_resume it)"
    and rem: "remaining (it_resume it) = e # es"
    using assms by (auto simp: left_def inv_def split: if_splits)
  from page [OF valid] show ?thesis
  proof (elim disjE exE conjE)
    assume "fetch (it_resume it) = Inr (Complete (remaining (it_resume it)))"
    then have "iter_next fetch it =
        (Some (Inr e), \<lparr>it_resume = None, it_buffer = es, it_exhausted = True\<rparr>)"
      using Nil live rem by (simp add: iter_next_def fetch_batch_def pop_front_def)
    then show ?thesis using that by (simp add: inv_def left_def)
  next
    fix ps c' r
    assume f: "fetch (it_resume it) = Inr (Truncated ps (Some c') r)" and ps: "ps \<noteq> []"
      and rem': "remaining (it_resume it) = ps @ remaining (Some c')" and "valid (Some c')"
    from ps rem rem' obtain qs where qs: "ps = e # qs" "es = qs @ remaining (Some c')"
      by (cases ps) auto
    have "iter_next fetch it =
        (Some (Inr e), \<lparr>it_resume = Some c', it_buffer = qs, it_exhausted = False\<rparr>)"
      using f Nil live qs by (simp add: iter_next_def fetch_batch_def pop_front_def)
    then show ?thesis using that qs \<open>valid (Some c')\<close> by (simp add: inv_def left_def)
  qed
qed

lemma next_empty:
  assumes "inv it" and "left it = []"
  shows "fst (iter_next fetch it) = None"
proof -
  from assms(2) have "it_buffer it = []" by (simp add: left_def)
  moreover have "fetch (it_resume it) = Inr (Complete [])" if "\<not> it_exhausted it"
    using page [of "it_resume it"] assms that by (auto simp: inv_def left_def)
  ultimately show ?thesis by (auto simp: iter_next_def fetch_batch_def)
qed

lemma collect_left:
  "inv it \<Longrightarrow> length (left it) < n \<Longrightarrow> iter_collect fetch n it = Some (map Inr (left it))"
proof (induction n arbitrary: it)
  case (Suc n)
  show ?case
  proof (cases "left it")
    case Nil
    from next_empty [OF Suc.prems(1) this] Nil show ?thesis
      by (auto split: prod.splits)
  next
    case (Cons e es)
    from next_nonempty [OF Suc.prems(1) this] obtain it' where
      "iter_next fetch it = (Some (Inr e), it')" "inv it'" "left it' = es" .
    with Suc.IH [of it'] Suc.prems(2) Cons show ?thesis by simp
  qed
qed simp

lemma collect_all:
  assumes "valid None" and "length (remaining None) < n"
  shows "iter_collect fetch n iter_start = Some (map Inr (remaining None))"
  using collect_left [of iter_start n] assms by (simp add: inv_def left_def iter_start_def)

end

section \<open>The range read as a paged query\<close>

definition range_remaining ::
  "libs \<Rightarrow> db \<Rightarrow> read_query \<Rightarrow> truncation_cursor option \<Rightarrow> stored_event list" where
  "range_remaining L d q c =
     (case range_resume L c of
        Inl _ \<Rightarrow> []
      | Inr v \<Rightarrow> map (event_of L) (range_rows d q v))"

definition range_valid ::
  "libs \<Rightarrow> db \<Rightarrow> nat option \<Rightarrow> truncation_cursor option \<Rightarrow> bool" where
  "range_valid L d max_results c \<longleftrightarrow> cursor_codec_ok L \<and> log_wf L d \<and> max_results \<noteq> Some 0 \<and>
     (\<exists>v. range_resume L c = Inr v)"

interpretation rp: paged_read "fetch_range L d q max_results max_bytes" "range_remaining L d q"
    "range_valid L d max_results" for L d q max_results max_bytes
proof
  fix c
  assume v: "range_valid L d max_results c"
  then have ok: "cursor_codec_ok L" "log_wf L d" "max_results \<noteq> Some 0"
    by (simp_all add: range_valid_def)
  from v obtain v where c: "range_resume L c = Inr v" by (auto simp: range_valid_def)
  then have fetch: "fetch_range L d q max_results max_bytes c =
      read_range_bounded_impl L d q v max_results max_bytes"
    and rem: "range_remaining L d q c = map (event_of L) (range_rows d q v)"
    by (simp_all add: fetch_range_def range_remaining_def)
  obtain taken rest where split: "range_rows d q v = taken @ rest"
    and any: "range_rows d q v \<noteq> [] \<Longrightarrow> taken \<noteq> []"
    and fin: "rest = [] \<Longrightarrow> read_range_bounded_impl L d q v max_results max_bytes =
           Inr (Complete (map (event_of L) taken))"
    and more: "rest \<noteq> [] \<Longrightarrow> \<exists>c w. read_range_bounded_impl L d q v max_results max_bytes =
             Inr (Truncated (map (event_of L) taken) (Some c)
               (if exceeds_count max_results (length taken) then ResultCount else ByteSize)) \<and>
           range_resume L (Some c) = Inr (Some w) \<and> range_rows d q (Some w) = rest"
    by (rule range_page [OF ok(1,2), of q v max_results max_bytes]) (use ok(3) that in metis)
  show "fetch_range L d q max_results max_bytes c = Inr (Complete (range_remaining L d q c)) \<or>
    (\<exists>es c' r. fetch_range L d q max_results max_bytes c = Inr (Truncated es (Some c') r) \<and>
       es \<noteq> [] \<and> range_remaining L d q c = es @ range_remaining L d q (Some c') \<and>
       range_valid L d max_results (Some c'))"
  proof (cases "rest = []")
    case True
    then show ?thesis using fin split unfolding fetch rem by simp
  next
    case False
    from more [OF this] obtain c' w where
      "read_range_bounded_impl L d q v max_results max_bytes =
         Inr (Truncated (map (event_of L) taken) (Some c')
           (if exceeds_count max_results (length taken) then ResultCount else ByteSize))"
      "range_resume L (Some c') = Inr (Some w)" "range_rows d q (Some w) = rest" by blast
    moreover have "map (event_of L) taken \<noteq> []" using any split False by simp
    ultimately show ?thesis
      unfolding fetch rem using split ok by (fastforce simp: range_remaining_def range_valid_def)
  qed
qed

text \<open>A file with two events, for the witnesses.\<close>

definition demo_row :: "i64 \<Rightarrow> event_row" where
  "demo_row v =
     \<lparr>r_id = EventId [word_of_int v], r_stream_id = ''a/b'', r_branch = ''main'', r_version = v,
      r_timestamp_us = v, r_causation_id = None, r_correlation_id = None,
      r_event_type = ''Ping'', r_type_version = 1, r_payload = [7, 7], r_external_id = None,
      r_indexed_tags = None\<rparr>"

definition demo_log :: db where
  "demo_log = demo_db\<lparr>t_events := [demo_row 0, demo_row 1]\<rparr>"

lemma demo_log_wf: "log_wf demo_libs demo_log"
  by (simp add: log_wf_def demo_log_def events_wf_def demo_row_def row_key_def rows_readable_def
      row_readable_tags i64_max_def)

lemma demo_log_length: "length (t_events demo_log) = 2"
  by (simp add: demo_log_def)

lemma demo_range_rows: "range_rows demo_log (read_query_stream ''a/b'') None = [demo_row 0, demo_row 1]"
  by (simp add: range_rows_def select_range_def demo_log_def demo_row_def read_query_stream_def
      or_zero_def as_i64_def upper_version_def type_filter_ok_def i64_max_def)

section \<open>Properties of range reads\<close>

text \<open>
  C23. A range read returns, in strictly ascending version order, the events of the stream and
  branch whose version is in the requested range and whose type passes the filter, all of them
  when there is no limit and the first ones up to the limit otherwise.
\<close>

theorem read_range_impl_spec:
  assumes "log_wf L d"
  shows "\<exists>full. set full = {r \<in> set (t_events d). r_stream_id r = q_stream_id q \<and>
        r_branch r = q_branch q \<and> as_i64 (or_zero (q_from_version q)) \<le> r_version r \<and>
        r_version r \<le> upper_version (q_to_version q) \<and>
        type_filter_ok (q_event_type_filter q) r} \<and>
      sorted_wrt (<) (map r_version full) \<and>
      read_range_impl L d q = Inr (map (event_of L)
        (case q_limit q of None \<Rightarrow> full | Some l \<Rightarrow> sql_limit (as_i64 l) full))"
proof -
  let ?full = "select_range d (q_stream_id q) (q_branch q) (as_i64 (or_zero (q_from_version q)))
    (upper_version (q_to_version q)) (q_event_type_filter q)"
  have all: "sql_limit i64_max ?full = ?full" by (rule no_limit [OF assms])
  have "set (sql_limit l ?full) \<subseteq> set ?full" for l
    by (auto simp: sql_limit_def dest: in_set_takeD)
  then have ok: "rows_readable L (sql_limit l ?full)" for l
    using log_wf_range(1) [OF assms] rows_readable_subset by blast
  have "read_range_impl L d q = Inr (map (event_of L)
      (case q_limit q of None \<Rightarrow> ?full | Some l \<Rightarrow> sql_limit (as_i64 l) ?full))"
    unfolding read_range_impl_def Let_def rows_to_events_readable [OF ok]
    by (simp add: all split: option.splits)
  then show ?thesis
    using log_wf_range(2) [OF assms] by (intro exI [of _ ?full]) (simp add: set_select_range)
qed

theorem read_range_impl_spec_witness:
  "\<exists>es. read_range_impl demo_libs demo_log ((read_query_stream ''a/b'')\<lparr>q_limit := Some 1\<rparr>) = Inr es"
  using read_range_impl_spec [OF demo_log_wf, of "(read_query_stream ''a/b'')\<lparr>q_limit := Some 1\<rparr>"]
  by auto

text \<open>
  C22. One page of a bounded range read is a prefix of the remaining rows that keeps to the budget
  in events and in payload bytes (one event may exceed the bytes), is not empty unless the budget
  is zero events or nothing remains, and when it is cut, its cursor resumes a read of exactly the
  rows after it.
\<close>

theorem read_range_bounded_page:
  assumes "cursor_codec_ok L" and "log_wf L d"
  shows "\<exists>taken rest. range_rows d q v = taken @ rest \<and>
    within_budget max_results max_bytes taken \<and>
    (taken = [] \<longrightarrow> max_results = Some 0 \<or> range_rows d q v = []) \<and>
    (if rest = []
     then read_range_bounded_impl L d q v max_results max_bytes =
            Inr (Complete (map (event_of L) taken))
     else \<exists>c w. read_range_bounded_impl L d q v max_results max_bytes =
            Inr (Truncated (map (event_of L) taken) (Some c)
              (if exceeds_count max_results (length taken) then ResultCount else ByteSize)) \<and>
          range_resume L (Some c) = Inr (Some w) \<and> range_rows d q (Some w) = rest)"
  by (rule range_page [OF assms, of q v max_results max_bytes]) metis

theorem read_range_bounded_page_witness:
  "\<exists>taken rest. [demo_row 0, demo_row 1] = taken @ rest \<and> within_budget (Some 1) None taken"
  using read_range_bounded_page [OF demo_cursor_codec_ok demo_log_wf,
      of "read_query_stream ''a/b''" None "Some 1" None]
  unfolding demo_range_rows by blast

text \<open>
  A loop over the range iterator ends and yields, without an error, exactly the events of the
  unlimited range read, in order, for every page size but zero. The limit of the query plays no
  part in it.
\<close>

theorem range_iterator_complete:
  assumes "cursor_codec_ok L" and "log_wf L d"
    and "max_results \<noteq> Some 0" and "length (t_events d) < n"
  shows "\<exists>es. read_range_impl L d (q\<lparr>q_limit := None\<rparr>) = Inr es \<and>
    iter_collect (fetch_range L d q max_results max_bytes) n iter_start = Some (map Inr es)"
proof -
  have "read_range_impl L d (q\<lparr>q_limit := None\<rparr>) = Inr (map (event_of L) (range_rows d q None))"
    unfolding read_range_impl_def range_rows_def Let_def
    by (simp add: rows_to_events_readable [OF log_wf_range(1) [OF assms(2)]] no_limit [OF assms(2)])
  moreover have "length (range_rows d q None) < n"
    using assms(4) unfolding range_rows_def Let_def select_range_def
    by (simp add: le_less_trans [OF length_filter_le])
  then have "iter_collect (fetch_range L d q max_results max_bytes) n iter_start =
      Some (map Inr (range_remaining L d q None))"
    using assms by (intro rp.collect_all) (simp_all add: range_valid_def range_resume_def
        range_remaining_def)
  ultimately show ?thesis by (simp add: range_remaining_def range_resume_def)
qed

theorem range_iterator_complete_witness:
  "\<exists>es. iter_collect (fetch_range demo_libs demo_log (read_query_stream ''a/b'') (Some 1) None) 3
     iter_start = Some (map Inr es)"
  using range_iterator_complete [OF demo_cursor_codec_ok demo_log_wf, of "Some 1" 3
      "read_query_stream ''a/b''" None]
  by (auto simp: demo_log_length)

text \<open>
  With a budget of zero events a bounded read of a range that has events returns no event,
  and a cursor at which the same rows remain: paging with it makes no progress.
\<close>

theorem read_range_bounded_zero:
  assumes "cursor_codec_ok L" and "log_wf L d" and "range_rows d q v \<noteq> []"
  shows "\<exists>c w. read_range_bounded_impl L d q v (Some 0) max_bytes =
      Inr (Truncated [] (Some c) ResultCount) \<and>
    range_resume L (Some c) = Inr (Some w) \<and> range_rows d q (Some w) = range_rows d q v"
proof -
  obtain taken rest where split: "range_rows d q v = taken @ rest"
    and budget: "within_budget (Some 0) max_bytes taken"
    and more: "rest \<noteq> [] \<Longrightarrow> \<exists>c w. read_range_bounded_impl L d q v (Some 0) max_bytes =
             Inr (Truncated (map (event_of L) taken) (Some c)
               (if exceeds_count (Some 0) (length taken) then ResultCount else ByteSize)) \<and>
           range_resume L (Some c) = Inr (Some w) \<and> range_rows d q (Some w) = rest"
    by (rule range_page [OF assms(1,2), of q v "Some 0" max_bytes]) (use that in metis)
  have "taken = []" using budget by (simp add: within_budget_def)
  with more split assms(3) show ?thesis by (simp add: exceeds_count_def)
qed

theorem read_range_bounded_zero_witness:
  "\<exists>c w. read_range_bounded_impl demo_libs demo_log (read_query_stream ''a/b'') None (Some 0) None =
      Inr (Truncated [] (Some c) ResultCount) \<and>
    range_rows demo_log (read_query_stream ''a/b'') (Some w) = [demo_row 0, demo_row 1]"
  using read_range_bounded_zero [OF demo_cursor_codec_ok demo_log_wf,
      of "read_query_stream ''a/b''" None None]
  unfolding demo_range_rows by blast

end
