(* ===== verification/Glob.thy ===== *)
theory Glob
  imports Fossic_Types
begin

text \<open>
  Glob patterns over stream paths (\<open>src/glob.rs\<close>): the matcher, the specificity score, pattern
  validation, and the equivalence of the matcher with a declarative reading of the wildcards.
\<close>

fun match_parts :: "string list \<Rightarrow> string list \<Rightarrow> bool" where
  "match_parts [] s = (s = [])"
| "match_parts (q # p) s =
     (if q = ''**'' then list_ex (\<lambda>i. match_parts p (drop i s)) [0..<Suc (length s)]
      else case s of [] \<Rightarrow> False | t # ts \<Rightarrow> (q = ''*'' \<or> q = t) \<and> match_parts p ts)"

definition glob_matches :: "string \<Rightarrow> string \<Rightarrow> bool" where
  "glob_matches pattern stream_id =
     match_parts (split_on (CHR ''/'') pattern) (split_on (CHR ''/'') stream_id)"

definition specificity_score :: "string \<Rightarrow> nat" where
  "specificity_score pattern =
     length (takeWhile (\<lambda>s. s \<noteq> ''*'' \<and> s \<noteq> ''**'') (split_on (CHR ''/'') pattern))"

fun validate_pattern_chars :: "libs \<Rightarrow> string \<Rightarrow> nat list \<Rightarrow> unit res" where
  "validate_pattern_chars L pattern [] = Inr ()"
| "validate_pattern_chars L pattern (ch # chs) =
     (if is_whitespace L ch then Inl (InvalidStreamId pattern ContainsWhitespace)
      else if ch = 34 \<or> ch = 39 then Inl (InvalidStreamId pattern ContainsQuote)
      else validate_pattern_chars L pattern chs)"

definition validate_pattern :: "libs \<Rightarrow> string \<Rightarrow> unit res" where
  "validate_pattern L pattern =
     (if pattern = [] then Inl (InvalidStreamId pattern MustNotBeEmpty)
      else if hd pattern = CHR ''/'' \<or> last pattern = CHR ''/''
      then Inl (InvalidStreamId pattern EdgeSlash)
      else validate_pattern_chars L pattern (utf8_chars pattern))"

section \<open>The declarative reading\<close>

text \<open>
  \<open>*\<close> stands for exactly one segment, \<open>**\<close> for any number of segments, and any other segment
  for itself.
\<close>

inductive glob_rel :: "string list \<Rightarrow> string list \<Rightarrow> bool" where
  glob_nil: "glob_rel [] []"
| glob_star: "glob_rel p s \<Longrightarrow> glob_rel (''*'' # p) (t # s)"
| glob_literal: "q \<noteq> ''**'' \<Longrightarrow> glob_rel p s \<Longrightarrow> glob_rel (q # p) (q # s)"
| glob_dstar: "glob_rel p s \<Longrightarrow> glob_rel (''**'' # p) (ts @ s)"

inductive_cases glob_nilE: "glob_rel [] s"
inductive_cases glob_consE: "glob_rel (q # p) s"

lemma match_parts_dstar:
  "match_parts (''**'' # p) s \<longleftrightarrow> (\<exists>i \<le> length s. match_parts p (drop i s))"
  by (auto simp: list_ex_iff less_Suc_eq_le simp del: upt_Suc)

lemma match_parts_glob_rel: "match_parts p s \<Longrightarrow> glob_rel p s"
proof (induction p s rule: match_parts.induct)
  case (1 s)
  then show ?case by (simp add: glob_nil)
next
  case (2 q p s)
  show ?case
  proof (cases "q = ''**''")
    case True
    with "2.prems" obtain i where "i \<le> length s" "match_parts p (drop i s)"
      by (auto simp only: match_parts_dstar)
    with "2.IH"(1) [OF True, of i] have "glob_rel p (drop i s)" by (simp del: upt_Suc)
    from glob_dstar [OF this, of "take i s"] True show ?thesis by simp
  next
    case False
    with "2.prems" obtain t ts where "s = t # ts" "q = ''*'' \<or> q = t" "match_parts p ts"
      by (auto split: list.splits)
    with "2.IH"(2) [OF False] False show ?thesis
      by (auto intro: glob_star glob_literal)
  qed
qed

lemma glob_rel_match_parts: "glob_rel p s \<Longrightarrow> match_parts p s"
proof (induction rule: glob_rel.induct)
  case (glob_dstar p s ts)
  then have "match_parts p (drop (length ts) (ts @ s))" by simp
  then show ?case unfolding match_parts_dstar
    by (intro exI [of _ "length ts"]) simp
qed auto

text \<open>
  C24. A stream matches a glob pattern exactly when its path can be read off the pattern segment
  by segment, \<open>*\<close> standing for one arbitrary segment and \<open>**\<close> for any run of segments, the
  empty run included.
\<close>

theorem glob_matches_spec:
  "glob_matches pattern stream_id \<longleftrightarrow>
     glob_rel (split_on (CHR ''/'') pattern) (split_on (CHR ''/'') stream_id)"
  unfolding glob_matches_def using match_parts_glob_rel glob_rel_match_parts by blast

lemma match_parts_literal:
  "\<forall>q \<in> set p. q \<noteq> ''*'' \<and> q \<noteq> ''**'' \<Longrightarrow> match_parts p s \<longleftrightarrow> p = s"
  by (induction p s rule: match_parts.induct) (auto split: list.splits)

text \<open>A pattern without wildcard segments matches its own path only.\<close>

lemma glob_matches_literal:
  assumes "CHR ''*'' \<notin> set pattern"
  shows "glob_matches pattern stream_id \<longleftrightarrow> stream_id = pattern"
proof -
  have "q \<noteq> ''*'' \<and> q \<noteq> ''**''" if "q \<in> set (split_on (CHR ''/'') pattern)" for q
    using split_on_chars [OF that] assms by auto
  then show ?thesis
    by (auto simp: glob_matches_def match_parts_literal split_on_inj)
qed

lemma glob_matches_all: "glob_matches ''**'' s"
proof -
  have "match_parts [''**''] t" for t :: "string list"
    unfolding match_parts_dstar by (intro exI [of _ "length t"]) simp
  moreover have "split_on (CHR ''/'') ''**'' = [''**'']" by simp
  ultimately show ?thesis by (simp only: glob_matches_def)
qed

end
