(* ===== verification/Payloads.thy ===== *)
theory Payloads
  imports Glob Database
begin

text \<open>
  Functions on payload bytes: the transforms applied before an event is stored
  (\<open>src/transforms.rs\<close>, \<open>prepare_payload\<close> in \<open>src/store.rs\<close>) and the upcasters applied when it
  is read (\<open>src/upcasters.rs\<close>). The transforms and upcasters themselves are code of the caller,
  so they are fields of the entries. The loop over the upcaster chain has no bound, so it is a
  partial function.
\<close>

section \<open>Payload transforms\<close>

record transform_entry =
  te_pattern :: string
  te_transform :: "string \<Rightarrow> bytes \<Rightarrow> bytes res"

fun apply_transforms ::
  "transform_entry list \<Rightarrow> string \<Rightarrow> string \<Rightarrow> bytes \<Rightarrow> bytes res" where
  "apply_transforms [] stream_id event_type payload_bytes = Inr payload_bytes"
| "apply_transforms (entry # entries) stream_id event_type payload_bytes =
     (if glob_matches (te_pattern entry) stream_id
      then bind_res (te_transform entry event_type payload_bytes) (\<lambda>bs.
             apply_transforms entries stream_id event_type bs)
      else apply_transforms entries stream_id event_type payload_bytes)"

definition register_transform ::
  "string \<Rightarrow> (string \<Rightarrow> bytes \<Rightarrow> bytes res) \<Rightarrow> transform_entry list \<Rightarrow> transform_entry list" where
  "register_transform pattern f entries = entries @ [\<lparr>te_pattern = pattern, te_transform = f\<rparr>]"

definition prepare_payload ::
  "libs \<Rightarrow> transform_entry list \<Rightarrow> string \<Rightarrow> string \<Rightarrow> json \<Rightarrow> (json \<times> bytes) res" where
  "prepare_payload L transforms stream_id event_type payload =
     bind_res (map_err MsgpackEncode (mp_to_vec L payload)) (\<lambda>raw_bytes.
     bind_res (apply_transforms transforms stream_id event_type raw_bytes) (\<lambda>final_bytes.
     bind_res (map_err MsgpackDecode (mp_from_slice L final_bytes)) (\<lambda>final_value.
       Inr (final_value, final_bytes))))"

lemma apply_transforms_append:
  "apply_transforms (xs @ ys) s t p =
     bind_res (apply_transforms xs s t p) (\<lambda>p'. apply_transforms ys s t p')"
  by (induction xs arbitrary: p) (auto simp: bind_res_def split: sum.splits)

lemma apply_transforms_matching:
  "apply_transforms xs s t p =
     apply_transforms (filter (\<lambda>e. glob_matches (te_pattern e) s) xs) s t p"
  by (induction xs arbitrary: p) (auto intro: bind_res_cong)

lemma apply_transforms_none:
  "\<forall>e \<in> set xs. \<not> glob_matches (te_pattern e) s \<Longrightarrow> apply_transforms xs s t p = Inr p"
  by (induction xs) auto

text \<open>
  Transforms chain in registration order, and only the matching ones take part: after one more
  transform is registered, a stream it matches gets its result applied to what the earlier
  transforms give, and every other stream is treated as before.
\<close>

theorem register_transform_chains:
  "apply_transforms (register_transform pattern f entries) s t p =
     (if glob_matches pattern s
      then bind_res (apply_transforms entries s t p) (f t)
      else apply_transforms entries s t p)"
  by (simp add: register_transform_def apply_transforms_append bind_res_def split: sum.splits)

section \<open>Upcasters\<close>

record upcaster_entry =
  uc_from :: u32
  uc_to :: u32
  uc_fun :: "bytes \<Rightarrow> bytes res"

type_synonym upcaster_registry = "string \<Rightarrow> upcaster_entry list option"

text \<open>\<open>register\<close> sorts with a stable sort, so of two entries with one \<open>from\<close> the older is found.\<close>

definition register_upcaster_entry ::
  "string \<Rightarrow> u32 \<Rightarrow> u32 \<Rightarrow> (bytes \<Rightarrow> bytes res) \<Rightarrow> upcaster_registry \<Rightarrow> upcaster_registry" where
  "register_upcaster_entry event_type from0 to0 f reg =
     (let vec = (case reg event_type of None \<Rightarrow> [] | Some v \<Rightarrow> v)
      in reg(event_type \<mapsto>
           sort_key uc_from (vec @ [\<lparr>uc_from = from0, uc_to = to0, uc_fun = f\<rparr>])))"

partial_function (option) upcast_loop ::
  "upcaster_entry list \<Rightarrow> string \<Rightarrow> u32 \<Rightarrow> bytes \<Rightarrow> bytes res option" where
  "upcast_loop entries event_type current payload =
     (case find (\<lambda>e. uc_from e = current) entries of
        None \<Rightarrow>
          if \<exists>e \<in> set entries. uc_from e > current
          then Some (Inl (UpcasterChainGap event_type current))
          else Some (Inr payload)
      | Some e \<Rightarrow>
          (case uc_fun e payload of
             Inl err \<Rightarrow> Some (Inl err)
           | Inr payload' \<Rightarrow> upcast_loop entries event_type (uc_to e) payload'))"

definition upcast_apply ::
  "upcaster_registry \<Rightarrow> string \<Rightarrow> u32 \<Rightarrow> bytes \<Rightarrow> bytes res option" where
  "upcast_apply reg event_type stored_version payload =
     (case reg event_type of
        Some (e # es) \<Rightarrow> upcast_loop (e # es) event_type stored_version payload
      | _ \<Rightarrow> Some (Inr payload))"

definition apply_upcaster ::
  "upcaster_registry \<Rightarrow> stored_event \<Rightarrow> stored_event res option" where
  "apply_upcaster reg event =
     map_option (\<lambda>r. bind_res r (\<lambda>payload. Inr (event\<lparr>ev_payload := payload\<rparr>)))
       (upcast_apply reg (ev_event_type event) (ev_type_version event) (ev_payload event))"

text \<open>\<open>Store::register_upcaster\<close> records the registration in the file first.\<close>

definition store_register_upcaster ::
  "i64 \<Rightarrow> string \<Rightarrow> u32 \<Rightarrow> u32 \<Rightarrow> (bytes \<Rightarrow> bytes res) \<Rightarrow> db \<times> upcaster_registry \<Rightarrow>
     db \<times> upcaster_registry" where
  "store_register_upcaster now event_type from0 to0 f st =
     (let (d, reg) = st;
          d' = (if \<exists>(t, a, b, _) \<in> set (t_upcasters d).
                     t = event_type \<and> a = uint from0 \<and> b = uint to0
                then d
                else d\<lparr>t_upcasters := t_upcasters d @ [(event_type, uint from0, uint to0, now)]\<rparr>)
      in (d', register_upcaster_entry event_type from0 to0 f reg))"

section \<open>The chain of upcasters\<close>

text \<open>
  The specification: following the registered entries from a version, applying each, to the
  version at which no entry starts and none starts later.
\<close>

inductive upcasts :: "upcaster_entry list \<Rightarrow> u32 \<Rightarrow> bytes \<Rightarrow> u32 \<Rightarrow> bytes \<Rightarrow> bool"
  for entries :: "upcaster_entry list" where
  upcasts_done: "upcasts entries v p v p"
| upcasts_step: "find (\<lambda>e. uc_from e = v) entries = Some e \<Longrightarrow> uc_fun e p = Inr p' \<Longrightarrow>
    upcasts entries (uc_to e) p' w q \<Longrightarrow> upcasts entries v p w q"

lemma upcast_loop_upcasts:
  assumes "upcast_loop entries t v p = Some r"
  shows "\<forall>q. r = Inr q \<longrightarrow> (\<exists>w. upcasts entries v p w q \<and> (\<forall>e \<in> set entries. uc_from e < w))"
proof (rule upcast_loop.raw_induct [OF _ assms])
  fix rec_fn entries t v p r
  assume IH: "\<And>entries t v p r. rec_fn entries t v p = Some r \<Longrightarrow>
      \<forall>q. r = Inr q \<longrightarrow> (\<exists>w. upcasts entries v p w q \<and> (\<forall>e \<in> set entries. uc_from e < w))"
    and step: "(case find (\<lambda>e. uc_from e = v) entries of
        None \<Rightarrow> if \<exists>e \<in> set entries. uc_from e > v then Some (Inl (UpcasterChainGap t v))
                else Some (Inr p)
      | Some e \<Rightarrow> (case uc_fun e p of Inl err \<Rightarrow> Some (Inl err)
                   | Inr p' \<Rightarrow> rec_fn entries t (uc_to e) p')) = Some r"
  show "\<forall>q. r = Inr q \<longrightarrow> (\<exists>w. upcasts entries v p w q \<and> (\<forall>e \<in> set entries. uc_from e < w))"
  proof (intro allI impI)
    fix q
    assume r: "r = Inr q"
    show "\<exists>w. upcasts entries v p w q \<and> (\<forall>e \<in> set entries. uc_from e < w)"
    proof (cases "find (\<lambda>e. uc_from e = v) entries")
      case None
      then have "\<forall>e \<in> set entries. uc_from e \<noteq> v" by (auto simp: find_None_iff)
      with None step r show ?thesis
        by (intro exI [of _ v]) (force split: if_splits intro: upcasts_done)
    next
      case (Some e)
      with step r obtain p' where p': "uc_fun e p = Inr p'" "rec_fn entries t (uc_to e) p' = Some r"
        by (auto split: sum.splits)
      from IH [OF p'(2)] r Some p'(1) show ?thesis by (blast intro: upcasts_step)
    qed
  qed
qed

lemma upcasts_upcast_loop:
  "upcasts entries v p w q \<Longrightarrow> \<forall>e \<in> set entries. uc_from e < w \<Longrightarrow>
   upcast_loop entries t v p = Some (Inr q)"
proof (induction rule: upcasts.induct)
  case (upcasts_done v p)
  then have "find (\<lambda>e. uc_from e = v) entries = None" by (auto simp: find_None_iff)
  moreover have "\<not> (\<exists>e \<in> set entries. uc_from e > v)" using upcasts_done by (meson less_asym)
  ultimately show ?case by (subst upcast_loop.simps) simp
next
  case (upcasts_step v e p p' w q)
  then show ?case by (subst upcast_loop.simps) simp
qed

text \<open>
  C28. Reading through upcasters returns a payload exactly when the registered upcasters form a
  contiguous chain from the stored version to a version above all registered ones, and it is
  then the result of applying them in turn; the event is otherwise unchanged.
\<close>

theorem apply_upcaster_chain:
  "apply_upcaster reg event = Some (Inr event') \<longleftrightarrow>
     (\<exists>w q. event' = event\<lparr>ev_payload := q\<rparr> \<and>
        (case reg (ev_event_type event) of
           Some (e # es) \<Rightarrow>
             upcasts (e # es) (ev_type_version event) (ev_payload event) w q \<and>
             (\<forall>x \<in> set (e # es). uc_from x < w)
         | _ \<Rightarrow> q = ev_payload event))"
proof -
  have loop: "upcast_loop es t v p = Some (Inr q) \<longleftrightarrow>
      (\<exists>w. upcasts es v p w q \<and> (\<forall>x \<in> set es. uc_from x < w))" for es t v p q
    using upcast_loop_upcasts upcasts_upcast_loop by metis
  have "apply_upcaster reg event = Some (Inr event') \<longleftrightarrow> (\<exists>q. event' = event\<lparr>ev_payload := q\<rparr> \<and>
      upcast_apply reg (ev_event_type event) (ev_type_version event) (ev_payload event) = Some (Inr q))"
    unfolding apply_upcaster_def
    by (cases "upcast_apply reg (ev_event_type event) (ev_type_version event) (ev_payload event)")
      (auto simp: bind_res_Inr_iff)
  also have "\<dots> \<longleftrightarrow> (\<exists>w q. event' = event\<lparr>ev_payload := q\<rparr> \<and>
        (case reg (ev_event_type event) of
           Some (e # es) \<Rightarrow>
             upcasts (e # es) (ev_type_version event) (ev_payload event) w q \<and>
             (\<forall>x \<in> set (e # es). uc_from x < w)
         | _ \<Rightarrow> q = ev_payload event))"
  proof (cases "reg (ev_event_type event)")
    case None
    then show ?thesis by (auto simp: upcast_apply_def)
  next
    case (Some es)
    then show ?thesis by (cases es) (auto simp: upcast_apply_def loop simp del: list.set)
  qed
  finally show ?thesis .
qed

text \<open>A chain whose entries all lead upwards ends.\<close>

lemma upcast_loop_ends:
  assumes "\<forall>e \<in> set entries. uc_from e < uc_to e"
  shows "\<exists>r. upcast_loop entries t v p = Some r"
proof (induction "2 ^ 32 - unat v" arbitrary: v p rule: less_induct)
  case less
  show ?case
  proof (cases "find (\<lambda>e. uc_from e = v) entries")
    case None
    then show ?thesis by (subst upcast_loop.simps) simp
  next
    case (Some e)
    show ?thesis
    proof (cases "uc_fun e p")
      case (Inl err)
      with Some show ?thesis by (subst upcast_loop.simps) simp
    next
      case (Inr p')
      from find_Some_set [OF Some] assms have "v < uc_to e" by auto
      then have "unat v < unat (uc_to e)" by (simp add: word_less_nat_alt)
      moreover have "unat (uc_to e) < 2 ^ 32" using unsigned_less [of "uc_to e"] by simp
      ultimately have "2 ^ 32 - unat (uc_to e) < 2 ^ 32 - unat v" by arith
      from less [OF this] Some Inr show ?thesis by (subst upcast_loop.simps) simp
    qed
  qed
qed

text \<open>
  When every registered upcaster leads to a higher version, reading through upcasters always
  returns: an event, an error of an upcaster, or a gap in the chain.
\<close>

theorem apply_upcaster_terminates:
  assumes "\<And>t es e. reg t = Some es \<Longrightarrow> e \<in> set es \<Longrightarrow> uc_from e < uc_to e"
  shows "\<exists>r. apply_upcaster reg event = Some r"
proof (cases "reg (ev_event_type event)")
  case None
  then show ?thesis by (simp add: apply_upcaster_def upcast_apply_def)
next
  case (Some es)
  then have "\<forall>e \<in> set es. uc_from e < uc_to e" using assms by blast
  from upcast_loop_ends [OF this] Some show ?thesis
    by (cases es) (auto simp: apply_upcaster_def upcast_apply_def)
qed

definition demo_upcasters :: upcaster_registry where
  "demo_upcasters = register_upcaster_entry ''Ping'' 1 2 (\<lambda>p. Inr (9 # p)) (\<lambda>_. None)"

definition demo_stored :: stored_event where
  "demo_stored =
     \<lparr>ev_id = EventId [7], ev_stream_id = ''a/b'', ev_branch = ''main'', ev_version = 0,
      ev_timestamp_us = 4, ev_causation_id = None, ev_correlation_id = None,
      ev_event_type = ''Ping'', ev_type_version = 1, ev_payload = [1, 2],
      ev_external_id = None, ev_indexed_tags = None\<rparr>"

theorem apply_upcaster_terminates_witness:
  "\<exists>r. apply_upcaster demo_upcasters demo_stored = Some r"
  by (rule apply_upcaster_terminates [of demo_upcasters])
    (auto simp: demo_upcasters_def register_upcaster_entry_def split: if_splits)

theorem apply_upcaster_chain_witness:
  "apply_upcaster demo_upcasters demo_stored = Some (Inr (demo_stored\<lparr>ev_payload := [9, 1, 2]\<rparr>))"
proof -
  let ?e = "\<lparr>uc_from = 1, uc_to = 2, uc_fun = \<lambda>p. Inr (9 # p)\<rparr>"
  have found: "find (\<lambda>e. uc_from e = 1) [?e] = Some ?e" by simp
  have applied: "uc_fun ?e [1, 2] = Inr [9, 1, 2]" by simp
  have "upcasts [?e] (uc_to ?e) [9, 1, 2] 2 [9, 1, 2]" by (simp add: upcasts_done)
  from upcasts_step [OF found applied this] have "upcasts [?e] 1 [1, 2] 2 [9, 1, 2]" .
  then show ?thesis
    unfolding apply_upcaster_chain
    by (intro exI [of _ 2] exI [of _ "[9, 1, 2]"])
      (simp add: demo_upcasters_def register_upcaster_entry_def demo_stored_def)
qed

lemma upcast_loop_self:
  assumes "find (\<lambda>x. uc_from x = v) entries = Some e" and "uc_to e = v"
    and "\<And>p. \<exists>p'. uc_fun e p = Inr p'"
  shows "upcast_loop entries t v p = None"
proof -
  have "es = entries \<and> u = v \<longrightarrow> False" if "upcast_loop es t u p = Some r" for es t u p r
  proof (rule upcast_loop.raw_induct [OF _ that])
    fix rec_fn es t u p r
    assume IH: "\<And>es t u p r. rec_fn es t u p = Some r \<Longrightarrow> es = entries \<and> u = v \<longrightarrow> False"
      and step: "(case find (\<lambda>e. uc_from e = u) es of
        None \<Rightarrow> if \<exists>e \<in> set es. uc_from e > u then Some (Inl (UpcasterChainGap t u))
                else Some (Inr p)
      | Some e \<Rightarrow> (case uc_fun e p of Inl err \<Rightarrow> Some (Inl err)
                   | Inr p' \<Rightarrow> rec_fn es t (uc_to e) p')) = Some r"
    show "es = entries \<and> u = v \<longrightarrow> False"
    proof
      assume "es = entries \<and> u = v"
      moreover obtain p' where "uc_fun e p = Inr p'" using assms(3) by blast
      ultimately have "rec_fn entries t v p' = Some r" using step assms(1,2) by simp
      with IH show False by blast
    qed
  qed
  then show ?thesis by (metis not_None_eq)
qed

text \<open>
  An upcaster may be registered from a version to the same version, and as long as it
  succeeds, reading an event of that type and version never returns.
\<close>

theorem self_upcaster_diverges:
  assumes "\<And>p. \<exists>p'. f p = Inr p'" and "reg t = None"
    and "ev_event_type event = t" and "ev_type_version event = v"
  shows "apply_upcaster (register_upcaster_entry t v v f reg) event = None"
proof -
  have "upcast_loop [\<lparr>uc_from = v, uc_to = v, uc_fun = f\<rparr>] t v p = None" for p
    by (rule upcast_loop_self [where e = "\<lparr>uc_from = v, uc_to = v, uc_fun = f\<rparr>"])
      (simp_all add: assms(1))
  then show ?thesis
    using assms(2-4) by (simp add: apply_upcaster_def upcast_apply_def register_upcaster_entry_def)
qed

theorem self_upcaster_diverges_witness:
  "apply_upcaster (register_upcaster_entry ''Ping'' 1 1 Inr (\<lambda>_. None)) demo_stored = None"
  by (rule self_upcaster_diverges) (simp_all add: demo_stored_def)

end
