(* ===== verification/Aggregate.thy ===== *)
theory Aggregate
  imports Paging Payloads
begin

text \<open>
  Aggregation over the events of many streams (\<open>aggregate_impl\<close> and \<open>aggregate_bounded_impl\<close> in
  \<open>src/cross_stream.rs\<close>): the filter on tags, the statement that preselects rows, the fold over
  the upcasted events whose stream matches the pattern, and its bounded form. The aggregator is
  code of the caller, so its two functions are fields of a record.
\<close>

section \<open>Operations\<close>

record ('s, 'o) aggregator =
  agg_fold :: "'s \<Rightarrow> stored_event \<Rightarrow> 's"
  agg_finalize :: "'s \<Rightarrow> 'o"

record aggregate_query =
  aq_stream_pattern :: string
  aq_branch :: string
  aq_event_type_filter :: "string option"
  aq_from_timestamp_us :: "i64 option"
  aq_to_timestamp_us :: "i64 option"
  aq_indexed_tags_filter :: "json option"

definition aggregate_query_default :: aggregate_query where
  "aggregate_query_default =
     \<lparr>aq_stream_pattern = ''*'', aq_branch = ''main'', aq_event_type_filter = None,
      aq_from_timestamp_us = None, aq_to_timestamp_us = None, aq_indexed_tags_filter = None\<rparr>"

definition is_safe_tag_key :: "libs \<Rightarrow> string \<Rightarrow> bool" where
  "is_safe_tag_key L key \<longleftrightarrow>
     key \<noteq> [] \<and> (\<forall>c \<in> set (utf8_chars key). is_alphanumeric L c \<or> c = 95)"

text \<open>
  \<open>Number::as_f64\<close> of a number that is not an \<open>i64\<close>: a double as it is, and an integer from
  2 to the 63 on rounded to the nearest double, ties to even.
\<close>

definition big_u64_as_f64 :: "u64 \<Rightarrow> u64" where
  "big_u64_as_f64 n =
     (let q = unat n div 2048; r = unat n mod 2048;
          m = (if r > 1024 \<or> r = 1024 \<and> odd q then q + 1 else q)
      in word_of_nat (1086 * 2 ^ 52 + (m - 2 ^ 52)))"

fun number_param :: "jnumber \<Rightarrow> sql_value" where
  "number_param (PosInt n) =
     (if uint n \<le> i64_max then SqlInteger (uint n) else SqlReal (big_u64_as_f64 n))"
| "number_param (NegInt i) = SqlInteger i"
| "number_param (Float b) = SqlReal b"

datatype tag_clause = TagIsNull string | TagEquals string sql_value

definition unsafe_key :: "libs \<Rightarrow> string \<Rightarrow> error" where
  "unsafe_key L key = Internal (''indexed_tags_filter key '' @ debug_string L key @
     '' must contain only letters, digits, and underscores'')"

definition not_primitive :: "libs \<Rightarrow> string \<Rightarrow> error" where
  "not_primitive L key = Internal (''indexed_tags_filter value for key '' @ debug_string L key @
     '' must be a JSON primitive (string, bool, number, or null)'')"

definition tag_clause :: "libs \<Rightarrow> string \<times> json \<Rightarrow> tag_clause res" where
  "tag_clause L kv =
     (let (key, v) = kv in
      if \<not> is_safe_tag_key L key then Inl (unsafe_key L key)
      else case v of
        JNull \<Rightarrow> Inr (TagIsNull key)
      | JBool b \<Rightarrow> Inr (TagEquals key (SqlInteger (if b then 1 else 0)))
      | JNumber n \<Rightarrow> Inr (TagEquals key (number_param n))
      | JString s \<Rightarrow> Inr (TagEquals key (SqlText s))
      | _ \<Rightarrow> Inl (not_primitive L key))"

text \<open>Only a filter that is an object contributes clauses.\<close>

definition tag_clauses :: "libs \<Rightarrow> json option \<Rightarrow> tag_clause list res" where
  "tag_clauses L filter0 =
     (case filter0 of Some (JObject m) \<Rightarrow> collect_res (tag_clause L) m | _ \<Rightarrow> Inr [])"

definition clause_holds :: "libs \<Rightarrow> event_row \<Rightarrow> tag_clause \<Rightarrow> bool" where
  "clause_holds L r c =
     (case c of
        TagIsNull key \<Rightarrow> json_extract_is_null L (r_indexed_tags r) key
      | TagEquals key v \<Rightarrow> json_extract_equals L (r_indexed_tags r) key v)"

text \<open>The statement: the clauses of the query, \<open>ORDER BY timestamp_us ASC\<close>.\<close>

definition aggregate_rows ::
  "libs \<Rightarrow> db \<Rightarrow> aggregate_query \<Rightarrow> tag_clause list \<Rightarrow> event_row list" where
  "aggregate_rows L d q clauses =
     sort_key r_timestamp_us
       (filter (\<lambda>r. sql_glob L (aq_stream_pattern q) (r_stream_id r) \<and>
          r_branch r = aq_branch q \<and> type_filter_ok (aq_event_type_filter q) r \<and>
          (case aq_from_timestamp_us q of None \<Rightarrow> True | Some t \<Rightarrow> t \<le> r_timestamp_us r) \<and>
          (case aq_to_timestamp_us q of None \<Rightarrow> True | Some t \<Rightarrow> r_timestamp_us r \<le> t) \<and>
          list_all (clause_holds L r) clauses) (t_events d))"

definition read_upcasted :: "libs \<Rightarrow> upcaster_registry \<Rightarrow> event_row \<Rightarrow> stored_event res option" where
  "read_upcasted L reg row = bind_run (Some (row_to_event L row)) (apply_upcaster reg)"

fun aggregate_loop ::
  "libs \<Rightarrow> upcaster_registry \<Rightarrow> string \<Rightarrow> ('s, 'o) aggregator \<Rightarrow> 's \<Rightarrow> event_row list \<Rightarrow>
     's res option" where
  "aggregate_loop L reg pattern A s [] = Some (Inr s)"
| "aggregate_loop L reg pattern A s (row # rows) =
     bind_run (read_upcasted L reg row) (\<lambda>event.
       aggregate_loop L reg pattern A
         (if glob_matches pattern (ev_stream_id event) then agg_fold A s event else s) rows)"

definition aggregate_impl ::
  "libs \<Rightarrow> db \<Rightarrow> aggregate_query \<Rightarrow> ('s, 'o) aggregator \<Rightarrow> 's \<Rightarrow> upcaster_registry \<Rightarrow>
     'o res option" where
  "aggregate_impl L d q A s reg =
     bind_run (Some (tag_clauses L (aq_indexed_tags_filter q))) (\<lambda>clauses.
     bind_run (aggregate_loop L reg (aq_stream_pattern q) A s (aggregate_rows L d q clauses))
       (\<lambda>s'. Some (Inr (agg_finalize A s'))))"

fun aggregate_bounded_loop ::
  "libs \<Rightarrow> upcaster_registry \<Rightarrow> string \<Rightarrow> ('s, 'o) aggregator \<Rightarrow> nat option \<Rightarrow> nat option \<Rightarrow>
     's \<Rightarrow> nat \<Rightarrow> nat \<Rightarrow> event_row list \<Rightarrow> 'o read_outcome res option" where
  "aggregate_bounded_loop L reg pattern A max_events max_bytes s scanned byte_count [] =
     Some (Inr (Complete (agg_finalize A s)))"
| "aggregate_bounded_loop L reg pattern A max_events max_bytes s scanned byte_count (row # rows) =
     bind_run (read_upcasted L reg row) (\<lambda>event.
       if glob_matches pattern (ev_stream_id event) then
         let event_bytes = length (ev_payload event);
             exceed_count = exceeds_count max_events scanned;
             exceed_bytes = exceeds_bytes max_bytes (0 < scanned) (byte_count + event_bytes)
         in if exceed_count \<or> exceed_bytes
            then Some (Inr (Truncated (agg_finalize A s) None
                   (if exceed_count then ResultCount else ByteSize)))
            else aggregate_bounded_loop L reg pattern A max_events max_bytes (agg_fold A s event)
                   (scanned + 1) (byte_count + event_bytes) rows
       else aggregate_bounded_loop L reg pattern A max_events max_bytes s scanned byte_count rows)"

definition aggregate_bounded_impl ::
  "libs \<Rightarrow> db \<Rightarrow> aggregate_query \<Rightarrow> ('s, 'o) aggregator \<Rightarrow> 's \<Rightarrow> upcaster_registry \<Rightarrow> nat option \<Rightarrow>
     nat option \<Rightarrow> 'o read_outcome res option" where
  "aggregate_bounded_impl L d q A s reg max_events max_bytes =
     bind_run (Some (tag_clauses L (aq_indexed_tags_filter q))) (\<lambda>clauses.
       aggregate_bounded_loop L reg (aq_stream_pattern q) A max_events max_bytes s 0 0
         (aggregate_rows L d q clauses))"

section \<open>The fold\<close>

definition upcasted_rows ::
  "libs \<Rightarrow> upcaster_registry \<Rightarrow> event_row list \<Rightarrow> stored_event list \<Rightarrow> bool" where
  "upcasted_rows L reg rows evs \<longleftrightarrow> collect_run (read_upcasted L reg) rows = Some (Inr evs)"

lemma upcasted_rows_simps:
  "upcasted_rows L reg [] evs \<longleftrightarrow> evs = []"
  "upcasted_rows L reg (row # rows) evs \<longleftrightarrow>
     (\<exists>e es. evs = e # es \<and> read_upcasted L reg row = Some (Inr e) \<and> upcasted_rows L reg rows es)"
  by (auto simp: upcasted_rows_def bind_run_Inr_iff)

definition matching_events :: "string \<Rightarrow> stored_event list \<Rightarrow> stored_event list" where
  "matching_events pattern = filter (\<lambda>e. glob_matches pattern (ev_stream_id e))"

lemma aggregate_loop_fold:
  "upcasted_rows L reg rows evs \<Longrightarrow>
   aggregate_loop L reg pattern A s rows =
     Some (Inr (foldl (agg_fold A) s (matching_events pattern evs)))"
  by (induction rows arbitrary: s evs) (auto simp: upcasted_rows_simps matching_events_def)

definition scan_budget :: "nat option \<Rightarrow> nat option \<Rightarrow> stored_event list \<Rightarrow> bool" where
  "scan_budget max_events max_bytes es \<longleftrightarrow>
     (case max_events of None \<Rightarrow> True | Some n \<Rightarrow> length es \<le> n) \<and>
     (case max_bytes of None \<Rightarrow> True
      | Some b \<Rightarrow> length es \<le> 1 \<or> sum_list (map (\<lambda>e. length (ev_payload e)) es) \<le> b)"

text \<open>The budget cuts the events at the first one that does not fit.\<close>

definition budget_cut ::
  "nat option \<Rightarrow> nat option \<Rightarrow> stored_event list \<Rightarrow> stored_event list \<Rightarrow> bool" where
  "budget_cut max_events max_bytes taken rest \<longleftrightarrow>
     scan_budget max_events max_bytes taken \<and>
     (rest \<noteq> [] \<longrightarrow> \<not> scan_budget max_events max_bytes (taken @ [hd rest]))"

definition fold_outcome ::
  "('s, 'o) aggregator \<Rightarrow> 's \<Rightarrow> nat option \<Rightarrow> stored_event list \<Rightarrow> stored_event list \<Rightarrow>
     'o read_outcome" where
  "fold_outcome A s max_events taken rest =
     (let out = agg_finalize A (foldl (agg_fold A) s taken)
      in if rest = [] then Complete out
         else Truncated out None (if exceeds_count max_events (length taken) then ResultCount else ByteSize))"

lemma scan_budget_step:
  assumes "scan_budget max_events max_bytes es"
  shows "scan_budget max_events max_bytes (es @ [e]) \<longleftrightarrow>
    \<not> (exceeds_count max_events (length es) \<or>
       exceeds_bytes max_bytes (0 < length es)
         (sum_list (map (\<lambda>e. length (ev_payload e)) es) + length (ev_payload e)))"
  using assms
  by (auto simp: scan_budget_def exceeds_count_def exceeds_bytes_def not_le not_less Suc_le_eq
      split: option.splits)

lemma aggregate_bounded_loop_cut:
  assumes "upcasted_rows L reg rows evs" and "scan_budget max_events max_bytes before"
  shows "\<exists>taken rest. before @ matching_events pattern evs = taken @ rest \<and>
    budget_cut max_events max_bytes taken rest \<and>
    aggregate_bounded_loop L reg pattern A max_events max_bytes (foldl (agg_fold A) s before)
      (length before) (sum_list (map (\<lambda>e. length (ev_payload e)) before)) rows =
    Some (Inr (fold_outcome A s max_events taken rest))"
  using assms
proof (induction rows arbitrary: evs before)
  case Nil
  then show ?case
    by (intro exI [of _ before] exI [of _ "[]"])
      (simp add: upcasted_rows_simps matching_events_def budget_cut_def fold_outcome_def)
next
  case (Cons row rows)
  then obtain e es where e: "evs = e # es" "read_upcasted L reg row = Some (Inr e)"
    "upcasted_rows L reg rows es"
    by (auto simp: upcasted_rows_simps)
  note IH = Cons.IH [OF e(3)]
  show ?case
  proof (cases "glob_matches pattern (ev_stream_id e)")
    case False
    with IH [OF Cons.prems(2)] e(1,2) show ?thesis by (simp add: matching_events_def)
  next
    case match: True
    note step = scan_budget_step [OF Cons.prems(2), of e]
    show ?thesis
    proof (cases "scan_budget max_events max_bytes (before @ [e])")
      case True
      from IH [OF True] e(1,2) match True step show ?thesis
        by (simp add: matching_events_def add.commute)
    next
      case False
      then show ?thesis
        using e(1,2) match step Cons.prems(2)
        by (intro exI [of _ before] exI [of _ "e # matching_events pattern es"])
          (auto simp: matching_events_def budget_cut_def fold_outcome_def)
    qed
  qed
qed

text \<open>
  Aggregation folds, in order of time, exactly the upcasted events of the preselected rows
  whose stream matches the pattern. A bounded aggregation folds the longest prefix of these that
  fits the budget (one event always fits the byte budget), and is marked complete exactly when
  this prefix is everything.
\<close>

theorem aggregate_bounded_prefix:
  assumes "tag_clauses L (aq_indexed_tags_filter q) = Inr clauses"
    and "upcasted_rows L reg (aggregate_rows L d q clauses) evs"
  shows "aggregate_impl L d q A s reg = Some (Inr (agg_finalize A
      (foldl (agg_fold A) s (matching_events (aq_stream_pattern q) evs)))) \<and>
    (\<exists>taken rest. matching_events (aq_stream_pattern q) evs = taken @ rest \<and>
      budget_cut max_events max_bytes taken rest \<and>
      aggregate_bounded_impl L d q A s reg max_events max_bytes =
        Some (Inr (fold_outcome A s max_events taken rest)))"
proof -
  have "scan_budget max_events max_bytes []"
    by (simp add: scan_budget_def split: option.splits)
  from aggregate_bounded_loop_cut [OF assms(2) this, of "aq_stream_pattern q" A s] assms
  show ?thesis
    by (simp add: aggregate_bounded_impl_def aggregate_impl_def aggregate_loop_fold)
qed

text \<open>An instance: counting the events of \<open>a/b\<close>, one event per call.\<close>

definition demo_count :: "(nat, nat) aggregator" where
  "demo_count = \<lparr>agg_fold = (\<lambda>n e. Suc n), agg_finalize = id\<rparr>"

definition demo_aggregate :: aggregate_query where
  "demo_aggregate = aggregate_query_default\<lparr>aq_stream_pattern := ''a/b''\<rparr>"

lemma demo_aggregate_rows:
  "aggregate_rows demo_libs demo_log demo_aggregate [] = [demo_row 0, demo_row 1]"
  by (simp add: aggregate_rows_def demo_log_def demo_aggregate_def aggregate_query_default_def
      demo_row_def type_filter_ok_def)

lemma demo_upcasted:
  "upcasted_rows demo_libs (\<lambda>_. None) [demo_row 0, demo_row 1]
     [event_of demo_libs (demo_row 0), event_of demo_libs (demo_row 1)]"
proof -
  have "row_readable demo_libs (demo_row v)" for v
    by (simp add: row_readable_tags demo_row_def)
  then show ?thesis
    by (simp add: upcasted_rows_simps read_upcasted_def row_to_event_readable apply_upcaster_def
        upcast_apply_def)
qed

theorem aggregate_bounded_prefix_witness:
  "aggregate_impl demo_libs demo_log demo_aggregate demo_count 0 (\<lambda>_. None) = Some (Inr 2)"
proof -
  have "row_readable demo_libs (demo_row v)" for v
    by (simp add: row_readable_tags demo_row_def)
  then have "ev_stream_id (event_of demo_libs (demo_row v)) = ''a/b''" for v
    by (simp add: event_of_simps demo_row_def)
  then have "matching_events ''a/b'' [event_of demo_libs (demo_row 0), event_of demo_libs (demo_row 1)] =
      [event_of demo_libs (demo_row 0), event_of demo_libs (demo_row 1)]"
    by (simp add: matching_events_def glob_matches_literal)
  moreover have "aq_stream_pattern demo_aggregate = ''a/b''"
    and "tag_clauses demo_libs (aq_indexed_tags_filter demo_aggregate) = Inr []"
    by (simp_all add: demo_aggregate_def aggregate_query_default_def tag_clauses_def)
  ultimately show ?thesis
    using aggregate_bounded_prefix [of demo_libs demo_aggregate "[]" "\<lambda>_. None" demo_log
        "[event_of demo_libs (demo_row 0), event_of demo_libs (demo_row 1)]" demo_count 0]
    by (simp add: demo_aggregate_rows demo_upcasted) (simp add: demo_count_def)
qed

section \<open>The preselection\<close>

text \<open>
  SQLite documents that in a \<open>GLOB\<close> pattern every character other than \<open>*\<close>, \<open>?\<close> and \<open>[\<close> stands
  for itself; so a text matching such characters followed by \<open>/**\<close> starts with them and a slash.
\<close>

definition glob_literal_prefix :: "libs \<Rightarrow> bool" where
  "glob_literal_prefix L \<longleftrightarrow>
     (\<forall>p s. (\<forall>c \<in> set p. c \<noteq> CHR ''*'' \<and> c \<noteq> CHR ''?'' \<and> c \<noteq> CHR ''['') \<longrightarrow>
        sql_glob L (p @ ''/**'') s \<longrightarrow> starts_with s (p @ ''/''))"

lemma match_parts_refl: "\<forall>q \<in> set p. q \<noteq> ''**'' \<Longrightarrow> match_parts (p @ r) (p @ t) = match_parts r t"
  by (induction p) auto

lemma split_on_append: "split_on c (s @ c # t) = split_on c s @ split_on c t"
  by (induction s) (auto split: list.splits)

text \<open>
  A pattern \<open>p/**\<close> matches the stream \<open>p\<close> itself, as \<open>**\<close> may stand for no segment, but the
  statement of an aggregation with this pattern never selects an event of stream \<open>p\<close>.
\<close>

theorem aggregate_misses_root_stream:
  assumes "glob_literal_prefix L" and "aq_stream_pattern q = p @ ''/**''"
    and "\<forall>c \<in> set p. c \<noteq> CHR ''*'' \<and> c \<noteq> CHR ''?'' \<and> c \<noteq> CHR ''[''"
  shows "glob_matches (aq_stream_pattern q) p \<and>
    (\<forall>r \<in> set (aggregate_rows L d q clauses). r_stream_id r \<noteq> p)"
proof -
  let ?ps = "split_on (CHR ''/'') p"
  have "\<forall>x \<in> set ?ps. x \<noteq> ''**''" using assms(3) split_on_chars by fastforce
  then have "match_parts (?ps @ [''**'']) ?ps = match_parts [''**''] []"
    using match_parts_refl [of ?ps "[''**'']" "[]"] by simp
  then have "glob_matches (aq_stream_pattern q) p"
    unfolding assms(2) glob_matches_def
    using split_on_append [of "CHR ''/''" p "''**''"] by simp
  moreover have "r_stream_id r \<noteq> p" if "r \<in> set (aggregate_rows L d q clauses)" for r
  proof
    assume "r_stream_id r = p"
    with that assms have "starts_with p (p @ ''/'')"
      by (auto simp: aggregate_rows_def glob_literal_prefix_def)
    then show False by (auto simp: starts_with_iff)
  qed
  ultimately show ?thesis by blast
qed

lemma demo_glob_literal:
  "\<forall>c \<in> set p. c \<noteq> CHR ''*'' \<Longrightarrow> demo_glob (p @ q) s \<Longrightarrow> starts_with s p"
  by (induction p arbitrary: s) (auto split: list.splits)

theorem aggregate_misses_root_stream_witness:
  "glob_matches ''a/**'' ''a'' \<and>
   (\<forall>r \<in> set (aggregate_rows demo_libs demo_log
      (aggregate_query_default\<lparr>aq_stream_pattern := ''a/**''\<rparr>) []). r_stream_id r \<noteq> ''a'')"
proof -
  let ?q = "aggregate_query_default\<lparr>aq_stream_pattern := ''a/**''\<rparr>"
  have "glob_literal_prefix demo_libs"
    unfolding glob_literal_prefix_def demo_simps
    using demo_glob_literal [of "p @ ''/''" "''**''" for p] by auto
  from aggregate_misses_root_stream [OF this, of ?q "''a''" demo_log "[]"] show ?thesis by simp
qed

end
