(* ===== verification/Subscriptions.thy ===== *)
theory Subscriptions
  imports Glob Demo_Libs "HOL-Library.AList" "HOL-Library.Sublist"
begin

text \<open>
  Subscriptions (\<open>src/subscriptions.rs\<close>): the registry, the dispatch to synchronous subscribers
  under the write lock, the dispatch to the bounded queues of the others after the commit with
  its cursors, and the cursors the WAL watcher scans from.

  A handler is code of the caller: it sees the calls made on it so far and may panic, so it is a
  predicate on earlier calls and the event. The calls are kept in the entry. A queue of capacity
  0 hands an event over only to a handler thread that is waiting for one.
\<close>

section \<open>Entries\<close>

type_synonym handler = "stored_event list \<Rightarrow> stored_event \<Rightarrow> bool"

datatype subscription_mode = ModeSynchronous | ModePostCommit nat

record subscribe_query =
  sq_stream_pattern :: string
  sq_branch :: string
  sq_include_system :: bool

definition subscribe_query_stream :: "string \<Rightarrow> subscribe_query" where
  "subscribe_query_stream s =
     \<lparr>sq_stream_pattern = s, sq_branch = ''main'', sq_include_system = False\<rparr>"

record post_commit =
  pc_queue :: "stored_event list"
  pc_capacity :: nat
  pc_open :: bool
  pc_waiting :: bool
  pc_wal_cursor :: i64
  pc_stream_cursors :: "((string \<times> string) \<times> i64) list"

datatype subscriber_kind = Synchronous | PostCommit post_commit

record subscriber_entry =
  se_stream_pattern :: string
  se_branch :: string
  se_include_system :: bool
  se_degraded :: bool
  se_kind :: subscriber_kind
  se_handler :: handler
  se_calls :: "stored_event list"

text \<open>The entries in the order the hash map yields them.\<close>

record registry =
  rg_entries :: "(u64 \<times> subscriber_entry) list"
  rg_next_id :: u64

definition registry_new :: registry where
  "registry_new = \<lparr>rg_entries = [], rg_next_id = 1\<rparr>"

definition new_entry ::
  "subscribe_query \<Rightarrow> subscription_mode \<Rightarrow> i64 \<Rightarrow> ((string \<times> string) \<times> i64) list \<Rightarrow> handler \<Rightarrow>
     subscriber_entry" where
  "new_entry q mode initial_cursor initial_stream_cursors h =
     \<lparr>se_stream_pattern = sq_stream_pattern q, se_branch = sq_branch q,
      se_include_system = sq_include_system q, se_degraded = False,
      se_kind = (case mode of
          ModeSynchronous \<Rightarrow> Synchronous
        | ModePostCommit queue_size \<Rightarrow>
            PostCommit \<lparr>pc_queue = [], pc_capacity = queue_size, pc_open = True,
              pc_waiting = False, pc_wal_cursor = initial_cursor,
              pc_stream_cursors = initial_stream_cursors\<rparr>),
      se_handler = h, se_calls = []\<rparr>"

definition registry_subscribe ::
  "subscribe_query \<Rightarrow> subscription_mode \<Rightarrow> i64 \<Rightarrow> ((string \<times> string) \<times> i64) list \<Rightarrow> handler \<Rightarrow>
     registry \<Rightarrow> registry \<times> u64" where
  "registry_subscribe q mode initial_cursor initial_stream_cursors h rg =
     (let id0 = rg_next_id rg
      in (rg\<lparr>rg_entries := AList.update id0
               (new_entry q mode initial_cursor initial_stream_cursors h) (rg_entries rg),
             rg_next_id := id0 + 1\<rparr>, id0))"

definition registry_unsubscribe :: "u64 \<Rightarrow> registry \<Rightarrow> registry" where
  "registry_unsubscribe id0 rg = rg\<lparr>rg_entries := AList.delete id0 (rg_entries rg)\<rparr>"

definition has_subscribers :: "registry \<Rightarrow> bool" where
  "has_subscribers rg \<longleftrightarrow> rg_entries rg \<noteq> []"

section \<open>Dispatch\<close>

definition in_scope :: "subscriber_entry \<Rightarrow> stored_event \<Rightarrow> bool" where
  "in_scope entry event \<longleftrightarrow>
     se_branch entry = ev_branch event \<and>
     \<not> (starts_with (ev_stream_id event) ''_'' \<and> \<not> se_include_system entry) \<and>
     glob_matches (se_stream_pattern entry) (ev_stream_id event)"

subsection \<open>Synchronous subscribers\<close>

definition sync_call :: "stored_event \<Rightarrow> subscriber_entry \<Rightarrow> subscriber_entry \<times> bool" where
  "sync_call event entry =
     (if in_scope entry event \<and> \<not> se_degraded entry \<and> se_kind entry = Synchronous
      then let panicked = se_handler entry (se_calls entry) event
           in (entry\<lparr>se_calls := se_calls entry @ [event], se_degraded := panicked\<rparr>, panicked)
      else (entry, False))"

definition dispatch_sync :: "stored_event \<Rightarrow> registry \<Rightarrow> registry \<times> u64 list" where
  "dispatch_sync event rg =
     (rg\<lparr>rg_entries := map (\<lambda>(id0, entry). (id0, fst (sync_call event entry))) (rg_entries rg)\<rparr>,
      map fst (filter (\<lambda>(id0, entry). snd (sync_call event entry)) (rg_entries rg)))"

subsection \<open>Post-commit subscribers\<close>

definition is_exact :: "string \<Rightarrow> bool" where
  "is_exact pattern \<longleftrightarrow> CHR ''*'' \<notin> set pattern"

definition effective_cursor :: "subscriber_entry \<Rightarrow> post_commit \<Rightarrow> stored_event \<Rightarrow> i64" where
  "effective_cursor entry pc event =
     (if is_exact (se_stream_pattern entry) then pc_wal_cursor pc
      else case map_of (pc_stream_cursors pc) (ev_stream_id event, ev_branch event) of
             None \<Rightarrow> -1 | Some v \<Rightarrow> v)"

datatype send_result = Sent | Full | Disconnected

definition try_send :: "stored_event \<Rightarrow> post_commit \<Rightarrow> post_commit \<times> send_result" where
  "try_send event pc =
     (if \<not> pc_open pc then (pc, Disconnected)
      else if (if pc_capacity pc = 0 then pc_waiting pc \<and> pc_queue pc = []
               else length (pc_queue pc) < pc_capacity pc)
      then (pc\<lparr>pc_queue := pc_queue pc @ [event]\<rparr>, Sent)
      else (pc, Full))"

text \<open>The first pass over one entry: the send, whether it delivered and whether it degraded.\<close>

definition send_to :: "stored_event \<Rightarrow> subscriber_entry \<Rightarrow> subscriber_entry \<times> send_result option" where
  "send_to event entry =
     (case se_kind entry of
        Synchronous \<Rightarrow> (entry, None)
      | PostCommit pc \<Rightarrow>
          if in_scope entry event \<and> \<not> se_degraded entry \<and>
             effective_cursor entry pc event < as_i64 (ev_version event)
          then let (pc', sent) = try_send event pc
               in (entry\<lparr>se_kind := PostCommit pc',
                        se_degraded := (sent = Full)\<rparr>, Some sent)
          else (entry, None))"

text \<open>The second pass over one entry that has been delivered to.\<close>

definition advance_cursor :: "stored_event \<Rightarrow> subscriber_entry \<Rightarrow> subscriber_entry" where
  "advance_cursor event entry =
     (case se_kind entry of
        Synchronous \<Rightarrow> entry
      | PostCommit pc \<Rightarrow>
          let v = as_i64 (ev_version event);
              key = (ev_stream_id event, ev_branch event)
          in entry\<lparr>se_kind := PostCommit
               (if is_exact (se_stream_pattern entry)
                then pc\<lparr>pc_wal_cursor := max (pc_wal_cursor pc) v\<rparr>
                else pc\<lparr>pc_stream_cursors := AList.update key
                       (max (case map_of (pc_stream_cursors pc) key of None \<Rightarrow> -1 | Some w \<Rightarrow> w) v)
                       (pc_stream_cursors pc)\<rparr>)\<rparr>)"

definition post_commit_call :: "stored_event \<Rightarrow> subscriber_entry \<Rightarrow> subscriber_entry" where
  "post_commit_call event entry =
     (let (entry', sent) = send_to event entry
      in if sent = Some Sent then advance_cursor event entry' else entry')"

definition dispatch_post_commit :: "stored_event \<Rightarrow> registry \<Rightarrow> registry \<times> u64 list" where
  "dispatch_post_commit event rg =
     (rg\<lparr>rg_entries := map (\<lambda>(id0, entry). (id0, post_commit_call event entry)) (rg_entries rg)\<rparr>,
      map fst (filter (\<lambda>(id0, entry). snd (send_to event entry) = Some Full) (rg_entries rg)))"

section \<open>Observation\<close>

definition queue_info :: "u64 \<Rightarrow> registry \<Rightarrow> (nat \<times> nat option) option" where
  "queue_info id0 rg =
     (case map_of (rg_entries rg) id0 of
        None \<Rightarrow> None
      | Some entry \<Rightarrow>
          (case se_kind entry of
             Synchronous \<Rightarrow> None
           | PostCommit pc \<Rightarrow> Some (length (pc_queue pc), Some (pc_capacity pc))))"

definition scan_cursor :: "string \<Rightarrow> post_commit \<Rightarrow> i64" where
  "scan_cursor pattern pc =
     (if is_exact pattern then pc_wal_cursor pc
      else case pc_stream_cursors pc of
             [] \<Rightarrow> -1
           | (_, v) # cs \<Rightarrow> foldr min (map snd cs) v)"

definition post_commit_cursors :: "registry \<Rightarrow> (u64 \<times> string \<times> string \<times> i64) list" where
  "post_commit_cursors rg =
     List.map_filter (\<lambda>(id0, entry).
         case se_kind entry of
           Synchronous \<Rightarrow> None
         | PostCommit pc \<Rightarrow>
             if se_degraded entry then None
             else Some (id0, se_stream_pattern entry, se_branch entry,
                    scan_cursor (se_stream_pattern entry) pc))
       (rg_entries rg)"

section \<open>Handler threads\<close>

text \<open>
  The thread of a post-commit subscription waits for an event, takes it and calls the handler.
  The call is not guarded: a panic ends the thread, and the queue is closed with what it holds.
\<close>

definition handler_wait :: "subscriber_entry \<Rightarrow> subscriber_entry" where
  "handler_wait entry =
     (case se_kind entry of
        Synchronous \<Rightarrow> entry
      | PostCommit pc \<Rightarrow> entry\<lparr>se_kind := PostCommit (pc\<lparr>pc_waiting := pc_open pc\<rparr>)\<rparr>)"

definition handler_take :: "subscriber_entry \<Rightarrow> subscriber_entry" where
  "handler_take entry =
     (case se_kind entry of
        Synchronous \<Rightarrow> entry
      | PostCommit pc \<Rightarrow>
          (case pc_queue pc of
             [] \<Rightarrow> entry
           | event # queue \<Rightarrow>
               if \<not> pc_open pc then entry
               else let panicked = se_handler entry (se_calls entry) event
                    in entry\<lparr>se_calls := se_calls entry @ [event],
                        se_kind := PostCommit
                          (pc\<lparr>pc_queue := (if panicked then [] else queue),
                             pc_open := \<not> panicked, pc_waiting := False\<rparr>)\<rparr>))"

definition update_entry :: "(subscriber_entry \<Rightarrow> subscriber_entry) \<Rightarrow> u64 \<Rightarrow> registry \<Rightarrow> registry" where
  "update_entry f id0 rg =
     rg\<lparr>rg_entries := map (\<lambda>(i, entry). (i, if i = id0 then f entry else entry)) (rg_entries rg)\<rparr>"

end
