(* ===== verification/Delivery.thy ===== *)
theory Delivery
  imports Subscriptions
begin

text \<open>
  What subscribers receive. The threads of a store (appending threads, the dispatcher, the
  handler threads, the WAL watcher) interleave, so delivery is a step relation over the committed
  events, the dispatch channel and the registry. The locale \<open>entry_op\<close> states what an operation
  on one entry has to keep, and lifts it to the registry.
\<close>

section \<open>The steps\<close>

record delivery =
  dl_log :: "stored_event list"
  dl_channel :: "stored_event list"
  dl_registry :: registry

abbreviation ver :: "stored_event \<Rightarrow> i64" where
  "ver e \<equiv> as_i64 (ev_version e)"

text \<open>A commit gives the next version of its stream and branch.\<close>

definition commits :: "stored_event list \<Rightarrow> stored_event \<Rightarrow> bool" where
  "commits log e \<longleftrightarrow>
     (\<forall>x \<in> set log. ev_stream_id x = ev_stream_id e \<and> ev_branch x = ev_branch e \<longrightarrow> ver x < ver e)"

definition dispatcher_receives :: "stored_event \<Rightarrow> registry \<Rightarrow> registry" where
  "dispatcher_receives event rg =
     (if starts_with (ev_stream_id event) ''_fossic/'' then rg
      else fst (dispatch_post_commit event rg))"

text \<open>
  An append commits and notifies the synchronous subscribers under the write lock (or does not
  notify: when nobody was subscribed at its start, when the stream is internal, or in another
  process). Later, without the lock, it sends the event to the channel; so does the WAL watcher
  with any committed event. The dispatcher takes events from the channel.
\<close>

inductive delivery_step :: "delivery \<Rightarrow> delivery \<Rightarrow> bool" where
  commit: "commits (dl_log st) e \<Longrightarrow> delivery_step st (st\<lparr>dl_log := dl_log st @ [e]\<rparr>)"
| commit_notify: "commits (dl_log st) e \<Longrightarrow>
    delivery_step st (st\<lparr>dl_log := dl_log st @ [e],
      dl_registry := fst (dispatch_sync e (dl_registry st))\<rparr>)"
| publish: "e \<in> set (dl_log st) \<Longrightarrow>
    delivery_step st (st\<lparr>dl_channel := dl_channel st @ [e]\<rparr>)"
| dispatch: "dl_channel st = e # channel \<Longrightarrow>
    delivery_step st (st\<lparr>dl_channel := channel,
      dl_registry := dispatcher_receives e (dl_registry st)\<rparr>)"
| handle: "delivery_step st (st\<lparr>dl_registry := update_entry handler_take i (dl_registry st)\<rparr>)"
| wait: "delivery_step st (st\<lparr>dl_registry := update_entry handler_wait i (dl_registry st)\<rparr>)"
| subscribe: "delivery_step st (st\<lparr>dl_registry :=
    fst (registry_subscribe q mode cursor cursors h (dl_registry st))\<rparr>)"
| unsubscribe: "delivery_step st (st\<lparr>dl_registry := registry_unsubscribe i (dl_registry st)\<rparr>)"

definition delivery_start :: delivery where
  "delivery_start = \<lparr>dl_log = [], dl_channel = [], dl_registry = registry_new\<rparr>"

section \<open>What one entry has received\<close>

definition received :: "subscriber_entry \<Rightarrow> stored_event list" where
  "received entry =
     (case se_kind entry of
        Synchronous \<Rightarrow> se_calls entry
      | PostCommit pc \<Rightarrow> se_calls entry @ pc_queue pc)"

definition in_order :: "stored_event list \<Rightarrow> bool" where
  "in_order es \<longleftrightarrow>
     (\<forall>s. sorted_wrt (<) (map ver (filter (\<lambda>e. ev_stream_id e = s) es)))"

definition entry_ok :: "stored_event list \<Rightarrow> subscriber_entry \<Rightarrow> bool" where
  "entry_ok log entry \<longleftrightarrow>
     (\<forall>e \<in> set (received entry). e \<in> set log \<and> in_scope entry e) \<and> in_order (received entry) \<and>
     (case se_kind entry of
        Synchronous \<Rightarrow> True
      | PostCommit pc \<Rightarrow> \<forall>e \<in> set (received entry). ver e \<le> effective_cursor entry pc e)"

lemma in_order_append:
  "in_order (xs @ [e]) \<longleftrightarrow>
     in_order xs \<and> (\<forall>x \<in> set xs. ev_stream_id x = ev_stream_id e \<longrightarrow> ver x < ver e)"
  unfolding in_order_def by (auto simp: sorted_wrt_append)

lemma in_order_prefix: "in_order (xs @ ys) \<Longrightarrow> in_order xs"
  by (auto simp: in_order_def sorted_wrt_append)

text \<open>In an exact subscription all events are of one stream.\<close>

lemma exact_stream:
  "in_scope entry e \<Longrightarrow> is_exact (se_stream_pattern entry) \<Longrightarrow> ev_stream_id e = se_stream_pattern entry"
  by (simp add: in_scope_def is_exact_def glob_matches_literal)

lemma in_scope_update [simp]:
  "in_scope (entry\<lparr>se_calls := c\<rparr>) = in_scope entry"
  "in_scope (entry\<lparr>se_kind := k\<rparr>) = in_scope entry"
  "in_scope (entry\<lparr>se_degraded := d\<rparr>) = in_scope entry"
  by (auto simp: in_scope_def fun_eq_iff)

lemma effective_cursor_update [simp]:
  "effective_cursor (entry\<lparr>se_calls := c\<rparr>) = effective_cursor entry"
  "effective_cursor (entry\<lparr>se_kind := k\<rparr>) = effective_cursor entry"
  "effective_cursor (entry\<lparr>se_degraded := d\<rparr>) = effective_cursor entry"
  "effective_cursor entry (pc\<lparr>pc_queue := q\<rparr>) = effective_cursor entry pc"
  "effective_cursor entry (pc\<lparr>pc_open := b\<rparr>) = effective_cursor entry pc"
  "effective_cursor entry (pc\<lparr>pc_waiting := b\<rparr>) = effective_cursor entry pc"
  by (auto simp: effective_cursor_def fun_eq_iff)

section \<open>Operations on one entry\<close>

locale entry_op =
  fixes f :: "stored_event \<Rightarrow> subscriber_entry \<Rightarrow> subscriber_entry"
    and admits :: "stored_event list \<Rightarrow> stored_event \<Rightarrow> stored_event list \<Rightarrow> bool"
  assumes keeps: "admits log event log' \<Longrightarrow> entry_ok log entry \<Longrightarrow> entry_ok log' (f event entry)"
    and grows: "admits log event log' \<Longrightarrow> set log \<subseteq> set log'"
begin

lemma entry_ok_grows: "admits log event log' \<Longrightarrow> entry_ok log entry \<Longrightarrow> entry_ok log' entry"
  using grows unfolding entry_ok_def by blast

lemma all_entries:
  assumes "admits log event log'" and "\<forall>(i, entry) \<in> set es. entry_ok log entry"
  shows "\<forall>(i, entry) \<in> set (map (\<lambda>(i, entry). (i, f event entry)) es). entry_ok log' entry"
  using assms keeps by fastforce

lemma one_entry:
  assumes "admits log event log'" and "\<forall>(i, entry) \<in> set es. entry_ok log entry"
  shows "\<forall>(i, entry) \<in> set (map (\<lambda>(i, entry). (i, if i = k then f event entry else entry)) es).
    entry_ok log' entry"
  using assms keeps entry_ok_grows by fastforce

end

definition same_log :: "stored_event list \<Rightarrow> stored_event \<Rightarrow> stored_event list \<Rightarrow> bool" where
  "same_log log event log' \<longleftrightarrow> log' = log"

definition published :: "stored_event list \<Rightarrow> stored_event \<Rightarrow> stored_event list \<Rightarrow> bool" where
  "published log event log' \<longleftrightarrow> log' = log \<and> event \<in> set log"

definition committed :: "stored_event list \<Rightarrow> stored_event \<Rightarrow> stored_event list \<Rightarrow> bool" where
  "committed log event log' \<longleftrightarrow> log' = log @ [event] \<and> commits log event"

lemma handler_take_ok: "entry_ok log entry \<Longrightarrow> entry_ok log (handler_take entry)"
proof (cases "se_kind entry")
  case (PostCommit pc)
  assume ok: "entry_ok log entry"
  show ?thesis
  proof (cases "pc_queue pc")
    case Nil
    with ok PostCommit show ?thesis by (simp add: handler_take_def)
  next
    case (Cons e q)
    with ok PostCommit have "in_order ((se_calls entry @ [e]) @ q)" by (simp add: entry_ok_def received_def)
    with ok PostCommit Cons in_order_prefix [OF this] show ?thesis
      by (auto simp: handler_take_def Let_def entry_ok_def received_def)
  qed
qed (simp add: handler_take_def)

lemma handler_wait_ok: "entry_ok log entry \<Longrightarrow> entry_ok log (handler_wait entry)"
  by (auto simp: handler_wait_def entry_ok_def received_def split: subscriber_kind.splits)

lemma sync_call_ok:
  assumes "commits log event" and "entry_ok log entry"
  shows "entry_ok (log @ [event]) (fst (sync_call event entry))"
proof (cases "in_scope entry event \<and> \<not> se_degraded entry \<and> se_kind entry = Synchronous")
  case True
  with assms show ?thesis
    by (auto simp: sync_call_def Let_def entry_ok_def received_def in_order_append commits_def
        in_scope_def)
next
  case False
  with assms show ?thesis
    by (auto simp: sync_call_def entry_ok_def split: subscriber_kind.splits)
qed

lemma advanced_cursor:
  assumes "in_scope entry event" and "in_scope entry e" and "ver e \<le> effective_cursor entry pc e \<or> e = event"
    and "se_kind (advance_cursor event (entry\<lparr>se_kind := PostCommit pc\<rparr>)) = PostCommit pc'"
  shows "ver e \<le> effective_cursor entry pc' e"
  using assms exact_stream [OF assms(1)] exact_stream [OF assms(2)]
  by (auto simp: advance_cursor_def Let_def effective_cursor_def update_conv' split: if_splits option.splits)

lemma not_degraded_update:
  "\<not> se_degraded entry \<Longrightarrow> entry\<lparr>se_kind := k, se_degraded := False\<rparr> = entry\<lparr>se_kind := k\<rparr>"
  by (cases entry) simp

lemma post_commit_call_ok:
  assumes "event \<in> set log" and ok: "entry_ok log entry"
  shows "entry_ok log (post_commit_call event entry)"
proof (cases "snd (send_to event entry) = Some Sent")
  case False
  then have "post_commit_call event entry = entry \<or>
      post_commit_call event entry = entry\<lparr>se_kind := se_kind entry, se_degraded := True\<rparr>"
    by (auto simp: post_commit_call_def send_to_def try_send_def Let_def
        split: subscriber_kind.splits if_splits)
  with ok show ?thesis
    by (auto simp: entry_ok_def received_def split: subscriber_kind.splits)
next
  case True
  then obtain pc where pc: "se_kind entry = PostCommit pc" and scope: "in_scope entry event"
    and new: "effective_cursor entry pc event < ver event"
    and call: "post_commit_call event entry =
      advance_cursor event (entry\<lparr>se_kind := PostCommit (pc\<lparr>pc_queue := pc_queue pc @ [event]\<rparr>)\<rparr>)"
    by (auto simp: post_commit_call_def send_to_def try_send_def Let_def not_degraded_update
        split: subscriber_kind.splits if_splits)
  obtain pc' where pc': "se_kind (post_commit_call event entry) = PostCommit pc'"
      "pc_queue pc' = pc_queue pc @ [event]"
    and rest: "post_commit_call event entry = entry\<lparr>se_kind := PostCommit pc'\<rparr>"
    by (auto simp: call advance_cursor_def Let_def)
  have recv: "received (post_commit_call event entry) = received entry @ [event]"
    by (simp add: rest received_def pc pc'(2))
  have earlier: "ver x < ver event" if "x \<in> set (received entry)" "ev_stream_id x = ev_stream_id event" for x
  proof -
    have "in_scope entry x" "ver x \<le> effective_cursor entry pc x"
      using ok that(1) pc by (auto simp: entry_ok_def)
    moreover have "effective_cursor entry pc x = effective_cursor entry pc event"
      using that(2) \<open>in_scope entry x\<close> scope by (simp add: effective_cursor_def in_scope_def)
    ultimately show ?thesis using new by simp
  qed
  have "in_order (received entry @ [event])"
    using ok earlier by (simp add: in_order_append entry_ok_def)
  moreover have "ver x \<le> effective_cursor entry pc' x" if "x \<in> set (received entry @ [event])" for x
    using that ok pc scope pc'(1)
    by (intro advanced_cursor [of entry event x "pc\<lparr>pc_queue := pc_queue pc @ [event]\<rparr>"])
      (auto simp: entry_ok_def call)
  ultimately show ?thesis
    using ok assms(1) scope unfolding entry_ok_def recv by (auto simp: rest)
qed

interpretation take: entry_op "\<lambda>_. handler_take" same_log
  by unfold_locales (auto simp: same_log_def handler_take_ok)

interpretation waits: entry_op "\<lambda>_. handler_wait" same_log
  by unfold_locales (auto simp: same_log_def handler_wait_ok)

interpretation sync: entry_op "\<lambda>event entry. fst (sync_call event entry)" committed
  by unfold_locales (auto simp: committed_def sync_call_ok)

interpretation post: entry_op post_commit_call published
  by unfold_locales (auto simp: published_def post_commit_call_ok)

section \<open>Order and uniqueness\<close>

definition delivery_ok :: "delivery \<Rightarrow> bool" where
  "delivery_ok st \<longleftrightarrow>
     set (dl_channel st) \<subseteq> set (dl_log st) \<and>
     (\<forall>(i, entry) \<in> set (rg_entries (dl_registry st)). entry_ok (dl_log st) entry)"

lemma new_entry_ok: "entry_ok log (new_entry q mode c cs h)"
  by (auto simp: entry_ok_def received_def new_entry_def in_order_def split: subscription_mode.splits)

lemma set_update: "x \<in> set (AList.update k v es) \<Longrightarrow> x = (k, v) \<or> x \<in> set es"
  by (induction es) (auto split: if_splits)

lemma delivery_step_ok: "delivery_step st st' \<Longrightarrow> delivery_ok st \<Longrightarrow> delivery_ok st'"
proof (induction rule: delivery_step.induct)
  case (commit st e)
  then show ?case
    using sync.entry_ok_grows [of "dl_log st" e "dl_log st @ [e]"]
    by (fastforce simp: delivery_ok_def committed_def)
next
  case (commit_notify st e)
  then show ?case
    using sync.all_entries [of "dl_log st" e "dl_log st @ [e]" "rg_entries (dl_registry st)"]
    by (auto simp: delivery_ok_def committed_def dispatch_sync_def)
next
  case (dispatch st e channel)
  then show ?case
    using post.all_entries [of "dl_log st" e "dl_log st" "rg_entries (dl_registry st)"]
    by (auto simp: delivery_ok_def published_def dispatcher_receives_def dispatch_post_commit_def)
next
  case (handle st i)
  then show ?case
    using take.one_entry [of "dl_log st" undefined "dl_log st" "rg_entries (dl_registry st)" i]
    by (auto simp: delivery_ok_def same_log_def update_entry_def)
next
  case (wait st i)
  then show ?case
    using waits.one_entry [of "dl_log st" undefined "dl_log st" "rg_entries (dl_registry st)" i]
    by (auto simp: delivery_ok_def same_log_def update_entry_def)
next
  case (subscribe st q mode cursor cursors h)
  then show ?case
    by (auto simp: delivery_ok_def registry_subscribe_def Let_def new_entry_ok dest!: set_update)
next
  case (unsubscribe st i)
  then show ?case
    by (auto simp: delivery_ok_def registry_unsubscribe_def AList.delete_eq)
qed (auto simp: delivery_ok_def)

lemma delivery_reachable_ok: "delivery_step\<^sup>*\<^sup>* delivery_start st \<Longrightarrow> delivery_ok st"
proof (induction rule: rtranclp_induct)
  case base
  show ?case by (simp add: delivery_ok_def delivery_start_def registry_new_def)
next
  case (step y z)
  then show ?case by (blast intro: delivery_step_ok)
qed

text \<open>
  C4. However the threads interleave and in whatever order and however often committed events are
  sent to the dispatcher, a subscriber receives only committed events in its scope, and of every
  stream each at most once and in increasing order of version.
\<close>

theorem delivery_in_order:
  assumes "delivery_step\<^sup>*\<^sup>* delivery_start st"
    and "(i, entry) \<in> set (rg_entries (dl_registry st))"
  shows "(\<forall>e \<in> set (received entry). e \<in> set (dl_log st) \<and> in_scope entry e) \<and>
    (\<forall>s. sorted_wrt (<) (map ver (filter (\<lambda>e. ev_stream_id e = s) (received entry))))"
proof -
  have "entry_ok (dl_log st) entry"
    using delivery_reachable_ok [OF assms(1)] assms(2) by (auto simp: delivery_ok_def)
  then show ?thesis by (simp add: entry_ok_def in_order_def)
qed

section \<open>Events that are dropped\<close>

text \<open>An event whose version is not above the cursor is not sent, and nothing records that.\<close>

lemma late_event_ignored:
  "se_kind entry = PostCommit pc \<Longrightarrow> ver event \<le> effective_cursor entry pc event \<Longrightarrow>
    post_commit_call event entry = entry"
  by (simp add: post_commit_call_def send_to_def)

text \<open>Two appends to \<open>a/b\<close> and a subscriber with room for eight events.\<close>

definition demo_event :: "u64 \<Rightarrow> stored_event" where
  "demo_event v =
     \<lparr>ev_id = EventId [ucast v], ev_stream_id = ''a/b'', ev_branch = ''main'', ev_version = v,
      ev_timestamp_us = 4, ev_causation_id = None, ev_correlation_id = None,
      ev_event_type = ''Ping'', ev_type_version = 1, ev_payload = [1, 2],
      ev_external_id = None, ev_indexed_tags = None\<rparr>"

definition demo_subscriber :: "stored_event list \<Rightarrow> i64 \<Rightarrow> subscriber_entry" where
  "demo_subscriber queue cursor =
     \<lparr>se_stream_pattern = ''a/b'', se_branch = ''main'', se_include_system = False,
      se_degraded = False,
      se_kind = PostCommit \<lparr>pc_queue = queue, pc_capacity = 8, pc_open = True, pc_waiting = False,
        pc_wal_cursor = cursor, pc_stream_cursors = []\<rparr>,
      se_handler = (\<lambda>calls e. False), se_calls = []\<rparr>"

definition demo_delivery :: "stored_event list \<Rightarrow> stored_event list \<Rightarrow> subscriber_entry \<Rightarrow> delivery" where
  "demo_delivery log channel entry =
     \<lparr>dl_log = log, dl_channel = channel,
      dl_registry = \<lparr>rg_entries = [(1, entry)], rg_next_id = 2\<rparr>\<rparr>"

lemma demo_event_simps [simp]:
  "ev_stream_id (demo_event v) = ''a/b''" "ev_branch (demo_event v) = ''main''"
  "ev_version (demo_event v) = v" "as_i64 0 = 0" "as_i64 1 = 1"
  by (simp_all add: demo_event_def as_i64_def)

lemma demo_in_scope [simp]: "in_scope (demo_subscriber queue cursor) (demo_event v)"
  by (simp add: in_scope_def demo_subscriber_def glob_matches_literal)

lemma demo_subscriber_simps [simp]:
  "se_stream_pattern (demo_subscriber queue cursor) = ''a/b''"
  "se_degraded (demo_subscriber queue cursor) = False"
  "se_kind (demo_subscriber queue cursor) = PostCommit \<lparr>pc_queue = queue, pc_capacity = 8,
     pc_open = True, pc_waiting = False, pc_wal_cursor = cursor, pc_stream_cursors = []\<rparr>"
  "is_exact ''a/b''"
  by (simp_all add: demo_subscriber_def is_exact_def)

lemma demo_dispatch:
  assumes "cursor < as_i64 v" and "length queue < 8"
  shows "post_commit_call (demo_event v) (demo_subscriber queue cursor) =
    demo_subscriber (queue @ [demo_event v]) (as_i64 v)"
proof -
  have "effective_cursor (demo_subscriber queue cursor) pc (demo_event v) = pc_wal_cursor pc" for pc
    by (simp add: effective_cursor_def)
  moreover have "max cursor (as_i64 v) = as_i64 v" using assms(1) by simp
  ultimately show ?thesis
    using assms
    by (simp add: post_commit_call_def send_to_def try_send_def advance_cursor_def Let_def)
      (simp add: demo_subscriber_def)
qed


theorem delivery_in_order_witness:
  "\<exists>st. delivery_step\<^sup>*\<^sup>* delivery_start st \<and>
     (\<forall>e \<in> set (received (demo_subscriber [] (- 1))). e \<in> set (dl_log st))"
proof -
  have "delivery_step delivery_start (demo_delivery [] [] (demo_subscriber [] (- 1)))"
    using delivery_step.subscribe [of delivery_start "subscribe_query_stream ''a/b''"
        "ModePostCommit 8" "- 1" "[]" "\<lambda>_ _. False"]
    by (simp add: delivery_start_def registry_new_def registry_subscribe_def new_entry_def
        demo_delivery_def demo_subscriber_def subscribe_query_stream_def)
  then have reach: "delivery_step\<^sup>*\<^sup>* delivery_start (demo_delivery [] [] (demo_subscriber [] (- 1)))"
    by blast
  show ?thesis
    using delivery_in_order [OF reach, of 1 "demo_subscriber [] (- 1)"] reach
    by (intro exI [of _ "demo_delivery [] [] (demo_subscriber [] (- 1))"])
      (simp add: demo_delivery_def)
qed

section \<open>Events that arrive\<close>

text \<open>Sending in order with room in the queue delivers.\<close>

lemma post_commit_call_delivers:
  assumes "se_kind entry = PostCommit pc" and "pc_open pc" and "\<not> se_degraded entry"
    and "length (pc_queue pc) < pc_capacity pc"
    and "in_scope entry event" and "effective_cursor entry pc event < ver event"
  obtains pc' where "post_commit_call event entry = entry\<lparr>se_kind := PostCommit pc'\<rparr>"
    and "pc_queue pc' = pc_queue pc @ [event]" and "pc_open pc'" and "pc_capacity pc' = pc_capacity pc"
    and "\<And>e. in_scope entry e \<Longrightarrow> effective_cursor entry pc' e =
      (if ev_stream_id e = ev_stream_id event then ver event else effective_cursor entry pc e)"
proof -
  let ?pc = "pc\<lparr>pc_queue := pc_queue pc @ [event]\<rparr>"
  have "post_commit_call event entry = advance_cursor event (entry\<lparr>se_kind := PostCommit ?pc\<rparr>)"
    using assms by (simp add: post_commit_call_def send_to_def try_send_def not_degraded_update)
  then obtain pc' where pc': "post_commit_call event entry = entry\<lparr>se_kind := PostCommit pc'\<rparr>"
    "advance_cursor event (entry\<lparr>se_kind := PostCommit ?pc\<rparr>) = entry\<lparr>se_kind := PostCommit pc'\<rparr>"
    by (auto simp: advance_cursor_def Let_def)
  have k: "se_kind (entry\<lparr>se_kind := PostCommit pc'\<rparr>) = PostCommit pc'" by simp
  note kind = arg_cong [OF pc'(2), of se_kind, unfolded k]
  have "effective_cursor entry pc' e =
      (if ev_stream_id e = ev_stream_id event then ver event else effective_cursor entry pc e)"
    if "in_scope entry e" for e
    using kind assms(5,6) that exact_stream [OF assms(5)] exact_stream [OF that]
    by (auto simp: advance_cursor_def Let_def effective_cursor_def update_conv' in_scope_def
        split: if_splits option.splits)
  moreover have "pc_queue pc' = pc_queue pc @ [event]" "pc_open pc'" "pc_capacity pc' = pc_capacity pc"
    using kind assms(2) by (auto simp: advance_cursor_def Let_def split: if_splits)
  ultimately show ?thesis using that pc'(1) by blast
qed

lemma in_order_events_queued:
  assumes "se_kind entry = PostCommit pc" and "pc_open pc" and "\<not> se_degraded entry"
    and "length (pc_queue pc) + length events \<le> pc_capacity pc"
    and "\<forall>e \<in> set events. in_scope entry e \<and> effective_cursor entry pc e < ver e"
    and "in_order events"
  shows "received (fold post_commit_call events entry) = received entry @ events \<and>
    \<not> se_degraded (fold post_commit_call events entry)"
  using assms
proof (induction events arbitrary: entry pc)
  case (Cons e events)
  from Cons.prems obtain pc' where call: "post_commit_call e entry = entry\<lparr>se_kind := PostCommit pc'\<rparr>"
      "pc_queue pc' = pc_queue pc @ [e]" "pc_open pc'" "pc_capacity pc' = pc_capacity pc"
    and cursor: "\<And>x. in_scope entry x \<Longrightarrow> effective_cursor entry pc' x =
      (if ev_stream_id x = ev_stream_id e then ver e else effective_cursor entry pc x)"
    by (elim post_commit_call_delivers [of entry pc e]) auto
  have later: "ver e < ver x" if "x \<in> set events" "ev_stream_id x = ev_stream_id e" for x
    using Cons.prems(6) that unfolding in_order_def by (auto dest!: spec [of _ "ev_stream_id e"])
  have "in_order events"
    using Cons.prems(6) unfolding in_order_def by (auto split: if_splits dest: spec)
  then have "received (fold post_commit_call events (entry\<lparr>se_kind := PostCommit pc'\<rparr>)) =
      received (entry\<lparr>se_kind := PostCommit pc'\<rparr>) @ events \<and>
      \<not> se_degraded (fold post_commit_call events (entry\<lparr>se_kind := PostCommit pc'\<rparr>))"
    using Cons.prems call cursor later by (intro Cons.IH [of _ pc']) auto
  then show ?case using Cons.prems(1) call by (simp add: received_def)
qed (simp add: received_def)

text \<open>
  Events that are sent to the dispatcher in order of version, all above the cursor, to a
  subscription that is in good standing and has room for them, are all queued for its handler, in
  this order, and the subscription stays in good standing.
\<close>

theorem in_order_events_arrive:
  assumes "se_kind entry = PostCommit pc" and "pc_open pc" and "\<not> se_degraded entry"
    and "length (pc_queue pc) + length events \<le> pc_capacity pc"
    and "\<forall>e \<in> set events. in_scope entry e \<and> effective_cursor entry pc e < ver e"
    and "in_order events"
  shows "received (fold post_commit_call events entry) = received entry @ events \<and>
    \<not> se_degraded (fold post_commit_call events entry)"
  by (rule in_order_events_queued [OF assms])

theorem in_order_events_arrive_witness:
  "received (fold post_commit_call [demo_event 0, demo_event 1] (demo_subscriber [] (- 1))) =
     [demo_event 0, demo_event 1]"
  using in_order_events_arrive [of "demo_subscriber [] (- 1)" _ "[demo_event 0, demo_event 1]"]
    demo_in_scope [of "[]" "- 1"]
  by (simp add: demo_subscriber_def in_order_def received_def effective_cursor_def is_exact_def)

text \<open>
  A handler that panics ends its thread. Its subscription then drops every further event and is
  never marked degraded.
\<close>

lemma dead_handler_silent:
  assumes "se_kind entry = PostCommit pc" and "\<not> pc_open pc"
  shows "post_commit_call event entry = entry"
proof -
  have "se_degraded entry \<Longrightarrow> in_scope entry event \<Longrightarrow> post_commit_call event entry = entry"
    using assms by (simp add: post_commit_call_def send_to_def)
  moreover have "\<not> se_degraded entry \<Longrightarrow> post_commit_call event entry = entry"
    using assms by (cases entry) (auto simp: post_commit_call_def send_to_def try_send_def)
  ultimately show ?thesis
    using assms by (cases "in_scope entry event") (auto simp: post_commit_call_def send_to_def)
qed

end
