(* ===== verification/Wal_Watch.thy ===== *)
theory Wal_Watch
  imports Delivery Paging
begin

text \<open>
  The WAL watcher (\<open>src/wal_watch.rs\<close>): on a change of the file it collects the cursors of the
  post-commit subscriptions, expands glob patterns over the declared streams, and sends the
  events after the smallest cursor of every stream and branch to the dispatcher.
\<close>

section \<open>Operations\<close>

definition list_all_streams :: "db \<Rightarrow> string list" where
  "list_all_streams d = map st_id (t_streams d)"

definition rows_after :: "db \<Rightarrow> string \<Rightarrow> string \<Rightarrow> i64 \<Rightarrow> event_row list" where
  "rows_after d s b after_version =
     sort_key r_version
       (filter (\<lambda>r. r_stream_id r = s \<and> r_branch r = b \<and> after_version < r_version r) (t_events d))"

definition fetch_events_after :: "libs \<Rightarrow> db \<Rightarrow> string \<Rightarrow> string \<Rightarrow> i64 \<Rightarrow> stored_event list res" where
  "fetch_events_after L d s b after_version = rows_to_events L (rows_after d s b after_version)"

text \<open>The smallest cursor per stream and branch, over the cursors in the order they come.\<close>

definition insert_min ::
  "i64 \<Rightarrow> string \<times> string \<Rightarrow> ((string \<times> string) \<times> i64) list \<Rightarrow> ((string \<times> string) \<times> i64) list" where
  "insert_min cursor key groups =
     AList.update key (case map_of groups key of None \<Rightarrow> cursor | Some m \<Rightarrow> min m cursor) groups"

definition group_streams :: "string list \<Rightarrow> string \<Rightarrow> string list" where
  "group_streams all_streams pattern =
     (if is_exact pattern then [pattern] else filter (glob_matches pattern) all_streams)"

definition group_min ::
  "string list \<Rightarrow> (u64 \<times> string \<times> string \<times> i64) list \<Rightarrow> ((string \<times> string) \<times> i64) list" where
  "group_min all_streams cursors =
     fold (\<lambda>(_, pattern, branch, cursor).
         fold (\<lambda>s. insert_min cursor (s, branch)) (group_streams all_streams pattern)) cursors []"

definition scan_group :: "libs \<Rightarrow> db \<Rightarrow> (string \<times> string) \<times> i64 \<Rightarrow> stored_event list" where
  "scan_group L d g =
     (let ((s, b), min_cursor) = g
      in case fetch_events_after L d s b min_cursor of Inl _ \<Rightarrow> [] | Inr events \<Rightarrow> events)"

text \<open>The events one notification sends to the dispatch channel.\<close>

definition wal_scan :: "libs \<Rightarrow> db \<Rightarrow> registry \<Rightarrow> stored_event list" where
  "wal_scan L d rg =
     (let cursors = post_commit_cursors rg
      in concat (map (scan_group L d) (group_min (list_all_streams d) cursors)))"

text \<open>
  One turn of the loop: whether the notification names the WAL file, and the data version SQLite
  reports (none when that fails). Gives the last version seen and what is sent.
\<close>

definition scan_turn ::
  "libs \<Rightarrow> db \<Rightarrow> registry \<Rightarrow> bool \<Rightarrow> i64 option \<Rightarrow> i64 \<Rightarrow> i64 \<times> stored_event list" where
  "scan_turn L d rg relevant current_version last_data_version =
     (if \<not> relevant then (last_data_version, [])
      else case current_version of
        None \<Rightarrow> (last_data_version, [])
      | Some v \<Rightarrow>
          if v = last_data_version then (last_data_version, []) else (v, wal_scan L d rg))"

section \<open>The smallest cursors\<close>

definition cursor_below :: "((string \<times> string) \<times> i64) list \<Rightarrow> string \<times> string \<Rightarrow> i64 \<Rightarrow> bool" where
  "cursor_below groups key c \<longleftrightarrow> (\<exists>m. map_of groups key = Some m \<and> m \<le> c)"

lemma insert_min_below: "cursor_below (insert_min c key groups) key c"
  by (auto simp: cursor_below_def insert_min_def update_conv' split: option.splits)

lemma insert_min_keeps: "cursor_below groups key c \<Longrightarrow> cursor_below (insert_min c' key' groups) key c"
  by (auto simp: cursor_below_def insert_min_def update_conv' split: option.splits)

lemma fold_insert_min_keeps:
  "cursor_below groups key c \<Longrightarrow>
   cursor_below (fold (\<lambda>s. insert_min c' (s, b)) streams groups) key c"
  by (induction streams arbitrary: groups) (auto intro: insert_min_keeps)

lemma fold_insert_min_below:
  "s \<in> set streams \<Longrightarrow> cursor_below (fold (\<lambda>s. insert_min c (s, b)) streams groups) (s, b) c"
  by (induction streams arbitrary: groups) (auto intro: fold_insert_min_keeps insert_min_below)

lemma group_min_below:
  assumes "(i, pattern, b, c) \<in> set cursors" and "s \<in> set (group_streams all_streams pattern)"
  shows "cursor_below (group_min all_streams cursors) (s, b) c"
proof -
  let ?add = "\<lambda>(_, pattern, branch, cursor).
         fold (\<lambda>s. insert_min cursor (s, branch)) (group_streams all_streams pattern)"
  have keeps: "cursor_below groups (s, b) c \<Longrightarrow> cursor_below (fold ?add cs groups) (s, b) c" for cs groups
    by (induction cs arbitrary: groups) (auto intro: fold_insert_min_keeps)
  have "cursor_below (fold ?add cursors groups) (s, b) c" for groups
    using assms(1)
    by (induction cursors arbitrary: groups)
      (auto intro: keeps fold_insert_min_below [OF assms(2)])
  then show ?thesis by (simp add: group_min_def)
qed

section \<open>Catching up\<close>

lemma post_commit_call_skips:
  assumes "se_kind entry = PostCommit pc"
    and "\<not> in_scope entry event \<or> ver event \<le> effective_cursor entry pc event"
  shows "post_commit_call event entry = entry"
  using assms by (auto simp: post_commit_call_def send_to_def)

lemma fold_skips:
  assumes "se_kind entry = PostCommit pc"
    and "\<forall>e \<in> set events. \<not> in_scope entry e \<or> ver e \<le> effective_cursor entry pc e"
  shows "fold post_commit_call events entry = entry"
  using assms(2) by (induction events) (auto simp: post_commit_call_skips [OF assms(1)])

lemma rows_after_split:
  assumes "start \<le> c"
  shows "rows_after d s b start = filter (\<lambda>r. r_version r \<le> c) (rows_after d s b start) @ rows_after d s b c"
proof -
  have "filter (\<lambda>r. c < r_version r) (rows_after d s b start) = rows_after d s b c"
    using assms unfolding rows_after_def filter_sort
    by (auto intro!: arg_cong [where f = "sort_key r_version"] filter_cong)
  moreover have "sorted (map r_version (rows_after d s b start))" by (simp add: rows_after_def)
  ultimately show ?thesis using filter_upto_split [of r_version "rows_after d s b start" c] by simp
qed

lemma rows_after_range:
  assumes "log_wf L d"
  shows "rows_after d s b c = select_range d s b (c + 1) i64_max None"
  using assms unfolding rows_after_def select_range_def
  by (auto simp: log_wf_def type_filter_ok_def less_imp_le
      intro!: arg_cong [where f = "sort_key r_version"] filter_cong)

lemma stored_version:
  assumes "log_wf L d" and "r \<in> set (rows_after d s b c)"
  shows "ver (event_of L r) = r_version r" and "ev_stream_id (event_of L r) = s"
    and "ev_branch (event_of L r) = b" and "r_version r > c"
proof -
  from assms have r: "r \<in> set (t_events d)" "r_stream_id r = s" "r_branch r = b" "r_version r > c"
    by (auto simp: rows_after_def)
  with assms(1) have "row_readable L r" "0 \<le> r_version r" "r_version r < i64_max"
    by (auto simp: log_wf_def rows_readable_def events_wf_def)
  with r show "ver (event_of L r) = r_version r" "ev_stream_id (event_of L r) = s"
    "ev_branch (event_of L r) = b" "r_version r > c"
    by (simp_all add: event_of_simps as_i64_as_u64)
qed

lemma in_order_sorted: "sorted_wrt (<) (map ver es) \<Longrightarrow> in_order es"
  unfolding in_order_def sorted_wrt_map by (blast intro: sorted_wrt_filter)

lemma in_order_rows_after:
  assumes "log_wf L d"
  shows "in_order (map (event_of L) (rows_after d s b c))"
proof -
  have "sorted_wrt (<) (map r_version (rows_after d s b c))"
    unfolding rows_after_range [OF assms] by (rule log_wf_range(2) [OF assms])
  moreover have "map ver (map (event_of L) (rows_after d s b c)) = map r_version (rows_after d s b c)"
    using stored_version(1) [OF assms] by simp
  ultimately have "sorted_wrt (<) (map ver (map (event_of L) (rows_after d s b c)))" by (simp only:)
  then show ?thesis by (rule in_order_sorted)
qed


definition demo_registry :: "subscriber_entry \<Rightarrow> registry" where
  "demo_registry entry = \<lparr>rg_entries = [(1, entry)], rg_next_id = 2\<rparr>"

lemma demo_rows_after:
  "rows_after demo_log ''a/b'' ''main'' 0 = [demo_row 1]"
  "rows_after demo_log ''a/b'' ''main'' (- 1) = [demo_row 0, demo_row 1]"
  by (simp_all add: rows_after_def demo_log_def demo_row_def)


section \<open>Streams a glob subscription has not seen\<close>

text \<open>
  A scan for a glob subscription starts at the smallest cursor of the streams it has seen, also
  in a stream it has not seen: events of a new stream up to that version are not found.
\<close>

definition demo_glob_subscriber :: subscriber_entry where
  "demo_glob_subscriber =
     new_entry (subscribe_query_stream ''**'') (ModePostCommit 8) (- 1) [((''c/d'', ''main''), 5)]
       (\<lambda>calls e. False)"

text \<open>
  A subscription to all streams that has seen version 5 of one stream misses, in a scan, the
  two events another process has written to a new stream, although both are in its scope, above
  what its cursor for that stream says, and the queue is empty.
\<close>

theorem glob_scan_misses_new_stream:
  "\<exists>pc. se_kind demo_glob_subscriber = PostCommit pc \<and> pc_queue pc = [] \<and>
     (\<forall>r \<in> {demo_row 0, demo_row 1}. r \<in> set (t_events demo_log) \<and>
        in_scope demo_glob_subscriber (event_of demo_libs r) \<and>
        effective_cursor demo_glob_subscriber pc (event_of demo_libs r) < ver (event_of demo_libs r)) \<and>
     wal_scan demo_libs demo_log (demo_registry demo_glob_subscriber) = []"
proof -
  have stored: "ev_stream_id (event_of demo_libs (demo_row v)) = ''a/b''"
    "ev_branch (event_of demo_libs (demo_row v)) = ''main''"
    "ev_version (event_of demo_libs (demo_row v)) = as_u64 v" for v
  proof -
    have "row_readable demo_libs (demo_row v)" by (simp add: row_readable_tags demo_row_def)
    then show "ev_stream_id (event_of demo_libs (demo_row v)) = ''a/b''"
      "ev_branch (event_of demo_libs (demo_row v)) = ''main''"
      "ev_version (event_of demo_libs (demo_row v)) = as_u64 v"
      by (simp_all add: event_of_simps demo_row_def)
  qed
  have all: "glob_matches p ''a/b''" if "p = ''**''" for p using that glob_matches_all by simp
  have v: "ver (event_of demo_libs (demo_row v)) = v" if "v = 0 \<or> v = 1" for v
    using that by (auto simp: stored as_i64_as_u64 i64_max_def)
  have glob: "\<not> is_exact ''**''" by (simp add: is_exact_def)
  have cursors: "post_commit_cursors (demo_registry demo_glob_subscriber) = [(1, ''**'', ''main'', 5)]"
    using glob by (simp add: post_commit_cursors_def List.map_filter_def demo_registry_def
        demo_glob_subscriber_def new_entry_def subscribe_query_stream_def scan_cursor_def)
  have groups: "group_min [''a/b''] [(1, ''**'', ''main'', 5)] = [((''a/b'', ''main''), 5)]"
    using glob all by (simp add: group_min_def group_streams_def insert_min_def)
  have "scan_group demo_libs demo_log ((''a/b'', ''main''), 5) = []"
    by (simp add: scan_group_def fetch_events_after_def rows_after_def demo_log_def demo_row_def
        rows_to_events_readable)
  then have "wal_scan demo_libs demo_log (demo_registry demo_glob_subscriber) = []"
    using groups by (simp add: wal_scan_def cursors list_all_streams_def demo_log_def demo_db_def)
  moreover have "in_scope demo_glob_subscriber (event_of demo_libs (demo_row v))" for v
    using all by (simp add: in_scope_def demo_glob_subscriber_def new_entry_def
        subscribe_query_stream_def stored)
  moreover have "effective_cursor demo_glob_subscriber \<lparr>pc_queue = [], pc_capacity = 8, pc_open = True,
      pc_waiting = False, pc_wal_cursor = - 1, pc_stream_cursors = [((''c/d'', ''main''), 5)]\<rparr>
      (event_of demo_libs (demo_row v)) = - 1" for v
    using glob by (simp add: effective_cursor_def demo_glob_subscriber_def new_entry_def
        subscribe_query_stream_def stored)
  ultimately show ?thesis
    using v by (simp add: demo_log_def) (simp add: demo_glob_subscriber_def new_entry_def)
qed

end
