(* ===== verification/Causation.thy ===== *)
theory Causation
  imports Paging
begin

text \<open>
  Walking the causation graph (\<open>walk_causation_impl\<close> and \<open>walk_causation_bounded_impl\<close> in
  \<open>src/cross_stream.rs\<close>). The unbounded walks are recursive queries, modelled as the levels the
  recursion visits; the bounded walk is a breadth-first search in the code. Both are related to
  the edges between events: the locale \<open>level_walk\<close> states what one expansion step returns and
  gives what the levels contain.
\<close>

section \<open>Operations\<close>

datatype walk_direction = Forward | Backward | Both

subsection \<open>Recursive queries\<close>

text \<open>
  The identities a recursive query adds at depth 1, 2 and so on, up to the bound; the query stops
  when a depth adds nothing. An identity may occur at several depths.
\<close>

fun query_levels ::
  "(event_id list \<Rightarrow> event_id list) \<Rightarrow> nat \<Rightarrow> event_id list \<Rightarrow> event_id list list" where
  "query_levels expand 0 ids = []"
| "query_levels expand (Suc n) ids =
     (if expand ids = [] then [] else expand ids # query_levels expand n (expand ids))"

definition children :: "db \<Rightarrow> event_id list \<Rightarrow> event_id list" where
  "children d ids =
     map r_id (filter (\<lambda>r. \<exists>i \<in> set ids. r_causation_id r = Some i) (t_events d))"

definition causes :: "db \<Rightarrow> event_id list \<Rightarrow> event_id list" where
  "causes d ids =
     List.map_filter r_causation_id (filter (\<lambda>r. r_id r \<in> set ids) (t_events d))"

definition depth_bound :: "nat \<Rightarrow> nat" where
  "depth_bound max_depth = (if int max_depth \<le> i64_max then max_depth else nat i64_max)"

text \<open>\<open>MIN(depth)\<close> of an identity: the position of the first level it occurs in.\<close>

fun min_depth :: "event_id list list \<Rightarrow> event_id \<Rightarrow> nat" where
  "min_depth [] i = 0"
| "min_depth (l # ls) i = (if i \<in> set l then 1 else Suc (min_depth ls i))"

text \<open>The join with the events and \<open>ORDER BY bfs_depth ASC, timestamp_us ASC\<close>.\<close>

definition walk_rows :: "db \<Rightarrow> event_id list list \<Rightarrow> event_row list" where
  "walk_rows d levels =
     sort_key (min_depth levels \<circ> r_id)
       (sort_key r_timestamp_us
         (filter (\<lambda>r. \<exists>l \<in> set levels. r_id r \<in> set l) (t_events d)))"

definition walk_forward :: "libs \<Rightarrow> db \<Rightarrow> event_id \<Rightarrow> nat \<Rightarrow> stored_event list res" where
  "walk_forward L d start max_depth =
     (if max_depth = 0 then Inr []
      else rows_to_events L
        (walk_rows d (query_levels (children d) (depth_bound max_depth) [start])))"

definition walk_backward :: "libs \<Rightarrow> db \<Rightarrow> event_id \<Rightarrow> nat \<Rightarrow> stored_event list res" where
  "walk_backward L d start max_depth =
     (if max_depth = 0 then Inr []
      else rows_to_events L
        (walk_rows d (query_levels (causes d) (depth_bound max_depth) [start])))"

definition merge_walks :: "stored_event list \<Rightarrow> stored_event list \<Rightarrow> stored_event list" where
  "merge_walks fwd bwd = fwd @ filter (\<lambda>e. ev_id e \<notin> ev_id ` set fwd) bwd"

definition walk_causation_impl ::
  "libs \<Rightarrow> db \<Rightarrow> event_id \<Rightarrow> walk_direction \<Rightarrow> nat \<Rightarrow> stored_event list res" where
  "walk_causation_impl L d start direction max_depth =
     (case direction of
        Forward \<Rightarrow> walk_forward L d start max_depth
      | Backward \<Rightarrow> walk_backward L d start max_depth
      | Both \<Rightarrow>
          bind_res (walk_forward L d start max_depth) (\<lambda>fwd.
          bind_res (walk_backward L d start max_depth) (\<lambda>bwd.
            Inr (merge_walks fwd bwd))))"

subsection \<open>The bounded search\<close>

definition bfs_expand_forward :: "libs \<Rightarrow> db \<Rightarrow> event_id list \<Rightarrow> stored_event list res" where
  "bfs_expand_forward L d frontier =
     (if frontier = [] then Inr []
      else bind_res (check_parameters frontier) (\<lambda>_.
        rows_to_events L (sort_key r_id
          (filter (\<lambda>r. \<exists>i \<in> set frontier. r_causation_id r = Some i) (t_events d)))))"

definition bfs_expand_backward :: "libs \<Rightarrow> db \<Rightarrow> event_id list \<Rightarrow> stored_event list res" where
  "bfs_expand_backward L d frontier =
     (if frontier = [] then Inr []
      else bind_res (check_parameters frontier) (\<lambda>_.
        rows_to_events L (sort_key r_id
          (filter (\<lambda>r. r_id r \<in> set (causes d frontier)) (t_events d)))))"

definition expand_frontier ::
  "libs \<Rightarrow> db \<Rightarrow> event_id list \<Rightarrow> walk_direction \<Rightarrow> stored_event list res" where
  "expand_frontier L d frontier direction =
     (case direction of
        Forward \<Rightarrow> bfs_expand_forward L d frontier
      | Backward \<Rightarrow> bfs_expand_backward L d frontier
      | Both \<Rightarrow>
          bind_res (bfs_expand_forward L d frontier) (\<lambda>fwd.
          bind_res (bfs_expand_backward L d frontier) (\<lambda>bwd.
            Inr (sort_key ev_id (merge_walks fwd bwd)))))"

definition apply_bfs_sampling ::
  "stored_event list \<Rightarrow> sampling_mode \<Rightarrow> nat \<Rightarrow> stored_event list" where
  "apply_bfs_sampling events sampling max_depth =
     (case sampling of
        Exhaustive \<Rightarrow> events
      | BreadthFirst max_per_level \<Rightarrow> take max_per_level events
      | Adaptive target_count \<Rightarrow> take (max (target_count div max max_depth 1) 1) events)"

definition dir_byte :: "walk_direction \<Rightarrow> u8" where
  "dir_byte direction = (case direction of Forward \<Rightarrow> 0 | Backward \<Rightarrow> 1 | Both \<Rightarrow> 2)"

definition sum_payloads :: "stored_event list \<Rightarrow> nat" where
  "sum_payloads es = sum_list (map (\<lambda>e. length (ev_payload e)) es)"

text \<open>The search parameters that stay fixed in the loop.\<close>

record walk_params =
  wp_direction :: walk_direction
  wp_max_depth :: nat
  wp_sampling :: sampling_mode
  wp_max_results :: "nat option"
  wp_max_bytes :: "nat option"

function bfs_loop ::
  "libs \<Rightarrow> db \<Rightarrow> walk_params \<Rightarrow> nat \<Rightarrow> event_id list \<Rightarrow> event_id set \<Rightarrow> stored_event list \<Rightarrow> nat \<Rightarrow>
     stored_event list read_outcome res" where
  "bfs_loop L d w depth frontier seen results byte_count =
     (if wp_max_depth w < depth \<or> frontier = [] then Inr (Complete results)
      else bind_res (expand_frontier L d frontier (wp_direction w)) (\<lambda>found.
        let level = apply_bfs_sampling (filter (\<lambda>e. ev_id e \<notin> seen) found)
                      (wp_sampling w) (wp_max_depth w);
            level_bytes = sum_payloads level;
            would_exceed_count = (case wp_max_results w of None \<Rightarrow> False
              | Some n \<Rightarrow> n < length results + length level);
            would_exceed_bytes = (case wp_max_bytes w of None \<Rightarrow> False
              | Some b \<Rightarrow> b < byte_count + level_bytes)
        in if level = [] then Inr (Complete results)
           else if (would_exceed_count \<or> would_exceed_bytes) \<and> results \<noteq> []
           then bind_res (cursor_encode L
                  (CCausation (map id_bytes frontier) (dir_byte (wp_direction w))
                     (word_of_nat (depth - 1)))) (\<lambda>cursor.
                Inr (Truncated results (Some cursor)
                  (if would_exceed_count then ResultCount else ByteSize)))
           else bfs_loop L d w (Suc depth) (map ev_id level) (seen \<union> ev_id ` set level)
                  (results @ level) (byte_count + level_bytes)))"
  by pat_completeness auto

termination
  by (relation "measure (\<lambda>(L, d, w, depth, _). Suc (wp_max_depth w) - depth)") auto

declare bfs_loop.simps [simp del]

definition walk_causation_bounded_impl ::
  "libs \<Rightarrow> db \<Rightarrow> event_id \<Rightarrow> walk_params \<Rightarrow> (bytes list \<times> u32) option \<Rightarrow>
     stored_event list read_outcome res" where
  "walk_causation_bounded_impl L d start w resume =
     (case resume of
        Some (frontier, depth_consumed) \<Rightarrow>
          bfs_loop L d w (unat depth_consumed + 1) (map EventId frontier)
            (EventId ` set frontier) [] 0
      | None \<Rightarrow> bfs_loop L d w 1 [start] {start} [] 0)"

text \<open>The resume point, as \<open>Store::walk_causation_bounded\<close> decodes it.\<close>

definition causation_resume ::
  "libs \<Rightarrow> walk_direction \<Rightarrow> truncation_cursor option \<Rightarrow> (bytes list \<times> u32) option res" where
  "causation_resume L direction resume =
     (case resume of
        None \<Rightarrow> Inr None
      | Some cursor \<Rightarrow>
          bind_res (cursor_decode L cursor) (\<lambda>inner.
            case inner of
              CCausation frontier cursor_dir depth_consumed \<Rightarrow>
                if cursor_dir \<noteq> dir_byte direction
                then Inl (Internal ''cursor direction mismatch for walk_causation_bounded'')
                else Inr (Some (frontier, depth_consumed))
            | _ \<Rightarrow> Inl (Internal ''cursor type mismatch: expected Causation'')))"

definition fetch_causation :: "libs \<Rightarrow> db \<Rightarrow> event_id \<Rightarrow> walk_params \<Rightarrow> fetcher" where
  "fetch_causation L d start w resume =
     bind_res (causation_resume L (wp_direction w) resume) (\<lambda>r.
       walk_causation_bounded_impl L d start w r)"

section \<open>Levels and distances\<close>

definition within_steps :: "(event_id \<times> event_id) set \<Rightarrow> event_id \<Rightarrow> nat \<Rightarrow> event_id \<Rightarrow> bool" where
  "within_steps R start n i \<longleftrightarrow> (\<exists>k. 1 \<le> k \<and> k \<le> n \<and> (start, i) \<in> R ^^ k)"

definition no_farther ::
  "(event_id \<times> event_id) set \<Rightarrow> event_id \<Rightarrow> event_row \<Rightarrow> event_row \<Rightarrow> bool" where
  "no_farther R start r r' \<longleftrightarrow>
     (\<forall>n. within_steps R start n (r_id r') \<longrightarrow> within_steps R start n (r_id r))"

lemma set_walk_rows:
  "set (walk_rows d levels) = {r \<in> set (t_events d). \<exists>l \<in> set levels. r_id r \<in> set l}"
  by (auto simp: walk_rows_def)

lemma distinct_walk_rows:
  "events_wf (t_events d) \<Longrightarrow> distinct (map r_id (walk_rows d levels))"
  by (simp add: walk_rows_def events_wf_def distinct_map_sort_key distinct_map_filter)

text \<open>One expansion returns exactly the successors of its argument.\<close>

locale level_walk =
  fixes expand :: "event_id list \<Rightarrow> event_id list" and R :: "(event_id \<times> event_id) set"
  assumes expand_set: "set (expand ids) = R `` set ids"
begin

lemma relpow_Image: "(R ^^ Suc k) `` X = (R ^^ k) `` (R `` X)"
  by (metis relcomp_Image relpow.simps(2) relpow_commute)

lemma in_levels:
  "(\<exists>l \<in> set (query_levels expand n ids). x \<in> set l) \<longleftrightarrow>
     (\<exists>k. 1 \<le> k \<and> k \<le> n \<and> x \<in> (R ^^ k) `` set ids)"
proof (induction n arbitrary: ids)
  case (Suc n)
  have later: "(\<exists>k. 1 \<le> k \<and> k \<le> Suc n \<and> x \<in> (R ^^ k) `` set ids) \<longleftrightarrow>
      x \<in> R `` set ids \<or> (\<exists>k. 1 \<le> k \<and> k \<le> n \<and> x \<in> (R ^^ k) `` (R `` set ids))" (is "?L \<longleftrightarrow> ?R")
  proof
    assume ?L
    then obtain k where k: "1 \<le> k" "k \<le> Suc n" "x \<in> (R ^^ k) `` set ids" by blast
    then obtain j where j: "k = Suc j" by (cases k) auto
    with k have "x \<in> (R ^^ j) `` (R `` set ids)" by (simp only: relpow_Image)
    then show ?R
    proof (cases "j = 0")
      case False
      with j k have "1 \<le> j" "j \<le> n" by simp_all
      with \<open>x \<in> (R ^^ j) `` (R `` set ids)\<close> show ?thesis by blast
    qed simp
  next
    assume ?R
    then show ?L
    proof
      assume "x \<in> R `` set ids"
      then have "x \<in> (R ^^ 1) `` set ids" by simp
      then show ?L by (intro exI [of _ 1]) simp
    next
      assume "\<exists>k. 1 \<le> k \<and> k \<le> n \<and> x \<in> (R ^^ k) `` (R `` set ids)"
      then obtain k where "k \<le> n" "x \<in> (R ^^ Suc k) `` set ids" by (auto simp only: relpow_Image)
      then show ?L by (intro exI [of _ "Suc k"]) simp
    qed
  qed
  show ?case
  proof (cases "expand ids = []")
    case True
    then have "R `` set ids = {}" using expand_set [of ids] by simp
    with True later show ?thesis by simp
  next
    case False
    then show ?thesis using later Suc.IH [of "expand ids"] by (auto simp: expand_set)
  qed
qed simp

text \<open>The depth of an identity is its distance.\<close>

lemma min_depth_distance:
  assumes "\<exists>l \<in> set (query_levels expand n ids). x \<in> set l"
  shows "x \<in> (R ^^ min_depth (query_levels expand n ids) x) `` set ids \<and>
    1 \<le> min_depth (query_levels expand n ids) x \<and>
    (\<forall>k. 1 \<le> k \<longrightarrow> x \<in> (R ^^ k) `` set ids \<longrightarrow> min_depth (query_levels expand n ids) x \<le> k)"
  using assms
proof (induction n arbitrary: ids)
  case (Suc n)
  then have ne: "expand ids \<noteq> []" by auto
  show ?case
  proof (cases "x \<in> set (expand ids)")
    case True
    with ne show ?thesis using expand_set [of ids] by simp
  next
    case False
    with Suc.prems ne have "\<exists>l \<in> set (query_levels expand n (expand ids)). x \<in> set l" by auto
    note IH = Suc.IH [OF this]
    let ?m = "min_depth (query_levels expand n (expand ids)) x"
    have "x \<in> (R ^^ Suc ?m) `` set ids" using IH by (simp only: relpow_Image expand_set)
    moreover have "Suc ?m \<le> k" if k: "1 \<le> k" "x \<in> (R ^^ k) `` set ids" for k
    proof -
      obtain j where j: "k = Suc j" using k by (cases k) auto
      with k have "x \<in> (R ^^ j) `` set (expand ids)" by (simp only: relpow_Image expand_set)
      moreover from this False have "1 \<le> j" by (cases j) auto
      ultimately show ?thesis using IH j by auto
    qed
    ultimately show ?thesis using False ne by simp
  qed
qed simp

lemma rows_of_levels:
  "set (walk_rows d (query_levels expand n [start])) =
     {r \<in> set (t_events d). within_steps R start n (r_id r)}"
  using in_levels [of n "[start]"] by (simp add: set_walk_rows within_steps_def)

lemma rows_by_distance:
  "sorted_wrt (no_farther R start) (walk_rows d (query_levels expand n [start]))"
proof -
  let ?ls = "query_levels expand n [start]"
  have "sorted_wrt (\<lambda>r r'. (min_depth ?ls \<circ> r_id) r \<le> (min_depth ?ls \<circ> r_id) r') (walk_rows d ?ls)"
    using sorted_sort_key [of "min_depth ?ls \<circ> r_id"] by (simp only: walk_rows_def sorted_map)
  then show ?thesis
  proof (rule sorted_wrt_mono_rel [rotated])
    fix r r'
    assume r: "r \<in> set (walk_rows d ?ls)" "r' \<in> set (walk_rows d ?ls)"
      and le: "(min_depth ?ls \<circ> r_id) r \<le> (min_depth ?ls \<circ> r_id) r'"
    have "\<exists>l \<in> set ?ls. r_id x \<in> set l" if "x \<in> set (walk_rows d ?ls)" for x
      using that by (simp add: set_walk_rows)
    note dist = min_depth_distance [OF this [OF r(1)]] min_depth_distance [OF this [OF r(2)]]
    show "no_farther R start r r'"
      unfolding no_farther_def within_steps_def
    proof (intro allI impI)
      fix n'
      assume "\<exists>k. 1 \<le> k \<and> k \<le> n' \<and> (start, r_id r') \<in> R ^^ k"
      then obtain k where "1 \<le> k" "k \<le> n'" "(start, r_id r') \<in> R ^^ k" by blast
      with dist(2) le have "min_depth ?ls (r_id r) \<le> n'" by fastforce
      with dist(1) show "\<exists>k. 1 \<le> k \<and> k \<le> n' \<and> (start, r_id r) \<in> R ^^ k" by auto
    qed
  qed
qed

end

text \<open>Event \<open>i\<close> caused event \<open>j\<close>.\<close>

definition caused :: "db \<Rightarrow> (event_id \<times> event_id) set" where
  "caused d = {(i, j). \<exists>r \<in> set (t_events d). r_causation_id r = Some i \<and> r_id r = j}"

interpretation fw: level_walk "children d" "caused d" for d
  by unfold_locales (auto simp: children_def caused_def)

interpretation bw: level_walk "causes d" "(caused d)\<inverse>" for d
  by unfold_locales (force simp: causes_def caused_def List.map_filter_def)

text \<open>The edges a walk in one direction follows.\<close>

definition walk_edges :: "db \<Rightarrow> walk_direction \<Rightarrow> (event_id \<times> event_id) set" where
  "walk_edges d direction =
     (case direction of Forward \<Rightarrow> caused d | Backward \<Rightarrow> (caused d)\<inverse> | Both \<Rightarrow> caused d \<union> (caused d)\<inverse>)"

section \<open>The unbounded walks\<close>

text \<open>
  C32. A causation walk returns, each once, exactly the events that can be reached from the start
  by following causation links in the direction of the walk, in at least one and at most
  \<open>max_depth\<close> steps; a walk in one direction returns them by increasing distance.
\<close>

theorem walk_causation_reaches:
  assumes "log_wf L d" and "int max_depth \<le> i64_max"
  shows "\<exists>rows. walk_causation_impl L d start direction max_depth = Inr (map (event_of L) rows) \<and>
    distinct (map r_id rows) \<and>
    set rows = {r \<in> set (t_events d).
      (direction \<noteq> Backward \<and> within_steps (caused d) start max_depth (r_id r)) \<or>
      (direction \<noteq> Forward \<and> within_steps ((caused d)\<inverse>) start max_depth (r_id r))} \<and>
    (direction \<noteq> Both \<longrightarrow> sorted_wrt (no_farther (walk_edges d direction) start) rows)"
proof -
  let ?f = "walk_rows d (query_levels (children d) max_depth [start])"
  and ?b = "walk_rows d (query_levels (causes d) max_depth [start])"
  have wf: "events_wf (t_events d)" and "rows_readable L (t_events d)"
    using assms(1) by (simp_all add: log_wf_def)
  then have readable: "rows_readable L (walk_rows d ls)" for ls
    by (auto simp: rows_readable_def set_walk_rows)
  have nothing: "within_steps R start 0 i \<longleftrightarrow> False" for R i by (auto simp: within_steps_def)
  have empty: "walk_rows d (query_levels nx 0 [start]) = []" for nx by (simp add: walk_rows_def)
  have f: "walk_forward L d start max_depth = Inr (map (event_of L) ?f)"
    and b: "walk_backward L d start max_depth = Inr (map (event_of L) ?b)"
    using assms(2) empty by (simp_all add: walk_forward_def walk_backward_def depth_bound_def
        rows_to_events_readable [OF readable])
  have id: "ev_id (event_of L r) = r_id r" if "r \<in> set (walk_rows d ls)" for r ls
    using readable that by (auto simp: rows_readable_def event_of_simps)
  show ?thesis
  proof (cases direction)
    case Forward
    then show ?thesis
      using f fw.rows_of_levels fw.rows_by_distance distinct_walk_rows [OF wf]
      by (intro exI [of _ ?f]) (simp add: walk_causation_impl_def walk_edges_def)
  next
    case Backward
    then show ?thesis
      using b bw.rows_of_levels bw.rows_by_distance distinct_walk_rows [OF wf]
      by (intro exI [of _ ?b]) (simp add: walk_causation_impl_def walk_edges_def)
  next
    case Both
    let ?rows = "?f @ filter (\<lambda>r. r_id r \<notin> r_id ` set ?f) ?b"
    have "ev_id ` set (map (event_of L) ?f) = r_id ` set ?f"
      using id by (auto simp: image_image intro!: image_cong)
    then have "filter (\<lambda>e. ev_id e \<notin> ev_id ` set (map (event_of L) ?f)) (map (event_of L) ?b) =
        map (event_of L) (filter (\<lambda>r. r_id r \<notin> r_id ` set ?f) ?b)"
      using id by (simp add: filter_map o_def cong: filter_cong)
    then have "walk_causation_impl L d start direction max_depth = Inr (map (event_of L) ?rows)"
      using Both f b by (simp add: walk_causation_impl_def merge_walks_def)
    moreover have "distinct (map r_id ?rows)"
      using distinct_walk_rows [OF wf] by (auto simp: distinct_map_filter) (metis imageI)
    moreover have "set ?rows = set ?f \<union> set ?b"
      using wf by (auto simp: set_walk_rows events_wf_def distinct_map dest: inj_onD)
    ultimately show ?thesis
      using Both by (intro exI [of _ ?rows]) (auto simp: fw.rows_of_levels bw.rows_of_levels)
  qed
qed

text \<open>A chain of three events, for the witnesses.\<close>

definition demo_link :: "i64 \<Rightarrow> event_row" where
  "demo_link v = (demo_row v)\<lparr>r_causation_id := (if v = 0 then None else Some (EventId [word_of_int (v - 1)]))\<rparr>"

definition demo_chain :: db where
  "demo_chain = demo_db\<lparr>t_events := [demo_link 0, demo_link 1, demo_link 2]\<rparr>"

lemma demo_chain_wf: "log_wf demo_libs demo_chain"
  by (simp add: log_wf_def demo_chain_def events_wf_def demo_link_def demo_row_def row_key_def
      rows_readable_def row_readable_tags i64_max_def)

theorem walk_causation_reaches_witness:
  "\<exists>rows. walk_causation_impl demo_libs demo_chain (EventId [0]) Forward 5 =
     Inr (map (event_of demo_libs) rows)"
  using walk_causation_reaches [OF demo_chain_wf, of 5 "EventId [0]" Forward]
  by (auto simp: i64_max_def)

section \<open>The breadth-first search\<close>

text \<open>The search stays among stored events; the sets of identities by distance.\<close>

definition search_edges :: "db \<Rightarrow> walk_direction \<Rightarrow> (event_id \<times> event_id) set" where
  "search_edges d direction =
     {(i, j) \<in> walk_edges d direction. j \<in> r_id ` set (t_events d)}"

definition reached :: "(event_id \<times> event_id) set \<Rightarrow> event_id \<Rightarrow> nat \<Rightarrow> event_id set" where
  "reached E start n = {i. \<exists>k \<le> n. (start, i) \<in> E ^^ k}"

definition frontier_at :: "(event_id \<times> event_id) set \<Rightarrow> event_id \<Rightarrow> nat \<Rightarrow> event_id set" where
  "frontier_at E start n = {i. (start, i) \<in> E ^^ n \<and> (\<forall>k < n. (start, i) \<notin> E ^^ k)}"

lemma frontier_0 [simp]: "frontier_at E start 0 = {start}" "reached E start 0 = {start}"
  by (auto simp: frontier_at_def reached_def)

lemma reached_I: "(start, i) \<in> E ^^ k \<Longrightarrow> k \<le> n \<Longrightarrow> i \<in> reached E start n"
  unfolding reached_def by blast

lemma reached_Suc: "reached E start (Suc n) = reached E start n \<union> frontier_at E start (Suc n)"
proof (intro equalityI subsetI)
  fix i
  assume i: "i \<in> reached E start (Suc n)"
  show "i \<in> reached E start n \<union> frontier_at E start (Suc n)"
  proof (cases "i \<in> reached E start n")
    case False
    then have "(start, i) \<notin> E ^^ k" if "k < Suc n" for k
      using that reached_I [of start i k E n] by auto
    moreover from i False have "(start, i) \<in> E ^^ Suc n"
      by (auto simp del: relpow.simps simp: reached_def le_Suc_eq)
    ultimately show ?thesis unfolding frontier_at_def by blast
  qed simp
next
  fix i
  assume "i \<in> reached E start n \<union> frontier_at E start (Suc n)"
  then consider k where "k \<le> n" "(start, i) \<in> E ^^ k" | "(start, i) \<in> E ^^ Suc n"
    unfolding reached_def frontier_at_def by blast
  then show "i \<in> reached E start (Suc n)" by cases (rule reached_I, assumption, simp)+
qed

lemma frontier_Suc: "E `` frontier_at E start n - reached E start n = frontier_at E start (Suc n)"
proof (intro equalityI subsetI)
  fix x
  assume "x \<in> E `` frontier_at E start n - reached E start n"
  then obtain y where "(start, y) \<in> E ^^ n" "(y, x) \<in> E" and new: "x \<notin> reached E start n"
    by (auto simp: frontier_at_def)
  then have "x \<in> reached E start (Suc n)" by (intro reached_I [of _ _ "Suc n"]) auto
  with new show "x \<in> frontier_at E start (Suc n)" by (simp add: reached_Suc)
next
  fix x
  assume x: "x \<in> frontier_at E start (Suc n)"
  then obtain y where y: "(start, y) \<in> E ^^ n" "(y, x) \<in> E" by (auto simp: frontier_at_def)
  have far: "(start, x) \<notin> E ^^ k" if "k < Suc n" for k
    using x that unfolding frontier_at_def by blast
  have "(start, y) \<notin> E ^^ k" if "k < n" for k
    using far [of "Suc k"] that y(2) by auto
  with y have "y \<in> frontier_at E start n" unfolding frontier_at_def by blast
  moreover have "x \<notin> reached E start n" using far by (auto simp: reached_def)
  ultimately show "x \<in> E `` frontier_at E start n - reached E start n" using y(2) by blast
qed

lemma frontier_empty: "frontier_at E start n = {} \<Longrightarrow> reached E start (n + m) = reached E start n"
proof (induction m)
  case (Suc m)
  have "frontier_at E start (n + k) = {}" for k
    by (induction k) (use Suc.prems in \<open>auto simp: frontier_Suc [symmetric]\<close>)
  then have "frontier_at E start (Suc (n + m)) = {}" by (metis add_Suc_right)
  with Suc show ?case by (simp add: reached_Suc)
qed simp

lemma frontier_empty_reached:
  "frontier_at E start (Suc n) = {} \<Longrightarrow> n \<le> m \<Longrightarrow> reached E start m = reached E start n"
  using frontier_empty [of E start "Suc n" "m - Suc n"]
  by (cases "m = n") (auto simp: reached_Suc)

lemma distinct_merge:
  "distinct (map ev_id fwd) \<Longrightarrow> distinct (map ev_id bwd) \<Longrightarrow>
    distinct (map ev_id (merge_walks fwd bwd))"
  by (auto simp: merge_walks_def distinct_map_filter) (metis imageI)

lemma set_merge:
  assumes "inj_on ev_id (set fwd \<union> set bwd)"
  shows "set (merge_walks fwd bwd) = set fwd \<union> set bwd"
proof -
  have "e \<in> set fwd" if "e \<in> set bwd" "ev_id e \<in> ev_id ` set fwd" for e
  proof -
    from that(2) obtain e' where "e' \<in> set fwd" "ev_id e = ev_id e'" by blast
    with inj_onD [OF assms, of e e'] that(1) show ?thesis by simp
  qed
  then show ?thesis by (auto simp: merge_walks_def)
qed

text \<open>One expansion returns the stored events one step from the frontier.\<close>

lemma expand_spec:
  assumes wf: "log_wf L d" and params: "length frontier \<le> MAX_PARAMETERS"
  obtains (found) es where "expand_frontier L d frontier direction = Inr es"
    and "set es = event_of L ` {r \<in> set (t_events d). r_id r \<in> search_edges d direction `` set frontier}"
    and "distinct (map ev_id es)"
proof -
  have ewf: "events_wf (t_events d)" and rd: "rows_readable L (t_events d)"
    using wf by (simp_all add: log_wf_def)
  have check: "check_parameters frontier = Inr ()" using params by (simp add: check_parameters_def)
  define sel where "sel = (\<lambda>P. sort_key r_id (filter P (t_events d)))"
  have sel: "rows_readable L (sel P)" "set (sel P) = {r \<in> set (t_events d). P r}"
    "distinct (map r_id (sel P))" for P
    using ewf rd by (auto simp: sel_def rows_readable_def events_wf_def distinct_map_sort_key
        distinct_map_filter)
  have ids: "map ev_id (map (event_of L) (sel P)) = map r_id (sel P)" for P
    using sel(1) [of P] by (auto simp: rows_readable_def event_of_simps)
  let ?F = "\<lambda>r. \<exists>i \<in> set frontier. r_causation_id r = Some i"
  and ?B = "\<lambda>r. r_id r \<in> set (causes d frontier)"
  have F: "bfs_expand_forward L d frontier = Inr (map (event_of L) (sel ?F))"
    and B: "bfs_expand_backward L d frontier = Inr (map (event_of L) (sel ?B))"
    using check rows_to_events_readable [OF sel(1)]
    by (simp_all add: bfs_expand_forward_def bfs_expand_backward_def causes_def sel_def
        List.map_filter_def)
  have setF: "set (sel ?F) = {r \<in> set (t_events d). r_id r \<in> search_edges d Forward `` set frontier}"
    using ewf unfolding sel(2) search_edges_def walk_edges_def caused_def events_wf_def distinct_map
    by (auto dest: inj_onD)
  have setB: "set (sel ?B) = {r \<in> set (t_events d). r_id r \<in> search_edges d Backward `` set frontier}"
    unfolding sel(2) bw.expand_set by (auto simp: search_edges_def walk_edges_def)
  have one: thesis
    if "expand_frontier L d frontier direction = Inr (map (event_of L) (sel P))"
      "set (sel P) = {r \<in> set (t_events d). r_id r \<in> search_edges d direction `` set frontier}" for P
  proof (rule found [OF that(1)])
    show "set (map (event_of L) (sel P)) =
        event_of L ` {r \<in> set (t_events d). r_id r \<in> search_edges d direction `` set frontier}"
      by (simp only: set_map that(2))
    show "distinct (map ev_id (map (event_of L) (sel P)))" unfolding ids by (rule sel(3))
  qed
  show ?thesis
  proof (cases direction)
    case Forward
    with F setF show ?thesis by (intro one [of ?F]) (simp_all only: expand_frontier_def walk_direction.case)
  next
    case Backward
    with B setB show ?thesis by (intro one [of ?B]) (simp_all only: expand_frontier_def walk_direction.case)
  next
    case Both
    let ?m = "merge_walks (map (event_of L) (sel ?F)) (map (event_of L) (sel ?B))"
    have "distinct (map ev_id ?m)"
      by (intro distinct_merge) (simp_all only: ids sel(3))
    moreover have "inj_on ev_id (event_of L ` set (t_events d))"
      using ewf rd by (intro inj_onI)
        (auto simp: events_wf_def distinct_map rows_readable_def event_of_simps dest: inj_onD)
    then have "inj_on ev_id (set (map (event_of L) (sel ?F)) \<union> set (map (event_of L) (sel ?B)))"
      by (rule inj_on_subset) (auto simp only: set_map sel(2))
    then have "set ?m = event_of L ` (set (sel ?F) \<union> set (sel ?B))"
      by (simp only: set_merge set_map image_Un)
    moreover have "search_edges d Both = search_edges d Forward \<union> search_edges d Backward"
      by (auto simp: search_edges_def walk_edges_def)
    ultimately show ?thesis
      by (intro found [of "sort_key ev_id ?m"])
        (use F B Both setF setB in \<open>auto simp: expand_frontier_def distinct_map_sort_key\<close>)
  qed
qed

lemma reached_mono: "n \<le> m \<Longrightarrow> reached E start n \<subseteq> reached E start m"
  unfolding reached_def using le_trans by blast

text \<open>Nearest first.\<close>

definition nearest_first ::
  "(event_id \<times> event_id) set \<Rightarrow> event_id \<Rightarrow> stored_event list \<Rightarrow> bool" where
  "nearest_first E start es \<longleftrightarrow>
     sorted_wrt (\<lambda>e e'. \<forall>n. ev_id e' \<in> reached E start n \<longrightarrow> ev_id e \<in> reached E start n) es"

lemma nearest_first_append:
  assumes level: "ev_id ` set level \<subseteq> frontier_at E start n" and "nearest_first E start es"
    and later: "\<And>e. e \<in> set es \<Longrightarrow> ev_id e \<notin> reached E start n"
  shows "nearest_first E start (level @ es)"
proof -
  have at: "(start, ev_id e) \<in> E ^^ n \<and> (\<forall>k < n. (start, ev_id e) \<notin> E ^^ k)" if "e \<in> set level" for e
    using level that unfolding frontier_at_def by blast
  have near: "ev_id e \<in> reached E start m" if "e \<in> set level" "n \<le> m" for e m
    using at [OF that(1)] that(2) by (blast intro: reached_I)
  have far: "n \<le> m" if "e \<in> set level" "ev_id e \<in> reached E start m" for e m
    
  proof (rule ccontr)
    assume "\<not> n \<le> m"
    moreover from that(2) obtain k where "k \<le> m" "(start, ev_id e) \<in> E ^^ k"
      unfolding reached_def by blast
    ultimately have "k < n" "(start, ev_id e) \<in> E ^^ k" by simp_all
    with at [OF that(1)] show False by blast
  qed
  have beyond: "n \<le> m" if "e \<in> set es" "ev_id e \<in> reached E start m" for e m
    using later [OF that(1)] that(2) reached_mono [of m n E start] by (cases "n \<le> m") auto
  have within: "\<forall>m. ev_id e' \<in> reached E start m \<longrightarrow> ev_id e \<in> reached E start m"
    if "e \<in> set level" "e' \<in> set level \<or> e' \<in> set es" for e e'
    using that near far beyond by blast
  then have "sorted_wrt (\<lambda>e e'. \<forall>n. ev_id e' \<in> reached E start n \<longrightarrow> ev_id e \<in> reached E start n) level"
    unfolding sorted_wrt_iff_nth_less by (meson nth_mem less_trans)
  with within assms(2) show ?thesis unfolding nearest_first_def sorted_wrt_append by blast
qed

lemma bfs_loop_exhaustive:
  fixes L d w start
  defines "E \<equiv> search_edges d (wp_direction w)"
  assumes wf: "log_wf L d" and params: "length (t_events d) \<le> MAX_PARAMETERS"
    and w: "wp_sampling w = Exhaustive" "wp_max_results w = None" "wp_max_bytes w = None"
    and "set frontier = frontier_at E start n" and "length frontier \<le> MAX_PARAMETERS"
  shows "\<exists>es. bfs_loop L d w (Suc n) frontier (reached E start n) results byte_count =
      Inr (Complete (results @ es)) \<and> distinct (map ev_id es) \<and> nearest_first E start es \<and>
    set es = event_of L `
      {r \<in> set (t_events d). r_id r \<in> reached E start (max n (wp_max_depth w)) - reached E start n}"
  using assms(7,8)
proof (induction "wp_max_depth w - n" arbitrary: n frontier results byte_count rule: less_induct)
  case less
  let ?N = "wp_max_depth w"
  have finish: "\<exists>es. Inr (Complete results) = Inr (Complete (results @ es)) \<and> distinct (map ev_id es) \<and>
      nearest_first E start es \<and> set es = event_of L `
      {r \<in> set (t_events d). r_id r \<in> reached E start (max n ?N) - reached E start n}"
    if "reached E start (max n ?N) \<inter> r_id ` set (t_events d) \<subseteq> reached E start n"
    using that by (intro exI [of _ "[]"]) (auto simp: nearest_first_def)
  show ?case
  proof (cases "?N < Suc n \<or> frontier = []")
    case True
    then have "reached E start (max n ?N) = reached E start n"
    proof
      assume "frontier = []"
      with less.prems(1) show ?thesis
        using frontier_empty [of E start n "max n ?N - n"] by simp
    qed simp
    with finish True show ?thesis by (subst bfs_loop.simps) simp
  next
    case False
    then have n: "Suc n \<le> ?N" by simp
    from expand_spec [OF wf less.prems(2)] obtain found where
      found: "expand_frontier L d frontier (wp_direction w) = Inr found"
        "set found = event_of L ` {r \<in> set (t_events d). r_id r \<in> E `` set frontier}"
        "distinct (map ev_id found)"
      unfolding E_def by blast
    define level where "level = filter (\<lambda>e. ev_id e \<notin> reached E start n) found"
    have id: "ev_id (event_of L r) = r_id r" if "r \<in> set (t_events d)" for r
      using wf that by (auto simp: log_wf_def rows_readable_def event_of_simps)
    have set_level: "set level = event_of L ` {r \<in> set (t_events d). r_id r \<in> frontier_at E start (Suc n)}"
      unfolding frontier_Suc [symmetric] less.prems(1) [symmetric]
      by (auto simp: level_def found(2) id)
    have stored: "frontier_at E start (Suc n) \<subseteq> r_id ` set (t_events d)"
      unfolding frontier_Suc [symmetric] by (auto simp: E_def search_edges_def)
    have ids: "ev_id ` set level = frontier_at E start (Suc n)"
    proof
      show "frontier_at E start (Suc n) \<subseteq> ev_id ` set level"
      proof
        fix i assume i: "i \<in> frontier_at E start (Suc n)"
        with stored obtain r where "r \<in> set (t_events d)" "i = r_id r" by blast
        with i id show "i \<in> ev_id ` set level" unfolding set_level by (intro image_eqI [of _ _ "event_of L r"]) auto
      qed
    qed (auto simp: set_level id)
    have dist: "distinct (map ev_id level)" using found(3) by (simp add: level_def distinct_map_filter)
    have step: "bfs_loop L d w (Suc n) frontier (reached E start n) results byte_count =
        (if level = [] then Inr (Complete results)
         else bfs_loop L d w (Suc (Suc n)) (map ev_id level) (reached E start (Suc n))
           (results @ level) (byte_count + sum_payloads level))"
      using False found(1) w ids
      by (subst bfs_loop.simps) (simp add: level_def apply_bfs_sampling_def reached_Suc Let_def)
    show ?thesis
    proof (cases "level = []")
      case True
      with ids have "frontier_at E start (Suc n) = {}" by simp
      then have "reached E start (max n ?N) = reached E start n"
        by (rule frontier_empty_reached) simp
      with finish True step show ?thesis by simp
    next
      case cont: False
      have "card (ev_id ` set level) \<le> card (r_id ` set (t_events d))"
        unfolding ids using stored by (intro card_mono) simp_all
      then have "length (map ev_id level) \<le> MAX_PARAMETERS"
        using params dist card_length [of "map r_id (t_events d)"]
        by (simp add: distinct_card [of "map ev_id level", simplified])
      note less.hyps [OF _ _ this, of "Suc n" "results @ level" "byte_count + sum_payloads level"]
      moreover have "?N - Suc n < ?N - n" using n by simp
      moreover have "set (map ev_id level) = frontier_at E start (Suc n)" using ids by simp
      ultimately
      obtain es where es: "bfs_loop L d w (Suc (Suc n)) (map ev_id level) (reached E start (Suc n))
            (results @ level) (byte_count + sum_payloads level) = Inr (Complete ((results @ level) @ es))"
          "distinct (map ev_id es)" "nearest_first E start es"
          "set es = event_of L ` {r \<in> set (t_events d).
             r_id r \<in> reached E start (max (Suc n) ?N) - reached E start (Suc n)}"
        by blast
      have max: "max (Suc n) ?N = ?N" "max n ?N = ?N" using n by simp_all
      have later: "ev_id e \<notin> reached E start (Suc n)" if "e \<in> set es" for e
        using that id by (auto simp: es(4))
      have "distinct (map ev_id (level @ es))"
        using dist es(2) later ids by (auto simp: reached_Suc)
      moreover have "nearest_first E start (level @ es)"
        using ids es(3) later by (intro nearest_first_append [of _ _ _ "Suc n"]) auto
      moreover have "set (level @ es) = event_of L `
          {r \<in> set (t_events d). r_id r \<in> reached E start (max n ?N) - reached E start n}"
      proof -
        have "frontier_at E start (Suc n) \<subseteq> reached E start ?N - reached E start n"
          using reached_mono [OF n, of E start] frontier_Suc [of E start n]
          by (auto simp: reached_Suc)
        then show ?thesis unfolding max set_append set_level es(4) by (auto simp: reached_Suc)
      qed
      ultimately show ?thesis using cont step es(1) by (intro exI [of _ "level @ es"]) simp
    qed
  qed
qed



section \<open>Resuming\<close>

text \<open>
  The cursor keeps the frontier and not the identities already returned, so a resumed search in
  both directions goes back over the events of the earlier page.
\<close>

definition both_one :: walk_params where
  "both_one = \<lparr>wp_direction = Both, wp_max_depth = 4, wp_sampling = Exhaustive,
     wp_max_results = Some 1, wp_max_bytes = None\<rparr>"

abbreviation demo_link_event :: "i64 \<Rightarrow> stored_event" where
  "demo_link_event v \<equiv> event_of demo_libs (demo_link v)"

lemma demo_link_simps [simp]:
  "r_id (demo_link v) = EventId [word_of_int v]"
  "r_causation_id (demo_link v) = (if v = 0 then None else Some (EventId [word_of_int (v - 1)]))"
  "ev_id (demo_link_event v) = EventId [word_of_int v]"
  "rows_readable demo_libs (map demo_link vs)"
proof -
  have "row_readable demo_libs (demo_link v)" for v
    by (simp add: row_readable_tags demo_link_def demo_row_def)
  then show "ev_id (demo_link_event v) = EventId [word_of_int v]"
    and "rows_readable demo_libs (map demo_link vs)"
    by (simp_all add: event_of_simps rows_readable_def demo_link_def demo_row_def)
qed (simp_all add: demo_link_def demo_row_def)

lemma demo_rows: "rows_to_events demo_libs (map demo_link vs) = Inr (map demo_link_event vs)"
  by (simp add: rows_to_events_readable)

lemma demo_expand:
  "expand_frontier demo_libs demo_chain [EventId [0]] Both = Inr [demo_link_event 1]"
  "expand_frontier demo_libs demo_chain [EventId [1]] Both =
     Inr [demo_link_event 0, demo_link_event 2]"
  "expand_frontier demo_libs demo_chain [EventId [0], EventId [2]] Both = Inr [demo_link_event 1]"
  using demo_rows [of "[]"] demo_rows [of "[0]"] demo_rows [of "[1]"] demo_rows [of "[2]"]
  by (simp_all add: expand_frontier_def bfs_expand_forward_def bfs_expand_backward_def
      check_parameters_def MAX_PARAMETERS_def demo_chain_def causes_def List.map_filter_def
      merge_walks_def less_eq_event_id_def)

lemmas demo_step =
  bfs_loop.simps [of demo_libs demo_chain] both_one_def demo_expand apply_bfs_sampling_def Let_def

text \<open>
  On a chain of three events and a budget of one event per page, the first page of a search
  in both directions from the first event is the second event, and the page after it is complete
  and holds the start besides the third event.
\<close>

theorem walk_both_resume_returns_start:
  "\<exists>c. fetch_causation demo_libs demo_chain (EventId [0]) both_one None =
      Inr (Truncated [demo_link_event 1] (Some c) ResultCount) \<and>
    fetch_causation demo_libs demo_chain (EventId [0]) both_one (Some c) =
      Inr (Complete [demo_link_event 0, demo_link_event 2])"
proof -
  obtain c where c: "cursor_encode demo_libs (CCausation [[1]] 2 1) = Inr c"
    "cursor_decode demo_libs c = Inr (CCausation [[1]] 2 1)"
    by (rule cursor_roundtrip [OF demo_cursor_codec_ok])
  have "fetch_causation demo_libs demo_chain (EventId [0]) both_one None =
      Inr (Truncated [demo_link_event 1] (Some c) ResultCount)"
    using c(1) by (simp add: fetch_causation_def causation_resume_def
        walk_causation_bounded_impl_def demo_step dir_byte_def)
  moreover have "fetch_causation demo_libs demo_chain (EventId [0]) both_one (Some c) =
      Inr (Complete [demo_link_event 0, demo_link_event 2])"
    using c(2) by (simp add: fetch_causation_def causation_resume_def
        walk_causation_bounded_impl_def demo_step dir_byte_def)
  ultimately show ?thesis by blast
qed

end
