(* ===== verification/Walk_Pages.thy ===== *)
theory Walk_Pages
  imports Causation
begin

text \<open>
  The iterator over a causation walk (\<open>CausationIter\<close> in \<open>src/store.rs\<close>, which follows the cursors
  of \<open>walk_causation_bounded_impl\<close> in \<open>src/cross_stream.rs\<close>). A cursor keeps the last level of
  the page and its depth, and not the identities seen before; in one direction over links without
  a cycle the levels are disjoint, so nothing is missing for the search to go on. The walk is a
  third instance of the paging contract.
\<close>

section \<open>Levels of a walk in one direction\<close>

lemma search_edges_one_way:
  "search_edges d Forward = caused d"
  "search_edges d Backward = {(j, i) \<in> (caused d)\<inverse>. i \<in> r_id ` set (t_events d)}"
  by (auto simp: search_edges_def walk_edges_def caused_def)

lemma caused_unique:
  assumes "events_wf (t_events d)" and "(i, k) \<in> caused d" and "(j, k) \<in> caused d"
  shows "i = j"
  using assms by (fastforce simp: caused_def events_wf_def distinct_map dest: inj_onD)

text \<open>A path that comes back to a level above it closes a cycle.\<close>

lemma single_valued_levels:
  assumes "single_valued E" and "acyclic E" and "(s, i) \<in> E ^^ (j + Suc m)"
  shows "(s, i) \<notin> E ^^ j"
proof
  assume j: "(s, i) \<in> E ^^ j"
  from assms(3) obtain x where "(s, x) \<in> E ^^ j" and x: "(x, i) \<in> E ^^ Suc m"
    by (auto simp only: relpow_add relcomp_unfold mem_Collect_eq prod.case)
  with j assms(1) have "x = i" by (metis single_valuedD single_valued_relpow)
  with x have "(i, i) \<in> E\<^sup>+" by (auto simp only: trancl_power intro!: exI [of _ "Suc m"])
  with assms(2) show False by (simp add: acyclic_def)
qed

lemma injective_relpow:
  fixes E :: "('a \<times> 'a) set"
  assumes "single_valued (E\<inverse>)"
  shows "(a, i) \<in> E ^^ j \<Longrightarrow> (b, i) \<in> E ^^ j \<Longrightarrow> a = b"
proof (induction j arbitrary: i)
  case (Suc j)
  then obtain a' b' where "(a, a') \<in> E ^^ j" "(a', i) \<in> E" "(b, b') \<in> E ^^ j" "(b', i) \<in> E" by auto
  moreover from this assms have "a' = b'" by (auto dest: single_valuedD)
  ultimately show ?case using Suc.IH by blast
qed simp

lemma injective_levels:
  assumes "single_valued (E\<inverse>)" and "acyclic E" and "(s, i) \<in> E ^^ (j + Suc m)"
  shows "(s, i) \<notin> E ^^ j"
proof
  assume j: "(s, i) \<in> E ^^ j"
  from assms(3) obtain x where x: "(s, x) \<in> E ^^ Suc m" and "(x, i) \<in> E ^^ j"
    by (auto simp only: add.commute [of j] relpow_add relcomp_unfold mem_Collect_eq prod.case)
  with j have "x = s" by (blast intro: injective_relpow [OF assms(1)])
  with x have "(s, s) \<in> E\<^sup>+" by (auto simp only: trancl_power intro!: exI [of _ "Suc m"])
  with assms(2) show False by (simp add: acyclic_def)
qed

lemma levels_disjoint:
  assumes "events_wf (t_events d)" and "acyclic (caused d)" and "direction \<noteq> Both"
    and "(s, i) \<in> search_edges d direction ^^ Suc k" and "j \<le> k"
  shows "(s, i) \<notin> search_edges d direction ^^ j"
proof -
  obtain m where k: "Suc k = j + Suc m"
    using assms(5) by (metis add_Suc_right le_Suc_ex)
  show ?thesis
  proof (cases direction)
    case Forward
    have "single_valued ((caused d)\<inverse>)"
      by (auto intro: single_valuedI dest: caused_unique [OF assms(1)])
    then show ?thesis
      using injective_levels assms(2,4) k unfolding Forward search_edges_one_way by metis
  next
    case Backward
    have "single_valued (search_edges d Backward)"
      by (auto simp: search_edges_one_way intro!: single_valuedI dest: caused_unique [OF assms(1)])
    moreover have "acyclic (search_edges d Backward)"
      by (rule acyclic_subset [of "(caused d)\<inverse>"]) (use assms(2) in \<open>auto simp: search_edges_one_way\<close>)
    ultimately show ?thesis
      using single_valued_levels assms(4) k unfolding Backward by metis
  qed (use assms(3) in simp)
qed

section \<open>The search without memory\<close>

text \<open>
  The levels the search goes through when it keeps nothing but the frontier: the reference for a
  search that is cut into pages.
\<close>

definition next_level :: "libs \<Rightarrow> db \<Rightarrow> walk_params \<Rightarrow> event_id list \<Rightarrow> stored_event list" where
  "next_level L d w frontier =
     (case expand_frontier L d frontier (wp_direction w) of
        Inl _ \<Rightarrow> []
      | Inr found \<Rightarrow> apply_bfs_sampling found (wp_sampling w) (wp_max_depth w))"

fun levels_from :: "libs \<Rightarrow> db \<Rightarrow> walk_params \<Rightarrow> nat \<Rightarrow> event_id list \<Rightarrow> stored_event list" where
  "levels_from L d w 0 frontier = []"
| "levels_from L d w (Suc n) frontier =
     next_level L d w frontier @
       (if next_level L d w frontier = [] then []
        else levels_from L d w n (map ev_id (next_level L d w frontier)))"

lemma sampling_subset: "set (apply_bfs_sampling es sampling m) \<subseteq> set es"
  by (cases sampling) (auto simp: apply_bfs_sampling_def dest: in_set_takeD)

lemma sampling_length: "length (apply_bfs_sampling es sampling m) \<le> length es"
  by (cases sampling) (auto simp: apply_bfs_sampling_def)

lemma levels_from_nothing [simp]: "levels_from L d w n [] = []"
  by (cases n; cases "wp_direction w"; cases "wp_sampling w")
    (simp_all add: next_level_def expand_frontier_def bfs_expand_forward_def
      bfs_expand_backward_def merge_walks_def apply_bfs_sampling_def)

text \<open>What holds of the frontier at a depth, whatever was seen on the way to it.\<close>

definition level_at :: "db \<Rightarrow> walk_direction \<Rightarrow> event_id \<Rightarrow> nat \<Rightarrow> event_id list \<Rightarrow> bool" where
  "level_at d direction start k frontier \<longleftrightarrow>
     set frontier \<subseteq> (search_edges d direction ^^ k) `` {start} \<and> length frontier \<le> MAX_PARAMETERS"

lemma next_level_step:
  assumes wf: "log_wf L d" "length (t_events d) \<le> MAX_PARAMETERS"
    and line: "acyclic (caused d)" "wp_direction w \<noteq> Both"
    and level: "level_at d (wp_direction w) start k frontier"
    and seen: "seen \<subseteq> reached (search_edges d (wp_direction w)) start k"
  obtains found where "expand_frontier L d frontier (wp_direction w) = Inr found"
    and "filter (\<lambda>e. ev_id e \<notin> seen) found = found"
    and "level_at d (wp_direction w) start (Suc k) (map ev_id (next_level L d w frontier))"
    and "seen \<union> ev_id ` set (next_level L d w frontier) \<subseteq>
      reached (search_edges d (wp_direction w)) start (Suc k)"
proof -
  let ?E = "search_edges d (wp_direction w)"
  from level have frontier: "set frontier \<subseteq> (?E ^^ k) `` {start}" "length frontier \<le> MAX_PARAMETERS"
    by (simp_all add: level_at_def)
  obtain found where found: "expand_frontier L d frontier (wp_direction w) = Inr found"
      "set found = event_of L ` {r \<in> set (t_events d). r_id r \<in> ?E `` set frontier}"
      "distinct (map ev_id found)"
    by (rule expand_spec [OF wf(1) frontier(2)])
  have id: "ev_id (event_of L r) = r_id r" if "r \<in> set (t_events d)" for r
    using wf(1) that by (auto simp: log_wf_def rows_readable_def event_of_simps)
  have new: "ev_id ` set found \<subseteq> (?E ^^ Suc k) `` {start}"
    using frontier(1) by (auto simp: found(2) id)
  have "ev_id e \<notin> seen" if "e \<in> set found" for e
    using new seen that levels_disjoint [OF _ line, of start "ev_id e" k] wf(1)
    by (auto simp: reached_def log_wf_def simp del: relpow.simps)
  then have fresh: "filter (\<lambda>e. ev_id e \<notin> seen) found = found" by (simp add: filter_id_conv)
  have nl: "next_level L d w frontier = apply_bfs_sampling found (wp_sampling w) (wp_max_depth w)"
    by (simp add: next_level_def found(1))
  have ids: "set (map ev_id (next_level L d w frontier)) \<subseteq> (?E ^^ Suc k) `` {start}"
    using new sampling_subset [of found "wp_sampling w" "wp_max_depth w"] unfolding nl by auto
  have "ev_id ` set found \<subseteq> r_id ` set (t_events d)" by (auto simp: found(2) id)
  then have "card (ev_id ` set found) \<le> length (t_events d)"
    by (metis card_length card_mono finite_imageI finite_set le_trans length_map list.set_map)
  then have "length found \<le> length (t_events d)"
    using found(3) by (metis distinct_card length_map list.set_map)
  then have "length (next_level L d w frontier) \<le> MAX_PARAMETERS"
    using sampling_length [of found "wp_sampling w" "wp_max_depth w"] wf(2) unfolding nl by linarith
  with ids have level': "level_at d (wp_direction w) start (Suc k) (map ev_id (next_level L d w frontier))"
    by (simp add: level_at_def del: relpow.simps)
  have "seen \<union> ev_id ` set (next_level L d w frontier) \<subseteq> reached ?E start (Suc k)"
    using ids seen reached_mono [of k "Suc k" ?E start]
    by (auto simp del: relpow.simps intro: reached_I)
  from that [OF found(1) fresh level' this] show ?thesis .
qed

section \<open>A page of the search\<close>

definition unbudgeted :: "walk_params \<Rightarrow> bool" where
  "unbudgeted w \<longleftrightarrow> wp_max_results w = None \<and> wp_max_bytes w = None"

text \<open>The cursor of a page holds the level the next page starts from.\<close>

definition cursor_at ::
  "libs \<Rightarrow> db \<Rightarrow> walk_params \<Rightarrow> event_id \<Rightarrow> truncation_cursor \<Rightarrow> event_id list \<Rightarrow> nat \<Rightarrow> bool" where
  "cursor_at L d w start c frontier k \<longleftrightarrow>
     causation_resume L (wp_direction w) (Some c) = Inr (Some (map id_bytes frontier, word_of_nat k)) \<and>
     k < 2 ^ 32 \<and> level_at d (wp_direction w) start k frontier"

lemma bfs_loop_pages:
  assumes codec: "cursor_codec_ok L" and wf: "log_wf L d" "length (t_events d) \<le> MAX_PARAMETERS"
    and line: "acyclic (caused d)" "wp_direction w \<noteq> Both" and depth: "wp_max_depth w \<le> 2 ^ 32"
    and "level_at d (wp_direction w) start k frontier"
    and "seen \<subseteq> reached (search_edges d (wp_direction w)) start k"
  shows "bfs_loop L d w (Suc k) frontier seen results byte_count =
      Inr (Complete (results @ levels_from L d w (wp_max_depth w - k) frontier)) \<or>
    (\<not> unbudgeted w \<and> (\<exists>es c r frontier' k'.
       bfs_loop L d w (Suc k) frontier seen results byte_count = Inr (Truncated es (Some c) r) \<and>
       es \<noteq> [] \<and> cursor_at L d w start c frontier' k' \<and>
       results @ levels_from L d w (wp_max_depth w - k) frontier =
         es @ levels_from L d w (wp_max_depth w - k') frontier'))"
  using assms(7,8)
proof (induction "wp_max_depth w - k" arbitrary: k frontier seen results byte_count)
  case 0
  then show ?case by (subst (1 2) bfs_loop.simps) simp
next
  case (Suc n)
  let ?level = "next_level L d w frontier"
  have k: "k < wp_max_depth w" "wp_max_depth w - k = Suc n" "wp_max_depth w - Suc k = n"
    using Suc.hyps(2) by simp_all
  obtain found where found: "expand_frontier L d frontier (wp_direction w) = Inr found"
      "filter (\<lambda>e. ev_id e \<notin> seen) found = found"
      "level_at d (wp_direction w) start (Suc k) (map ev_id ?level)"
      "seen \<union> ev_id ` set ?level \<subseteq> reached (search_edges d (wp_direction w)) start (Suc k)"
    by (rule next_level_step [OF wf line Suc.prems])
  have nl: "apply_bfs_sampling found (wp_sampling w) (wp_max_depth w) = ?level"
    by (simp add: next_level_def found(1))
  obtain c where c: "cursor_encode L (CCausation (map id_bytes frontier)
        (dir_byte (wp_direction w)) (word_of_nat k)) = Inr c"
      "cursor_decode L c = Inr (CCausation (map id_bytes frontier)
        (dir_byte (wp_direction w)) (word_of_nat k))"
    by (rule cursor_roundtrip [OF codec])
  have at: "cursor_at L d w start c frontier k"
    using c(2) k(1) depth Suc.prems(1) by (simp add: cursor_at_def causation_resume_def)
  have rest: "levels_from L d w (Suc n) frontier =
      (if ?level = [] then [] else ?level @ levels_from L d w n (map ev_id ?level))" by simp
  note IH = Suc.hyps(1) [OF k(3) [symmetric] found(3,4), of "results @ ?level"
      "byte_count + sum_payloads ?level", unfolded k(3)]
  define over where "over = (case wp_max_results w of None \<Rightarrow> False
    | Some n \<Rightarrow> n < length results + length ?level)"
  define cut where "cut \<longleftrightarrow> over \<or> (case wp_max_bytes w of None \<Rightarrow> False
    | Some b \<Rightarrow> b < byte_count + sum_payloads ?level)"
  have step: "bfs_loop L d w (Suc k) frontier seen results byte_count =
      (if ?level = [] then Inr (Complete results)
       else if cut \<and> results \<noteq> []
       then Inr (Truncated results (Some c) (if over then ResultCount else ByteSize))
       else bfs_loop L d w (Suc (Suc k)) (map ev_id ?level) (seen \<union> ev_id ` set ?level)
              (results @ ?level) (byte_count + sum_payloads ?level))" if "frontier \<noteq> []"
    using that k(1)
    by (subst bfs_loop.simps) (simp add: found(1,2) nl Let_def c(1) over_def cut_def cong: option.case_cong)
  show ?case
  proof (cases "frontier = []")
    case True
    then show ?thesis by (subst bfs_loop.simps) simp
  next
    case False
    consider "?level = []" | "?level \<noteq> []" "cut" "results \<noteq> []"
      | "?level \<noteq> []" "\<not> (cut \<and> results \<noteq> [])" by blast
    then show ?thesis
    proof cases
      case 1
      then show ?thesis using step [OF False] unfolding k(2) rest by simp
    next
      case 2
      then have "\<not> unbudgeted w" by (auto simp: cut_def over_def unbudgeted_def)
      then show ?thesis using step [OF False] 2 at by auto
    next
      case 3
      then have "bfs_loop L d w (Suc k) frontier seen results byte_count =
          bfs_loop L d w (Suc (Suc k)) (map ev_id ?level) (seen \<union> ev_id ` set ?level)
            (results @ ?level) (byte_count + sum_payloads ?level)"
        and "results @ levels_from L d w (wp_max_depth w - k) frontier =
          (results @ ?level) @ levels_from L d w n (map ev_id ?level)"
        using step [OF False] unfolding k(2) rest by auto
      then show ?thesis using IH by (simp only:)
    qed
  qed
qed


section \<open>The iterator\<close>

definition causation_remaining ::
  "libs \<Rightarrow> db \<Rightarrow> event_id \<Rightarrow> walk_params \<Rightarrow> truncation_cursor option \<Rightarrow> stored_event list" where
  "causation_remaining L d start w c =
     (case causation_resume L (wp_direction w) c of
        Inl _ \<Rightarrow> []
      | Inr None \<Rightarrow> levels_from L d w (wp_max_depth w) [start]
      | Inr (Some (frontier, k)) \<Rightarrow>
          levels_from L d w (wp_max_depth w - unat k) (map EventId frontier))"

definition walk_ok :: "libs \<Rightarrow> db \<Rightarrow> walk_params \<Rightarrow> bool" where
  "walk_ok L d w \<longleftrightarrow> cursor_codec_ok L \<and> log_wf L d \<and> length (t_events d) \<le> MAX_PARAMETERS \<and>
     acyclic (caused d) \<and> wp_direction w \<noteq> Both \<and> wp_max_depth w \<le> 2 ^ 32"

definition causation_valid ::
  "libs \<Rightarrow> db \<Rightarrow> event_id \<Rightarrow> walk_params \<Rightarrow> truncation_cursor option \<Rightarrow> bool" where
  "causation_valid L d start w c \<longleftrightarrow> walk_ok L d w \<and>
     (case c of None \<Rightarrow> True | Some c' \<Rightarrow> \<exists>frontier k. cursor_at L d w start c' frontier k)"

lemma cursor_depth: "k < 2 ^ 32 \<Longrightarrow> unat (word_of_nat k :: u32) = k"
  by (simp add: unat_of_nat take_bit_nat_eq_self)

lemma id_bytes_inverse: "map EventId (map id_bytes frontier) = frontier"
  by (simp add: o_def)

lemma causation_remaining_at:
  assumes "cursor_at L d w start c frontier k"
  shows "causation_remaining L d start w (Some c) = levels_from L d w (wp_max_depth w - k) frontier"
  using assms by (simp add: cursor_at_def causation_remaining_def id_bytes_inverse
      cursor_depth del: map_map)

text \<open>A call of the bounded walk is the search from the level its cursor holds.\<close>

lemma fetch_causation_level:
  assumes "causation_valid L d start w c"
  obtains k frontier seen where
    "fetch_causation L d start w c = bfs_loop L d w (Suc k) frontier seen [] 0"
    and "causation_remaining L d start w c = levels_from L d w (wp_max_depth w - k) frontier"
    and "level_at d (wp_direction w) start k frontier"
    and "seen \<subseteq> reached (search_edges d (wp_direction w)) start k"
proof (cases c)
  case None
  show ?thesis
    by (rule that [of 0 "[start]" "{start}"])
      (simp_all add: None fetch_causation_def causation_resume_def walk_causation_bounded_impl_def
        causation_remaining_def level_at_def MAX_PARAMETERS_def)
next
  case (Some c')
  with assms obtain frontier k where at: "cursor_at L d w start c' frontier k"
    by (auto simp: causation_valid_def)
  have ids: "EventId ` id_bytes ` X = X" for X by (simp add: image_image)
  show ?thesis
  proof (rule that [of k frontier "set frontier"])
    show "fetch_causation L d start w c = bfs_loop L d w (Suc k) frontier (set frontier) [] 0"
      using at by (simp add: Some cursor_at_def fetch_causation_def walk_causation_bounded_impl_def
          id_bytes_inverse ids cursor_depth del: map_map)
    show "causation_remaining L d start w c = levels_from L d w (wp_max_depth w - k) frontier"
      unfolding Some by (rule causation_remaining_at [OF at])
    show "level_at d (wp_direction w) start k frontier" using at by (simp add: cursor_at_def)
    then show "set frontier \<subseteq> reached (search_edges d (wp_direction w)) start k"
      by (auto simp: level_at_def intro: reached_I)
  qed
qed

lemma fetch_causation_page:
  assumes valid: "causation_valid L d start w c"
  shows "fetch_causation L d start w c = Inr (Complete (causation_remaining L d start w c)) \<or>
    (\<not> unbudgeted w \<and> (\<exists>es c' r. fetch_causation L d start w c = Inr (Truncated es (Some c') r) \<and>
       es \<noteq> [] \<and> causation_remaining L d start w c = es @ causation_remaining L d start w (Some c') \<and>
       causation_valid L d start w (Some c')))"
proof -
  obtain k frontier seen where
    fetch: "fetch_causation L d start w c = bfs_loop L d w (Suc k) frontier seen [] 0"
    and rem: "causation_remaining L d start w c = levels_from L d w (wp_max_depth w - k) frontier"
    and at: "level_at d (wp_direction w) start k frontier"
    and seen: "seen \<subseteq> reached (search_edges d (wp_direction w)) start k"
    by (rule fetch_causation_level [OF valid])
  from valid have ok: "walk_ok L d w" by (simp add: causation_valid_def)
  then have "cursor_codec_ok L" "log_wf L d" "length (t_events d) \<le> MAX_PARAMETERS"
    "acyclic (caused d)" "wp_direction w \<noteq> Both" "wp_max_depth w \<le> 2 ^ 32"
    by (simp_all add: walk_ok_def)
  note page = bfs_loop_pages [OF this at seen, of "[]" 0]
  have next_page: "causation_remaining L d start w (Some c') =
      levels_from L d w (wp_max_depth w - k') frontier' \<and> causation_valid L d start w (Some c')"
    if "cursor_at L d w start c' frontier' k'" for c' frontier' k'
    using causation_remaining_at [OF that] ok that by (auto simp: causation_valid_def)
  show ?thesis
    using page unfolding fetch rem append_Nil by (metis next_page)
qed

interpretation wp: paged_read "fetch_causation L d start w" "causation_remaining L d start w"
    "causation_valid L d start w" for L d start w
  by unfold_locales (use fetch_causation_page in blast)


lemma demo_chain_acyclic: "acyclic (caused demo_chain)"
proof -
  have "caused demo_chain = {(EventId [0], EventId [1]), (EventId [1], EventId [2])}"
    by (auto simp: caused_def demo_chain_def)
  then show ?thesis
    by (intro wf_acyclic [OF wf_subset [OF wf_measure [of "\<lambda>i. unat (hd (id_bytes i))"]]]) auto
qed

definition backward_one :: walk_params where
  "backward_one = both_one\<lparr>wp_direction := Backward\<rparr>"


end
