(* ===== verification/Read_Pool.thy ===== *)
theory Read_Pool
  imports Fossic_Types "HOL-Library.Multiset"
begin

text \<open>
  The pool of read connections (\<open>ReadGuard\<close>, \<open>Store::read_conn\<close> and its part of \<open>Store::open\<close> in
  \<open>src/store.rs\<close>): a bounded channel that holds the idle connections, and the guards that hold the
  others. Threads acquire and drop guards in any order, so the pool is a step relation; a read that
  finds no connection within its timeout fails.
\<close>

section \<open>Operations\<close>

type_synonym connection = nat

text \<open>A guard is the connection it holds; dropping it takes the connection out.\<close>

record read_pool =
  rp_idle :: "connection list"
  rp_guards :: "connection list"

definition pool_capacity :: "open_options \<Rightarrow> nat" where
  "pool_capacity opts = max (opt_read_pool_size opts) 1"

definition read_pool_open :: "open_options \<Rightarrow> read_pool" where
  "read_pool_open opts = \<lparr>rp_idle = [0..<pool_capacity opts], rp_guards = []\<rparr>"

text \<open>The pool is the one at the end of the wait of \<open>recv_timeout\<close>.\<close>

definition read_conn :: "open_options \<Rightarrow> read_pool \<Rightarrow> read_pool \<times> connection res" where
  "read_conn opts p =
     (case rp_idle p of
        [] \<Rightarrow> (p, Inl (PoolExhausted (pool_capacity opts) (opt_read_pool_timeout_ms opts)))
      | c # cs \<Rightarrow> (p\<lparr>rp_idle := cs, rp_guards := rp_guards p @ [c]\<rparr>, Inr c))"

text \<open>Sending to the bounded channel blocks when it is full: \<open>None\<close>.\<close>

definition guard_drop :: "open_options \<Rightarrow> nat \<Rightarrow> read_pool \<Rightarrow> read_pool option" where
  "guard_drop opts i p =
     (if length (rp_idle p) < pool_capacity opts
      then Some (p\<lparr>rp_idle := rp_idle p @ [rp_guards p ! i],
                   rp_guards := take i (rp_guards p) @ drop (Suc i) (rp_guards p)\<rparr>)
      else None)"

inductive pool_reachable :: "open_options \<Rightarrow> read_pool \<Rightarrow> bool" for opts where
  opened: "pool_reachable opts (read_pool_open opts)"
| acquired: "pool_reachable opts p \<Longrightarrow> read_conn opts p = (p', r) \<Longrightarrow> pool_reachable opts p'"
| dropped: "pool_reachable opts p \<Longrightarrow> i < length (rp_guards p) \<Longrightarrow>
    guard_drop opts i p = Some p' \<Longrightarrow> pool_reachable opts p'"

section \<open>No connection is shared or lost\<close>

lemma mset_remove_nth:
  assumes "i < length xs"
  shows "mset xs = add_mset (xs ! i) (mset (take i xs) + mset (drop (Suc i) xs))"
proof -
  have "mset xs = mset (take i xs @ xs ! i # drop (Suc i) xs)"
    using assms by (simp only: id_take_nth_drop [symmetric])
  then show ?thesis by simp
qed

lemma pool_connections:
  "pool_reachable opts p \<Longrightarrow> mset (rp_idle p @ rp_guards p) = mset [0..<pool_capacity opts]"
proof (induction rule: pool_reachable.induct)
  case (acquired p p' r)
  then show ?case by (cases "rp_idle p") (auto simp: read_conn_def)
next
  case (dropped p i p')
  then have "p' = p\<lparr>rp_idle := rp_idle p @ [rp_guards p ! i],
      rp_guards := take i (rp_guards p) @ drop (Suc i) (rp_guards p)\<rparr>"
    by (simp add: guard_drop_def split: if_splits)
  then show ?case
    using dropped.IH by (simp add: mset_remove_nth [OF dropped.hyps(2)] ac_simps)
qed (simp add: read_pool_open_def)

lemma pool_capacity_pos: "0 < pool_capacity opts"
  by (simp add: pool_capacity_def)

lemma pool_length:
  "pool_reachable opts p \<Longrightarrow> length (rp_idle p) + length (rp_guards p) = pool_capacity opts"
  using pool_connections [THEN mset_eq_length] by simp

text \<open>
  C38. Whatever the order in which threads take and drop read connections, no connection is held
  by two guards or lost, and a read fails for want of a connection exactly when as many guards
  are live as the pool has connections; the error then names the size and the timeout.
\<close>

theorem read_pool_sound:
  assumes "pool_reachable opts p"
  shows "distinct (rp_idle p @ rp_guards p) \<and>
    set (rp_idle p @ rp_guards p) = {..<pool_capacity opts} \<and>
    (snd (read_conn opts p) = Inl e \<longleftrightarrow>
       length (rp_guards p) = pool_capacity opts \<and>
       e = PoolExhausted (pool_capacity opts) (opt_read_pool_timeout_ms opts))"
proof -
  note conns = pool_connections [OF assms]
  have "distinct (rp_idle p @ rp_guards p)"
    using mset_eq_imp_distinct_iff [OF conns] by simp
  moreover have "set (rp_idle p @ rp_guards p) = {..<pool_capacity opts}"
    using mset_eq_setD [OF conns] by (simp only: set_upt atLeast0LessThan)
  moreover have "rp_idle p = [] \<longleftrightarrow> length (rp_guards p) = pool_capacity opts"
    using pool_length [OF assms] by auto
  ultimately show ?thesis by (auto simp: read_conn_def split: list.splits)
qed

definition demo_pool_options :: open_options where
  "demo_pool_options = open_options_default\<lparr>opt_read_pool_size := 0\<rparr>"

definition demo_exhausted :: read_pool where
  "demo_exhausted = \<lparr>rp_idle = [], rp_guards = [0]\<rparr>"

lemma demo_exhausted_reachable: "pool_reachable demo_pool_options demo_exhausted"
proof -
  have "read_conn demo_pool_options (read_pool_open demo_pool_options) = (demo_exhausted, Inr 0)"
    by (simp add: read_conn_def read_pool_open_def demo_pool_options_def pool_capacity_def
        demo_exhausted_def)
  then show ?thesis using acquired [OF opened] by blast
qed

theorem read_pool_sound_witness:
  "snd (read_conn demo_pool_options demo_exhausted) = Inl (PoolExhausted 1 30000)"
  using read_pool_sound [OF demo_exhausted_reachable, of "PoolExhausted 1 30000"]
  by (simp add: demo_exhausted_def demo_pool_options_def pool_capacity_def open_options_default_def)

text \<open>Dropping a guard never blocks, and the next read gets a connection.\<close>

theorem guard_drop_serves_next:
  assumes "pool_reachable opts p" and "i < length (rp_guards p)"
  shows "\<exists>p' c. guard_drop opts i p = Some p' \<and> pool_reachable opts p' \<and>
    snd (read_conn opts p') = Inr c"
proof -
  have "length (rp_idle p) < pool_capacity opts"
    using pool_length [OF assms(1)] assms(2) by simp
  then obtain p' where p': "guard_drop opts i p = Some p'" "rp_idle p' \<noteq> []"
    by (simp add: guard_drop_def)
  then show ?thesis
    using dropped [OF assms p'(1)] by (cases "rp_idle p'") (auto simp: read_conn_def)
qed

end
