(* ===== verification/Correlation.thy ===== *)
theory Correlation
  imports Paging
begin

text \<open>
  Reading by correlation (\<open>read_by_correlation_impl\<close> and its bounded variant in
  \<open>src/cross_stream.rs\<close>, \<open>Store::read_by_correlation_bounded\<close> in \<open>src/store.rs\<close>). The bounded
  read orders by identity and resumes after the last identity it returned; it is a second
  instance of the paging contract.
\<close>

section \<open>Operations\<close>

definition read_by_correlation_impl :: "libs \<Rightarrow> db \<Rightarrow> event_id \<Rightarrow> stored_event list res" where
  "read_by_correlation_impl L d i =
     rows_to_events L
       (sort_key r_timestamp_us (filter (\<lambda>r. r_correlation_id r = Some i) (t_events d)))"

definition correlation_rows :: "db \<Rightarrow> event_id \<Rightarrow> event_id option \<Rightarrow> event_row list" where
  "correlation_rows d i resume_after =
     sort_key r_id (filter (\<lambda>r. r_correlation_id r = Some i \<and>
         (case resume_after of None \<Rightarrow> True | Some j \<Rightarrow> j < r_id r)) (t_events d))"

definition correlation_cursor :: "event_id \<Rightarrow> stored_event list \<Rightarrow> stored_event \<Rightarrow> cursor_inner" where
  "correlation_cursor i events event =
     CCorrelation (id_bytes i)
       (if events = [] then replicate 32 0 else id_bytes (ev_id (last events)))"

definition read_by_correlation_bounded_impl ::
  "libs \<Rightarrow> db \<Rightarrow> event_id \<Rightarrow> bytes option \<Rightarrow> nat option \<Rightarrow> nat option \<Rightarrow>
     stored_event list read_outcome res" where
  "read_by_correlation_bounded_impl L d i resume_after max_results max_bytes =
     bounded_scan L (correlation_cursor i) max_results max_bytes [] 0
       (correlation_rows d i (map_option EventId resume_after))"

definition correlation_resume :: "libs \<Rightarrow> truncation_cursor option \<Rightarrow> bytes option res" where
  "correlation_resume L resume =
     (case resume of
        None \<Rightarrow> Inr None
      | Some cursor \<Rightarrow>
          bind_res (cursor_decode L cursor) (\<lambda>inner.
            case inner of
              CCorrelation _ last_seen_id \<Rightarrow> Inr (Some last_seen_id)
            | _ \<Rightarrow> Inl (Internal ''cursor type mismatch: expected Correlation'')))"

definition fetch_correlation ::
  "libs \<Rightarrow> db \<Rightarrow> event_id \<Rightarrow> nat option \<Rightarrow> nat option \<Rightarrow> fetcher" where
  "fetch_correlation L d i max_results max_bytes resume =
     bind_res (correlation_resume L resume) (\<lambda>after.
       read_by_correlation_bounded_impl L d i after max_results max_bytes)"

section \<open>The paging contract\<close>

definition correlation_remaining ::
  "libs \<Rightarrow> db \<Rightarrow> event_id \<Rightarrow> truncation_cursor option \<Rightarrow> stored_event list" where
  "correlation_remaining L d i c =
     (case correlation_resume L c of
        Inl _ \<Rightarrow> []
      | Inr after \<Rightarrow> map (event_of L) (correlation_rows d i (map_option EventId after)))"

definition correlation_valid ::
  "libs \<Rightarrow> db \<Rightarrow> nat option \<Rightarrow> truncation_cursor option \<Rightarrow> bool" where
  "correlation_valid L d max_results c \<longleftrightarrow> cursor_codec_ok L \<and> log_wf L d \<and>
     max_results \<noteq> Some 0 \<and> (\<exists>after. correlation_resume L c = Inr after)"

lemma strict_correlation_rows:
  assumes "events_wf (t_events d)"
  shows "sorted_wrt (<) (map r_id (correlation_rows d i after))"
proof -
  have "distinct (map r_id (correlation_rows d i after))"
    using assms by (simp add: correlation_rows_def events_wf_def distinct_map_filter
        distinct_map_sort_key)
  then show ?thesis
    by (simp add: correlation_rows_def strict_sorted_iff)
qed

lemma set_correlation_rows:
  "set (correlation_rows d i after) = {r \<in> set (t_events d). r_correlation_id r = Some i \<and>
     (case after of None \<Rightarrow> True | Some j \<Rightarrow> j < r_id r)}"
  by (auto simp: correlation_rows_def)

lemma filter_gt_suffix:
  fixes f :: "'a \<Rightarrow> 'k::linorder"
  assumes "sorted_wrt (<) (map f (xs @ x # ys))"
  shows "filter (\<lambda>y. f x < f y) (xs @ x # ys) = ys"
  using assms by (auto simp: sorted_wrt_append filter_empty_conv filter_id_conv dest: less_asym)

lemma correlation_rows_resume:
  assumes wf: "events_wf (t_events d)"
    and split: "correlation_rows d i after = taken @ r # rest" and "taken \<noteq> []"
  shows "correlation_rows d i (Some (r_id (last taken))) = r # rest"
proof -
  define x where "x = last taken"
  have rows: "correlation_rows d i after = butlast taken @ x # (r # rest)"
    using split assms(3) by (simp add: x_def)
  then have "x \<in> set (correlation_rows d i after)" by simp
  then have "correlation_rows d i (Some (r_id x)) =
      filter (\<lambda>y. r_id x < r_id y) (correlation_rows d i after)"
    by (auto simp: correlation_rows_def filter_sort split: option.splits
        intro!: arg_cong [where f = "sort_key r_id"] filter_cong)
  also have "\<dots> = r # rest"
    unfolding rows
    by (rule filter_gt_suffix) (use strict_correlation_rows [OF wf, of i after] rows in metis)
  finally show ?thesis by (simp add: x_def)
qed

interpretation cp: paged_read "fetch_correlation L d i max_results max_bytes"
    "correlation_remaining L d i" "correlation_valid L d max_results"
  for L d i max_results max_bytes
proof
  fix c
  assume v: "correlation_valid L d max_results c"
  then have ok: "cursor_codec_ok L" "log_wf L d" "max_results \<noteq> Some 0"
    and wf: "events_wf (t_events d)"
    by (simp_all add: correlation_valid_def log_wf_def)
  from v obtain after where c: "correlation_resume L c = Inr after"
    by (auto simp: correlation_valid_def)
  let ?rows = "correlation_rows d i (map_option EventId after)"
  have readable: "rows_readable L ?rows"
    using ok(2) by (auto simp: log_wf_def rows_readable_def correlation_rows_def)
  have fetch: "fetch_correlation L d i max_results max_bytes c =
      bounded_scan L (correlation_cursor i) max_results max_bytes [] 0 ?rows"
    and rem: "correlation_remaining L d i c = map (event_of L) ?rows"
    by (simp_all add: fetch_correlation_def read_by_correlation_bounded_impl_def
        correlation_remaining_def c)
  obtain taken rest where split: "?rows = taken @ rest"
    and any: "?rows \<noteq> [] \<Longrightarrow> taken \<noteq> []"
    and out: "page_outcome L (correlation_cursor i) max_results taken rest
      (fetch_correlation L d i max_results max_bytes c)"
    unfolding fetch
    by (rule bounded_scan_page [OF ok(1) readable, of max_results max_bytes "correlation_cursor i"])
      (use ok(3) that in metis)
  show "fetch_correlation L d i max_results max_bytes c =
      Inr (Complete (correlation_remaining L d i c)) \<or>
    (\<exists>es c' r. fetch_correlation L d i max_results max_bytes c = Inr (Truncated es (Some c') r) \<and>
       es \<noteq> [] \<and> correlation_remaining L d i c = es @ correlation_remaining L d i (Some c') \<and>
       correlation_valid L d max_results (Some c'))"
  proof (cases rest)
    case Nil
    then show ?thesis using out split by (simp add: page_outcome_def rem)
  next
    case (Cons r rs)
    with any split have taken: "taken \<noteq> []" by auto
    from out Cons obtain c' reason where
      c': "cursor_encode L (correlation_cursor i (map (event_of L) taken) (event_of L r)) = Inr c'"
      and res: "fetch_correlation L d i max_results max_bytes c =
        Inr (Truncated (map (event_of L) taken) (Some c') reason)"
      by (auto simp: page_outcome_def)
    have "row_readable L (last taken)"
      using readable split taken by (simp add: rows_readable_def)
    then have "correlation_cursor i (map (event_of L) taken) (event_of L r) =
        CCorrelation (id_bytes i) (id_bytes (r_id (last taken)))"
      using taken by (simp add: correlation_cursor_def last_map event_of_simps)
    with c' cursor_roundtrip [OF ok(1)]
    have "cursor_decode L c' = Inr (CCorrelation (id_bytes i) (id_bytes (r_id (last taken))))"
      by (metis sum.inject(2))
    then have resume: "correlation_resume L (Some c') = Inr (Some (id_bytes (r_id (last taken))))"
      by (simp add: correlation_resume_def)
    then have "correlation_remaining L d i (Some c') = map (event_of L) rest"
      using correlation_rows_resume [OF wf split [unfolded Cons] taken] Cons
      by (simp add: correlation_remaining_def)
    then show ?thesis
      using res resume ok taken split by (auto simp: rem correlation_valid_def)
  qed
qed

text \<open>
  A loop over the correlation iterator ends and yields every event with the correlation
  exactly once, in the order of identities, for every page size but zero: nothing is lost or
  repeated at the page boundaries.
\<close>

theorem correlation_iterator_complete:
  assumes "cursor_codec_ok L" and "log_wf L d" and "max_results \<noteq> Some 0"
    and "length (t_events d) < n"
  shows "\<exists>rows. iter_collect (fetch_correlation L d i max_results max_bytes) n iter_start =
      Some (map (Inr \<circ> event_of L) rows) \<and>
    sorted_wrt (<) (map r_id rows) \<and>
    set rows = {r \<in> set (t_events d). r_correlation_id r = Some i}"
proof -
  let ?rows = "correlation_rows d i None"
  have "length ?rows \<le> length (t_events d)" by (simp add: correlation_rows_def)
  then have "iter_collect (fetch_correlation L d i max_results max_bytes) n iter_start =
      Some (map Inr (correlation_remaining L d i None))"
    using assms by (intro cp.collect_all) (simp_all add: correlation_valid_def
        correlation_resume_def correlation_remaining_def)
  then show ?thesis
    using assms(2) strict_correlation_rows [of d i None]
    by (intro exI [of _ ?rows]) (auto simp: correlation_remaining_def correlation_resume_def
        set_correlation_rows log_wf_def)
qed

theorem correlation_iterator_complete_witness:
  "\<exists>rows. iter_collect (fetch_correlation demo_libs demo_log (EventId [3]) (Some 1) None) 3 iter_start =
     Some (map (Inr \<circ> event_of demo_libs) rows)"
  using correlation_iterator_complete [OF demo_cursor_codec_ok demo_log_wf, of "Some 1" 3
      "EventId [3]" None]
  by (auto simp: demo_log_length)

end
