(* ===== verification/Store_Reads.thy ===== *)
theory Store_Reads
  imports Correlation Causation Aggregate
begin

text \<open>
  The reads of the store (\<open>Store::read_range\<close> to \<open>Store::aggregate_bounded\<close> in \<open>src/store.rs\<close>):
  each resolves its budget against the options, reads through a pooled connection, and passes
  what it read through the upcasters. As the upcasters may loop, a read gives an optional result.
\<close>

section \<open>Operations\<close>

definition upcast_events :: "upcaster_registry \<Rightarrow> stored_event list \<Rightarrow> stored_event list res option" where
  "upcast_events reg events = collect_run (apply_upcaster reg) events"

definition upcast_option ::
  "upcaster_registry \<Rightarrow> stored_event option \<Rightarrow> stored_event option res option" where
  "upcast_option reg event =
     (case event of
        None \<Rightarrow> Some (Inr None)
      | Some e \<Rightarrow> bind_run (apply_upcaster reg e) (\<lambda>e'. Some (Inr (Some e'))))"

definition upcast_outcome ::
  "upcaster_registry \<Rightarrow> stored_event list read_outcome \<Rightarrow> stored_event list read_outcome res option" where
  "upcast_outcome reg outcome =
     (case outcome of
        Complete events \<Rightarrow> bind_run (upcast_events reg events) (\<lambda>es. Some (Inr (Complete es)))
      | Truncated data cursor reason \<Rightarrow>
          bind_run (upcast_events reg data) (\<lambda>es. Some (Inr (Truncated es cursor reason))))"

definition effective :: "nat option \<Rightarrow> nat option \<Rightarrow> nat option" where
  "effective given dflt = (case given of None \<Rightarrow> dflt | Some n \<Rightarrow> Some n)"

definition store_read_range ::
  "libs \<Rightarrow> db \<Rightarrow> upcaster_registry \<Rightarrow> read_query \<Rightarrow> stored_event list res option" where
  "store_read_range L d reg q = bind_run (Some (read_range_impl L d q)) (upcast_events reg)"

definition store_read_range_bounded ::
  "libs \<Rightarrow> open_options \<Rightarrow> db \<Rightarrow> upcaster_registry \<Rightarrow> read_query \<Rightarrow> nat option \<Rightarrow> nat option \<Rightarrow>
     truncation_cursor option \<Rightarrow> stored_event list read_outcome res option" where
  "store_read_range_bounded L opts d reg q max_results max_bytes resume =
     bind_run (Some (fetch_range L d q (effective max_results (opt_default_max_results opts))
         (effective max_bytes (opt_default_max_bytes opts)) resume))
       (upcast_outcome reg)"

definition store_read_one ::
  "libs \<Rightarrow> db \<Rightarrow> upcaster_registry \<Rightarrow> event_id \<Rightarrow> stored_event option res option" where
  "store_read_one L d reg i = bind_run (Some (read_one_impl L d i)) (upcast_option reg)"

definition store_read_batch ::
  "libs \<Rightarrow> db \<Rightarrow> upcaster_registry \<Rightarrow> event_id list \<Rightarrow> stored_event list res option" where
  "store_read_batch L d reg ids = bind_run (Some (read_batch_impl L d ids)) (upcast_events reg)"

definition store_read_by_external_id ::
  "libs \<Rightarrow> db \<Rightarrow> upcaster_registry \<Rightarrow> string \<Rightarrow> string \<Rightarrow> stored_event option res option" where
  "store_read_by_external_id L d reg stream_id external_id =
     bind_run (Some (read_by_external_id_impl L d stream_id external_id)) (upcast_option reg)"

definition store_read_by_correlation ::
  "libs \<Rightarrow> db \<Rightarrow> upcaster_registry \<Rightarrow> event_id \<Rightarrow> stored_event list res option" where
  "store_read_by_correlation L d reg i =
     bind_run (Some (read_by_correlation_impl L d i)) (upcast_events reg)"

definition store_read_by_correlation_bounded ::
  "libs \<Rightarrow> open_options \<Rightarrow> db \<Rightarrow> upcaster_registry \<Rightarrow> event_id \<Rightarrow> nat option \<Rightarrow> nat option \<Rightarrow>
     truncation_cursor option \<Rightarrow> stored_event list read_outcome res option" where
  "store_read_by_correlation_bounded L opts d reg i max_results max_bytes resume =
     bind_run (Some (fetch_correlation L d i (effective max_results (opt_default_max_results opts))
         (effective max_bytes (opt_default_max_bytes opts)) resume))
       (upcast_outcome reg)"

definition store_walk_causation ::
  "libs \<Rightarrow> db \<Rightarrow> upcaster_registry \<Rightarrow> event_id \<Rightarrow> walk_direction \<Rightarrow> nat \<Rightarrow>
     stored_event list res option" where
  "store_walk_causation L d reg start direction max_depth =
     bind_run (Some (walk_causation_impl L d start direction max_depth)) (upcast_events reg)"

definition store_walk_causation_bounded ::
  "libs \<Rightarrow> open_options \<Rightarrow> db \<Rightarrow> upcaster_registry \<Rightarrow> event_id \<Rightarrow> walk_params \<Rightarrow>
     truncation_cursor option \<Rightarrow> stored_event list read_outcome res option" where
  "store_walk_causation_bounded L opts d reg start w resume =
     bind_run (Some (fetch_causation L d start
         (w\<lparr>wp_max_results := effective (wp_max_results w) (opt_default_max_results opts),
            wp_max_bytes := effective (wp_max_bytes w) (opt_default_max_bytes opts)\<rparr>) resume))
       (upcast_outcome reg)"

definition store_aggregate ::
  "libs \<Rightarrow> db \<Rightarrow> upcaster_registry \<Rightarrow> aggregate_query \<Rightarrow> ('s, 'o) aggregator \<Rightarrow> 's \<Rightarrow> 'o res option" where
  "store_aggregate L d reg q A s = aggregate_impl L d q A s reg"

definition store_aggregate_bounded ::
  "libs \<Rightarrow> open_options \<Rightarrow> db \<Rightarrow> upcaster_registry \<Rightarrow> aggregate_query \<Rightarrow> ('s, 'o) aggregator \<Rightarrow> 's \<Rightarrow>
     nat option \<Rightarrow> nat option \<Rightarrow> 'o read_outcome res option" where
  "store_aggregate_bounded L opts d reg q A s max_events_scanned max_bytes =
     aggregate_bounded_impl L d q A s reg
       (effective max_events_scanned (opt_default_max_results opts))
       (effective max_bytes (opt_default_max_bytes opts))"

section \<open>Bounded and unbounded reads agree\<close>

lemma upcast_events_append:
  "upcast_events reg (xs @ ys) = Some (Inr evs) \<longleftrightarrow>
     (\<exists>as bs. evs = as @ bs \<and> upcast_events reg xs = Some (Inr as) \<and> upcast_events reg ys = Some (Inr bs))"
  by (simp add: upcast_events_def collect_run_Inr_iff list_all2_append1) (metis list_all2_lengthD)

lemma upcast_events_length: "upcast_events reg xs = Some (Inr evs) \<Longrightarrow> length evs = length xs"
  by (auto simp: upcast_events_def collect_run_Inr_iff list_all2_lengthD)

text \<open>
  C35. A bounded read of the store, with whatever budgets and upcasters, returns a prefix of what the
  unbounded read of the same query returns, at most as many events as the effective limit and at
  least one if there is any; it says it is complete exactly when the prefix is everything.
\<close>

theorem store_bounded_read_is_prefix:
  fixes max_results max_bytes :: "nat option" and opts :: open_options
  assumes "cursor_codec_ok L" and wf: "log_wf L d" and "q_limit q = None"
    and all: "store_read_range L d reg q = Some (Inr evs)"
  defines "limit \<equiv> effective max_results (opt_default_max_results opts)"
  shows "\<exists>taken rest. evs = taken @ rest \<and>
    (\<forall>n. limit = Some n \<longrightarrow> length taken \<le> n) \<and> (evs \<noteq> [] \<longrightarrow> limit \<noteq> Some 0 \<longrightarrow> taken \<noteq> []) \<and>
    (if rest = []
     then store_read_range_bounded L opts d reg q max_results max_bytes None = Some (Inr (Complete taken))
     else \<exists>c reason. store_read_range_bounded L opts d reg q max_results max_bytes None =
            Some (Inr (Truncated taken (Some c) reason)))"
proof -
  let ?bytes = "effective max_bytes (opt_default_max_bytes opts)"
  have "rows_readable L (range_rows d q None)"
    by (simp add: range_rows_def log_wf_range(1) [OF wf])
  then have "read_range_impl L d q = Inr (map (event_of L) (range_rows d q None))"
    using assms(3) no_limit [OF wf]
    by (simp add: read_range_impl_def range_rows_def rows_to_events_readable)
  with all have up: "upcast_events reg (map (event_of L) (range_rows d q None)) = Some (Inr evs)"
    by (simp add: store_read_range_def)
  obtain taken rest where page: "range_rows d q None = taken @ rest"
    "within_budget limit ?bytes taken"
    "range_rows d q None \<noteq> [] \<Longrightarrow> limit \<noteq> Some 0 \<Longrightarrow> taken \<noteq> []"
    "rest = [] \<Longrightarrow> read_range_bounded_impl L d q None limit ?bytes = Inr (Complete (map (event_of L) taken))"
    "rest \<noteq> [] \<Longrightarrow> \<exists>c w. read_range_bounded_impl L d q None limit ?bytes =
       Inr (Truncated (map (event_of L) taken) (Some c)
         (if exceeds_count limit (length taken) then ResultCount else ByteSize)) \<and>
       range_resume L (Some c) = Inr (Some w) \<and> range_rows d q (Some w) = rest"
    using range_page [OF assms(1) wf, of q None limit ?bytes] by blast
  from up obtain as bs where split: "evs = as @ bs"
    and taken: "upcast_events reg (map (event_of L) taken) = Some (Inr as)"
    and rest: "upcast_events reg (map (event_of L) rest) = Some (Inr bs)"
    unfolding page(1) map_append upcast_events_append by blast
  have lengths: "length as = length taken" "length bs = length rest"
    using upcast_events_length [OF taken] upcast_events_length [OF rest] by simp_all
  have read: "store_read_range_bounded L opts d reg q max_results max_bytes None =
      bind_run (Some (read_range_bounded_impl L d q None limit ?bytes)) (upcast_outcome reg)"
    by (simp add: store_read_range_bounded_def fetch_range_def range_resume_def limit_def)
  have "\<forall>n. limit = Some n \<longrightarrow> length as \<le> n"
    using page(2) lengths by (auto simp: within_budget_def)
  moreover have "evs \<noteq> [] \<longrightarrow> limit \<noteq> Some 0 \<longrightarrow> as \<noteq> []"
    using page(1,3) lengths split upcast_events_length [OF up] by force
  moreover have "if bs = []
     then store_read_range_bounded L opts d reg q max_results max_bytes None = Some (Inr (Complete as))
     else \<exists>c reason. store_read_range_bounded L opts d reg q max_results max_bytes None =
            Some (Inr (Truncated as (Some c) reason))"
    using page(4,5) lengths taken by (cases rest) (auto simp: read upcast_outcome_def)
  ultimately show ?thesis using split by blast
qed

theorem store_bounded_read_is_prefix_witness:
  "\<exists>taken rest. [event_of demo_libs (demo_row 0), event_of demo_libs (demo_row 1)] = taken @ rest \<and>
     length taken \<le> 1"
proof -
  have "read_range_impl demo_libs demo_log (read_query_stream ''a/b'') =
      Inr [event_of demo_libs (demo_row 0), event_of demo_libs (demo_row 1)]"
    using demo_range_rows rows_to_events_readable [of demo_libs "[demo_row 0, demo_row 1]"]
    by (simp add: read_range_impl_def range_rows_def read_query_stream_def sql_limit_def i64_max_def
        row_readable_tags demo_row_def)
  then have "store_read_range demo_libs demo_log (\<lambda>_. None) (read_query_stream ''a/b'') =
      Some (Inr [event_of demo_libs (demo_row 0), event_of demo_libs (demo_row 1)])"
    by (simp add: store_read_range_def upcast_events_def apply_upcaster_def upcast_apply_def)
  from store_bounded_read_is_prefix [OF demo_cursor_codec_ok demo_log_wf _ this,
      of "Some 1" open_options_default None] show ?thesis
    by (auto simp: read_query_stream_def effective_def)
qed

end
