(* ===== verification/Reducers.thy ===== *)
theory Reducers
  imports Glob Demo_Libs
begin

text \<open>
  Reducers (\<open>src/reducers.rs\<close>, and \<open>apply_reducer_guarded\<close> in \<open>src/store.rs\<close>): the type-erased
  reducer, the registry of patterns with its ambiguity check, and the choice of the reducer of a
  stream. A panic of a reducer is a value of its result.
\<close>

section \<open>Reducers over bytes\<close>

datatype panic_payload = PanicStr string | PanicString string | PanicOther

datatype 'a call = Returned "'a res" | Panicked panic_payload

record boxed_reducer =
  rd_name :: string
  rd_version :: u32
  rd_state_schema_version :: u32
  rd_initial_state_bytes :: "bytes res"
  rd_apply_bytes :: "bytes \<Rightarrow> bytes \<Rightarrow> bytes call"

text \<open>
  A typed reducer with the codecs of its state and events, and its erasure. \<open>apply\<close> returns the
  new state or panics.
\<close>

record ('s, 'e) typed_reducer =
  tr_name :: string
  tr_version :: u32
  tr_state_schema_version :: u32
  tr_initial :: 's
  tr_apply :: "'s \<Rightarrow> 'e \<Rightarrow> panic_payload + 's"
  tr_encode :: "'s \<Rightarrow> string + bytes"
  tr_decode :: "bytes \<Rightarrow> string + 's"
  tr_decode_event :: "bytes \<Rightarrow> string + 'e"

definition erased_apply :: "('s, 'e) typed_reducer \<Rightarrow> bytes \<Rightarrow> bytes \<Rightarrow> bytes call" where
  "erased_apply r state_bytes event_payload =
     (case map_err MsgpackDecode (tr_decode r state_bytes) of
        Inl e \<Rightarrow> Returned (Inl e)
      | Inr state \<Rightarrow>
          (case map_err MsgpackDecode (tr_decode_event r event_payload) of
             Inl e \<Rightarrow> Returned (Inl e)
           | Inr event \<Rightarrow>
               (case tr_apply r state event of
                  Inl p \<Rightarrow> Panicked p
                | Inr new_state \<Rightarrow> Returned (map_err MsgpackEncode (tr_encode r new_state)))))"

definition erased_reducer :: "('s, 'e) typed_reducer \<Rightarrow> boxed_reducer" where
  "erased_reducer r =
     \<lparr>rd_name = tr_name r, rd_version = tr_version r,
      rd_state_schema_version = tr_state_schema_version r,
      rd_initial_state_bytes = map_err MsgpackEncode (tr_encode r (tr_initial r)),
      rd_apply_bytes = erased_apply r\<rparr>"

definition apply_reducer_guarded ::
  "boxed_reducer \<Rightarrow> bytes \<Rightarrow> stored_event \<Rightarrow> string \<Rightarrow> bytes res" where
  "apply_reducer_guarded reducer state_bytes event stream_id =
     (case rd_apply_bytes reducer state_bytes (ev_payload event) of
        Returned inner \<Rightarrow> inner
      | Panicked p \<Rightarrow>
          Inl (ReducerPanicked stream_id (rd_name reducer) (to_hex (ev_id event))
            (case p of PanicStr s \<Rightarrow> s | PanicString s \<Rightarrow> s
                     | PanicOther \<Rightarrow> ''<non-string panic payload>'')))"

section \<open>The registry\<close>

record reducer_entry =
  re_pattern :: string
  re_specificity :: nat
  re_reducer :: boxed_reducer
  re_policy :: snapshot_policy

type_synonym reducer_registry = "reducer_entry list"

definition validate_snapshot_policy :: "snapshot_policy \<Rightarrow> unit res" where
  "validate_snapshot_policy policy =
     (case policy of
        Manual \<Rightarrow> Inr ()
      | EveryNEvents n \<Rightarrow>
          if n = 0 then Inl (SnapshotPolicyInvalid EveryNEventsPositive) else Inr ()
      | EveryNSeconds n \<Rightarrow>
          if n = 0 then Inl (SnapshotPolicyInvalid EveryNSecondsPositive) else Inr ()
      | StateAdaptive _ _ \<Rightarrow> Inr ())"

definition patterns_may_overlap :: "string \<Rightarrow> string \<Rightarrow> bool" where
  "patterns_may_overlap a b =
     (let a_parts = split_on (CHR ''/'') a;
          b_parts = split_on (CHR ''/'') b;
          a_has_dstar = (''**'' \<in> set a_parts);
          b_has_dstar = (''**'' \<in> set b_parts)
      in if \<not> a_has_dstar \<and> \<not> b_has_dstar \<and> length a_parts \<noteq> length b_parts then False
         else if \<not> a_has_dstar \<and> \<not> b_has_dstar
         then list_all (\<lambda>(ap, bp). ap = ''*'' \<or> bp = ''*'' \<or> ap = bp) (zip a_parts b_parts)
         else True)"

fun check_ambiguous :: "string \<Rightarrow> nat \<Rightarrow> reducer_registry \<Rightarrow> unit res" where
  "check_ambiguous pattern spec [] = Inr ()"
| "check_ambiguous pattern spec (existing # entries) =
     (if patterns_may_overlap pattern (re_pattern existing) \<and> spec = re_specificity existing
      then Inl (ReducerPatternAmbiguous (re_pattern existing) pattern)
      else check_ambiguous pattern spec entries)"

definition register_with_policy ::
  "string \<Rightarrow> boxed_reducer \<Rightarrow> snapshot_policy \<Rightarrow> reducer_registry \<Rightarrow> reducer_registry res" where
  "register_with_policy pattern reducer policy entries =
     bind_res (validate_snapshot_policy policy) (\<lambda>_.
       let spec = specificity_score pattern
       in bind_res (check_ambiguous pattern spec entries) (\<lambda>_.
            Inr (entries @ [\<lparr>re_pattern = pattern, re_specificity = spec,
                             re_reducer = reducer, re_policy = policy\<rparr>])))"

definition register_reducer :: "string \<Rightarrow> boxed_reducer \<Rightarrow> reducer_registry \<Rightarrow> reducer_registry res" where
  "register_reducer pattern reducer = register_with_policy pattern reducer Manual"

fun best_entry :: "string \<Rightarrow> reducer_entry option \<Rightarrow> reducer_registry \<Rightarrow> reducer_entry option" where
  "best_entry stream_id best [] = best"
| "best_entry stream_id best (entry # entries) =
     best_entry stream_id
       (if glob_matches (re_pattern entry) stream_id then
          (case best of
             None \<Rightarrow> Some entry
           | Some b \<Rightarrow> if re_specificity entry > re_specificity b then Some entry else best)
        else best) entries"

definition find_arc_with_policy ::
  "reducer_registry \<Rightarrow> string \<Rightarrow> (boxed_reducer \<times> snapshot_policy) option" where
  "find_arc_with_policy entries stream_id =
     map_option (\<lambda>e. (re_reducer e, re_policy e)) (best_entry stream_id None entries)"

definition find_arc :: "reducer_registry \<Rightarrow> string \<Rightarrow> boxed_reducer option" where
  "find_arc entries stream_id = map_option fst (find_arc_with_policy entries stream_id)"

definition active_keys :: "reducer_registry \<Rightarrow> (string \<times> u32) list" where
  "active_keys entries =
     map (\<lambda>e. (rd_name (re_reducer e), rd_state_schema_version (re_reducer e))) entries"

definition find_by_name :: "reducer_registry \<Rightarrow> string \<Rightarrow> boxed_reducer option" where
  "find_by_name entries name =
     map_option re_reducer (find (\<lambda>e. rd_name (re_reducer e) = name) entries)"

text \<open>\<open>Store::get_reducer\<close> and \<open>Store::get_reducer_with_policy\<close>.\<close>

definition get_reducer :: "reducer_registry \<Rightarrow> string \<Rightarrow> boxed_reducer res" where
  "get_reducer reg stream_id = ok_or (ReducerNotFound stream_id) (find_arc reg stream_id)"

definition get_reducer_with_policy ::
  "reducer_registry \<Rightarrow> string \<Rightarrow> (boxed_reducer \<times> snapshot_policy) res" where
  "get_reducer_with_policy reg stream_id =
     ok_or (ReducerNotFound stream_id) (find_arc_with_policy reg stream_id)"

section \<open>The overlap check\<close>

lemma match_parts_no_dstar:
  "''**'' \<notin> set p \<Longrightarrow> match_parts p s \<longleftrightarrow> list_all2 (\<lambda>q t. q = ''*'' \<or> q = t) p s"
proof (induction p arbitrary: s)
  case (Cons q p)
  then have "q \<noteq> ''**''" and "''**'' \<notin> set p" by (simp_all, metis)
  then show ?case
    using Cons.IH by (cases s) (simp_all add: list_all2_Cons1)
qed simp

lemma common_instance_overlaps:
  "list_all2 (\<lambda>q t. q = star \<or> q = t) p s \<Longrightarrow> list_all2 (\<lambda>q t. q = star \<or> q = t) p' s \<Longrightarrow>
   length p = length p' \<and> list_all (\<lambda>(ap, bp). ap = star \<or> bp = star \<or> ap = bp) (zip p p')"
proof (induction p s arbitrary: p' rule: list_all2_induct)
  case (Cons q p t s)
  then obtain q' p'' where "p' = q' # p''" "q' = star \<or> q' = t"
    "list_all2 (\<lambda>q t. q = star \<or> q = t) p'' s" by (auto simp: list_all2_Cons2)
  with Cons.IH [of p''] Cons.hyps(1) show ?case by auto
qed simp

text \<open>Two patterns that match one stream are seen as overlapping.\<close>

lemma overlap_sound:
  assumes "glob_matches a s" and "glob_matches b s"
  shows "patterns_may_overlap a b"
proof (cases "''**'' \<in> set (split_on (CHR ''/'') a) \<or> ''**'' \<in> set (split_on (CHR ''/'') b)")
  case True
  then show ?thesis by (auto simp: patterns_may_overlap_def Let_def)
next
  case False
  with assms common_instance_overlaps [of "''*''" "split_on (CHR ''/'') a" "split_on (CHR ''/'') s"
      "split_on (CHR ''/'') b"]
  show ?thesis by (simp add: patterns_may_overlap_def glob_matches_def match_parts_no_dstar)
qed

section \<open>The reducer of a stream\<close>

text \<open>No stream has two reducers of the same specificity.\<close>

definition registry_ok :: "reducer_registry \<Rightarrow> bool" where
  "registry_ok entries \<longleftrightarrow>
     (\<forall>e \<in> set entries. re_specificity e = specificity_score (re_pattern e)) \<and>
     sorted_wrt (\<lambda>e e'. \<not> (patterns_may_overlap (re_pattern e') (re_pattern e) \<and>
        re_specificity e' = re_specificity e)) entries"

lemma check_ambiguous_iff:
  "check_ambiguous pattern spec entries = Inr () \<longleftrightarrow>
     (\<forall>e \<in> set entries. \<not> (patterns_may_overlap pattern (re_pattern e) \<and> spec = re_specificity e))"
  by (induction entries) auto

lemma registry_ok_register:
  assumes "registry_ok entries" and "register_with_policy pattern reducer policy entries = Inr entries'"
  shows "registry_ok entries'"
  using assms
  by (auto simp: registry_ok_def register_with_policy_def Let_def bind_res_Inr_iff
      check_ambiguous_iff sorted_wrt_append)

lemma registry_ok_unique:
  assumes "registry_ok entries" and "e \<in> set entries" and "e' \<in> set entries"
    and "glob_matches (re_pattern e) s" and "glob_matches (re_pattern e') s"
    and "re_specificity e = re_specificity e'"
  shows "e = e'"
proof -
  obtain i j where ij: "i < length entries" "entries ! i = e" "j < length entries" "entries ! j = e'"
    using assms(2,3) by (metis in_set_conv_nth)
  have "\<not> (a < b \<and> b < length entries \<and> {entries ! a, entries ! b} = {e, e'})" for a b
  proof
    assume "a < b \<and> b < length entries \<and> {entries ! a, entries ! b} = {e, e'}"
    with assms(1) have "\<not> (patterns_may_overlap (re_pattern (entries ! b)) (re_pattern (entries ! a)) \<and>
        re_specificity (entries ! b) = re_specificity (entries ! a))"
      and "{entries ! a, entries ! b} = {e, e'}"
      unfolding registry_ok_def sorted_wrt_iff_nth_less by blast+
    with overlap_sound [OF assms(4,5)] overlap_sound [OF assms(5,4)] assms(6) show False
      by (auto simp: doubleton_eq_iff)
  qed
  then have "i = j" using ij by (metis insert_commute nat_neq_iff)
  with ij show ?thesis by simp
qed

lemma best_entry_invariant:
  assumes "best = None \<or> (\<exists>b. best = Some b \<and> b \<in> A \<and> glob_matches (re_pattern b) s)"
    and "\<forall>e \<in> A. glob_matches (re_pattern e) s \<longrightarrow>
      (\<exists>b. best = Some b \<and> re_specificity e \<le> re_specificity b)"
  shows "case best_entry s best entries of
      None \<Rightarrow> \<forall>e \<in> A \<union> set entries. \<not> glob_matches (re_pattern e) s
    | Some b \<Rightarrow> b \<in> A \<union> set entries \<and> glob_matches (re_pattern b) s \<and>
        (\<forall>e \<in> A \<union> set entries. glob_matches (re_pattern e) s \<longrightarrow>
           re_specificity e \<le> re_specificity b)"
  using assms
proof (induction entries arbitrary: best A)
  case Nil
  then show ?case by (cases best) auto
next
  case (Cons e entries)
  let ?best = "if glob_matches (re_pattern e) s then
      (case best of None \<Rightarrow> Some e
       | Some b \<Rightarrow> if re_specificity e > re_specificity b then Some e else best) else best"
  have "?best = None \<or> (\<exists>b. ?best = Some b \<and> b \<in> insert e A \<and> glob_matches (re_pattern b) s)"
    using Cons.prems(1) by (auto split: option.splits)
  moreover have "\<forall>x \<in> insert e A. glob_matches (re_pattern x) s \<longrightarrow>
      (\<exists>b. ?best = Some b \<and> re_specificity x \<le> re_specificity b)"
    using Cons.prems by (fastforce split: option.splits)
  moreover have "insert e A \<union> set entries = A \<union> set (e # entries)" by auto
  ultimately show ?case
    using Cons.IH [of ?best "insert e A"] by (simp only: best_entry.simps)
qed

text \<open>
  C29. A registration that succeeds keeps the choice of the reducer unambiguous: for every stream
  the lookup returns the one matching entry that is strictly more specific than every other
  matching entry, whatever the order of registration, and nothing when no entry matches.
\<close>

theorem registry_most_specific:
  assumes "registry_ok entries"
    and "register_with_policy pattern reducer policy entries = Inr entries'"
  shows "registry_ok entries' \<and>
    (case find_arc_with_policy entries' s of
       None \<Rightarrow> \<forall>e \<in> set entries'. \<not> glob_matches (re_pattern e) s
     | Some (r, p) \<Rightarrow> \<exists>e \<in> set entries'. re_reducer e = r \<and> re_policy e = p \<and>
         glob_matches (re_pattern e) s \<and>
         (\<forall>e' \<in> set entries'. e' \<noteq> e \<longrightarrow> glob_matches (re_pattern e') s \<longrightarrow>
            specificity_score (re_pattern e') < specificity_score (re_pattern e)))"
proof -
  have ok: "registry_ok entries'" by (rule registry_ok_register [OF assms])
  have "case best_entry s None entries' of
      None \<Rightarrow> \<forall>e \<in> set entries'. \<not> glob_matches (re_pattern e) s
    | Some b \<Rightarrow> b \<in> set entries' \<and> glob_matches (re_pattern b) s \<and>
        (\<forall>e \<in> set entries'. glob_matches (re_pattern e) s \<longrightarrow>
           re_specificity e \<le> re_specificity b)"
  proof -
    have "(None :: reducer_entry option) = None \<or> (\<exists>b. None = Some b \<and> b \<in> {} \<and> glob_matches (re_pattern b) s)"
      by simp
    moreover have "\<forall>e \<in> {}. glob_matches (re_pattern e) s \<longrightarrow>
        (\<exists>b. None = Some b \<and> re_specificity e \<le> re_specificity b)" by simp
    ultimately show ?thesis
      using best_entry_invariant [of None "{}" s entries'] by (simp only: Un_empty_left)
  qed
  moreover have "specificity_score (re_pattern e') < specificity_score (re_pattern e)"
    if "e \<in> set entries'" "e' \<in> set entries'" "e' \<noteq> e" "glob_matches (re_pattern e) s"
      "glob_matches (re_pattern e') s" "re_specificity e' \<le> re_specificity e" for e e'
    using registry_ok_unique [OF ok that(1,2,4,5)] that ok unfolding registry_ok_def
    by (metis order_le_less)
  ultimately show ?thesis
    using ok by (cases "best_entry s None entries'") (auto simp: find_arc_with_policy_def)
qed

definition demo_reducer :: boxed_reducer where
  "demo_reducer =
     \<lparr>rd_name = ''count'', rd_version = 1, rd_state_schema_version = 1,
      rd_initial_state_bytes = Inr [],
      rd_apply_bytes = (\<lambda>st p. Returned (Inr (st @ p)))\<rparr>"

theorem registry_most_specific_witness:
  "\<exists>es r p. register_with_policy ''a/*'' demo_reducer Manual [] = Inr es \<and>
     find_arc_with_policy es ''a/b'' = Some (r, p) \<and> registry_ok es"
proof -
  have reg: "register_with_policy ''a/*'' demo_reducer Manual [] =
      Inr [\<lparr>re_pattern = ''a/*'', re_specificity = specificity_score ''a/*'',
            re_reducer = demo_reducer, re_policy = Manual\<rparr>]"
    by (simp add: register_with_policy_def validate_snapshot_policy_def Let_def)
  have "registry_ok []" by (simp add: registry_ok_def)
  from registry_most_specific [OF this reg, of "''a/b''"] reg show ?thesis
    by (auto simp: glob_matches_def split: option.splits)
qed

end
