(* ===== verification/Snapshots.thy ===== *)
theory Snapshots
  imports Paging Reducers
begin

text \<open>
  Snapshots (\<open>src/snapshots.rs\<close>) and the states computed from them (\<open>compute_state_bytes\<close>,
  \<open>take_snapshot\<close> and the historical reads of \<open>src/store.rs\<close>). A state is the fold of a reducer
  over the events of a branch; a snapshot stores such a state so that a later read folds only
  the events after it. The locale \<open>folded_log\<close> states what makes this sound, that the log splits
  at every version, and gives that resuming from a stored state is the full fold.
\<close>

section \<open>The table of snapshots\<close>

definition snapshot_matches ::
  "string \<Rightarrow> string \<Rightarrow> string \<Rightarrow> u32 \<Rightarrow> snapshot_row \<Rightarrow> bool" where
  "snapshot_matches s b reducer_name schema r \<longleftrightarrow>
     sr_stream_id r = s \<and> sr_branch r = b \<and> sr_reducer_name r = reducer_name \<and>
     sr_state_schema_version r = uint schema"

text \<open>\<open>ORDER BY version DESC LIMIT 1\<close>.\<close>

definition newest_snapshot :: "snapshot_row list \<Rightarrow> snapshot_row option" where
  "newest_snapshot rows =
     (case rev (sort_key sr_version rows) of [] \<Rightarrow> None | r # _ \<Rightarrow> Some r)"

definition find_latest_snapshot ::
  "db \<Rightarrow> string \<Rightarrow> string \<Rightarrow> string \<Rightarrow> u32 \<Rightarrow> u64 option \<Rightarrow> (u64 \<times> bytes) option" where
  "find_latest_snapshot d s b reducer_name schema max_ver =
     map_option (\<lambda>r. (as_u64 (sr_version r), sr_state_blob r))
       (newest_snapshot (filter (\<lambda>r. snapshot_matches s b reducer_name schema r \<and>
            (case max_ver of None \<Rightarrow> True | Some mv \<Rightarrow> sr_version r \<le> as_i64 mv))
          (t_snapshots d)))"

text \<open>\<open>INSERT OR REPLACE\<close>: a row with the same key is replaced.\<close>

definition write_snapshot ::
  "i64 \<Rightarrow> string \<Rightarrow> string \<Rightarrow> u64 \<Rightarrow> string \<Rightarrow> u32 \<Rightarrow> u32 \<Rightarrow> bytes \<Rightarrow> db \<Rightarrow> db \<times> snapshot_info" where
  "write_snapshot now s b version reducer_name reducer_version schema state_blob d =
     (d\<lparr>t_snapshots :=
          filter (\<lambda>r. \<not> (snapshot_matches s b reducer_name schema r \<and> sr_version r = as_i64 version))
            (t_snapshots d) @
          [\<lparr>sr_stream_id = s, sr_branch = b, sr_version = as_i64 version,
            sr_reducer_name = reducer_name, sr_reducer_version = uint reducer_version,
            sr_state_schema_version = uint schema, sr_state_blob = state_blob,
            sr_created_at = now\<rparr>]\<rparr>,
      \<lparr>sn_stream_id = s, sn_branch = b, sn_version = version, sn_reducer_name = reducer_name,
       sn_reducer_version = reducer_version, sn_state_schema_version = schema,
       sn_created_at = now\<rparr>)"

definition snapshot_info_impl ::
  "db \<Rightarrow> string \<Rightarrow> string \<Rightarrow> string \<Rightarrow> snapshot_info option" where
  "snapshot_info_impl d s b reducer_name =
     map_option (\<lambda>r.
         \<lparr>sn_stream_id = s, sn_branch = b, sn_version = as_u64 (sr_version r),
          sn_reducer_name = reducer_name, sn_reducer_version = word_of_int (sr_reducer_version r),
          sn_state_schema_version = word_of_int (sr_state_schema_version r),
          sn_created_at = sr_created_at r\<rparr>)
       (newest_snapshot (filter (\<lambda>r. sr_stream_id r = s \<and> sr_branch r = b \<and>
          sr_reducer_name r = reducer_name) (t_snapshots d)))"

text \<open>Garbage collection: one \<open>DELETE\<close> per distinct pair that is not active.\<close>

definition delete_snapshots :: "string \<Rightarrow> u32 \<Rightarrow> db \<Rightarrow> db \<times> nat" where
  "delete_snapshots name ver d =
     (let gone = (\<lambda>r. sr_reducer_name r = name \<and> sr_state_schema_version r = uint ver)
      in (d\<lparr>t_snapshots := filter (\<lambda>r. \<not> gone r) (t_snapshots d)\<rparr>,
          length (filter gone (t_snapshots d))))"

fun gc_loop :: "(string \<times> u32) list \<Rightarrow> (string \<times> u32) list \<Rightarrow> nat \<Rightarrow> db \<Rightarrow> db \<times> nat" where
  "gc_loop active [] n d = (d, n)"
| "gc_loop active ((name, ver) # existing) n d =
     (if (name, ver) \<notin> set active
      then (let (d', count) = delete_snapshots name ver d
            in gc_loop active existing (n + count) d')
      else gc_loop active existing n d)"

definition gc_orphaned_snapshots_impl :: "(string \<times> u32) list \<Rightarrow> db \<Rightarrow> db \<times> nat" where
  "gc_orphaned_snapshots_impl active d =
     (if active = [] then (d\<lparr>t_snapshots := []\<rparr>, length (t_snapshots d))
      else gc_loop active
        (map (\<lambda>(name, ver). (name, word_of_int ver))
          (remdups (map (\<lambda>r. (sr_reducer_name r, sr_state_schema_version r)) (t_snapshots d))))
        0 d)"

section \<open>States of a branch\<close>

definition fold_events ::
  "boxed_reducer \<Rightarrow> string \<Rightarrow> bytes \<Rightarrow> stored_event list \<Rightarrow> bytes res" where
  "fold_events reducer stream_id =
     fold_res (\<lambda>state event. apply_reducer_guarded reducer state event stream_id)"

definition branch_query :: "string \<Rightarrow> string \<Rightarrow> u64 \<Rightarrow> u64 option \<Rightarrow> read_query" where
  "branch_query s b from0 to0 =
     \<lparr>q_stream_id = s, q_branch = b, q_from_version = Some from0, q_to_version = to0,
      q_limit = None, q_event_type_filter = None\<rparr>"

definition snapshot_start ::
  "db \<Rightarrow> boxed_reducer \<Rightarrow> string \<Rightarrow> string \<Rightarrow> u64 option \<Rightarrow> (u64 \<times> bytes) res" where
  "snapshot_start d reducer s b max_ver =
     (case find_latest_snapshot d s b (rd_name reducer) (rd_state_schema_version reducer) max_ver of
        Some (v, blob) \<Rightarrow> Inr (v + 1, blob)
      | None \<Rightarrow> bind_res (rd_initial_state_bytes reducer) (\<lambda>bytes. Inr (0, bytes)))"

definition compute_state_bytes ::
  "libs \<Rightarrow> db \<Rightarrow> boxed_reducer \<Rightarrow> string \<Rightarrow> string \<Rightarrow> u64 option \<Rightarrow>
     (bytes \<times> stored_event list) res" where
  "compute_state_bytes L d reducer s b max_ver =
     bind_res (snapshot_start d reducer s b max_ver) (\<lambda>(start_v, bytes).
     bind_res (read_range_impl L d (branch_query s b start_v max_ver)) (\<lambda>events.
       Inr (bytes, events)))"

definition state_bytes ::
  "libs \<Rightarrow> db \<Rightarrow> boxed_reducer \<Rightarrow> string \<Rightarrow> string \<Rightarrow> u64 option \<Rightarrow> bytes res" where
  "state_bytes L d reducer s b max_ver =
     bind_res (compute_state_bytes L d reducer s b max_ver) (\<lambda>(bytes, events).
       fold_events reducer s bytes events)"

text \<open>The historical reads of the store, over the registry of reducers.\<close>

definition read_state_bytes_at_version ::
  "libs \<Rightarrow> db \<Rightarrow> reducer_registry \<Rightarrow> string \<Rightarrow> string \<Rightarrow> u64 \<Rightarrow> bytes res" where
  "read_state_bytes_at_version L d reg s b version =
     bind_res (get_reducer reg s) (\<lambda>reducer. state_bytes L d reducer s b (Some version))"

definition read_state_at_version ::
  "(bytes \<Rightarrow> string + 'a) \<Rightarrow> libs \<Rightarrow> db \<Rightarrow> reducer_registry \<Rightarrow> string \<Rightarrow> string \<Rightarrow> u64 \<Rightarrow> 'a res" where
  "read_state_at_version decode L d reg s b version =
     bind_res (get_reducer reg s) (\<lambda>reducer.
     bind_res (state_bytes L d reducer s b (Some version)) (\<lambda>bytes.
       map_err MsgpackDecode (decode bytes)))"

definition read_state_at_version_with_reducer ::
  "(bytes \<Rightarrow> string + 'a) \<Rightarrow> libs \<Rightarrow> db \<Rightarrow> reducer_registry \<Rightarrow> string \<Rightarrow> string \<Rightarrow> u64 \<Rightarrow> string \<Rightarrow>
     'a res" where
  "read_state_at_version_with_reducer decode L d reg s b version name =
     bind_res (ok_or (ReducerNotFoundByName name) (find_by_name reg name)) (\<lambda>reducer.
     bind_res (state_bytes L d reducer s b (Some version)) (\<lambda>bytes.
       map_err MsgpackDecode (decode bytes)))"

text \<open>
  \<open>take_snapshot\<close> reads under one connection and writes under another, so it is two steps: the
  plan made from the file as it is read (a state and its version, or the existing snapshot when
  there is nothing new), and the write into the file as it is by then.
\<close>

definition plan_snapshot ::
  "libs \<Rightarrow> boxed_reducer \<Rightarrow> string \<Rightarrow> string \<Rightarrow> db \<Rightarrow> (snapshot_info + u64 \<times> bytes) res" where
  "plan_snapshot L reducer s b d =
     (let prior = find_latest_snapshot d s b (rd_name reducer) (rd_state_schema_version reducer) None
      in bind_res (snapshot_start d reducer s b None) (\<lambda>(start_v, bytes).
         bind_res (read_range_impl L d (branch_query s b start_v None)) (\<lambda>evs.
           if evs = [] then
             if prior \<noteq> None then
               bind_res (ok_or (NoEventsToSnapshot s b) (snapshot_info_impl d s b (rd_name reducer)))
                 (\<lambda>info. Inr (Inl info))
             else Inl (NoEventsToSnapshot s b)
           else bind_res (fold_events reducer s bytes evs) (\<lambda>state.
             Inr (Inr (ev_version (last evs), state))))))"

definition finish_snapshot ::
  "i64 \<Rightarrow> boxed_reducer \<Rightarrow> string \<Rightarrow> string \<Rightarrow> snapshot_info + u64 \<times> bytes \<Rightarrow> db \<Rightarrow>
     db \<times> snapshot_info" where
  "finish_snapshot now reducer s b plan d =
     (case plan of
        Inl info \<Rightarrow> (d, info)
      | Inr (version, state) \<Rightarrow>
          write_snapshot now s b version (rd_name reducer) (rd_version reducer)
            (rd_state_schema_version reducer) state d)"

definition take_snapshot ::
  "libs \<Rightarrow> i64 \<Rightarrow> reducer_registry \<Rightarrow> string \<Rightarrow> string \<Rightarrow> db \<Rightarrow> (db \<times> snapshot_info) res" where
  "take_snapshot L now reg s b d =
     bind_res (get_reducer reg s) (\<lambda>reducer.
     bind_res (plan_snapshot L reducer s b d) (\<lambda>plan.
       Inr (finish_snapshot now reducer s b plan d)))"

section \<open>Logs that split\<close>

locale split_log =
  fixes log :: "int \<Rightarrow> int \<Rightarrow> 'x list"
  assumes log_split: "lo \<le> v + 1 \<Longrightarrow> v \<le> hi \<Longrightarrow> log lo hi = log lo v @ log (v + 1) hi"

locale folded_log = split_log log for log :: "int \<Rightarrow> int \<Rightarrow> 'x list" +
  fixes step :: "'s \<Rightarrow> 'x \<Rightarrow> 'e + 's" and init :: "'e + 's"
begin

definition full :: "int \<Rightarrow> 'e + 's" where
  "full hi = bind_res init (\<lambda>s. fold_res step s (log 0 hi))"

lemma resume:
  assumes "full v = Inr s" and "-1 \<le> v" and "v \<le> hi"
  shows "fold_res step s (log (v + 1) hi) = full hi"
proof -
  have "full hi = bind_res init (\<lambda>s0. fold_res step s0 (log 0 v @ log (v + 1) hi))"
    unfolding full_def using log_split [of 0 v hi] assms(2,3) by simp
  also have "\<dots> = bind_res (full v) (\<lambda>s. fold_res step s (log (v + 1) hi))"
    by (simp add: full_def fold_res_append bind_res_assoc)
  finally show ?thesis by (simp add: assms(1))
qed

end

definition branch_log :: "libs \<Rightarrow> db \<Rightarrow> string \<Rightarrow> string \<Rightarrow> int \<Rightarrow> int \<Rightarrow> stored_event list" where
  "branch_log L d s b lo hi = map (event_of L) (select_range d s b lo hi None)"

lemma select_range_split:
  assumes "lo \<le> v + 1" and "v \<le> hi"
  shows "select_range d s b lo hi f = select_range d s b lo v f @ select_range d s b (v + 1) hi f"
proof -
  have "filter (\<lambda>x. r_version x \<le> v) (select_range d s b lo hi f) = select_range d s b lo v f"
    unfolding select_range_def filter_sort filter_filter using assms
    by (auto intro!: arg_cong [where f = "sort_key r_version"] filter_cong)
  moreover have "filter (\<lambda>x. v < r_version x) (select_range d s b lo hi f) =
      select_range d s b (v + 1) hi f"
    unfolding select_range_def filter_sort filter_filter using assms
    by (auto intro!: arg_cong [where f = "sort_key r_version"] filter_cong)
  ultimately show ?thesis
    using filter_upto_split [OF sorted_select_range, of d s b lo hi f v] by simp
qed

interpretation bl: folded_log "branch_log L d s b"
    "\<lambda>state event. apply_reducer_guarded reducer state event s" "rd_initial_state_bytes reducer"
  for L d s b reducer
  by unfold_locales (simp only: branch_log_def map_append [symmetric] select_range_split [symmetric])

definition full_state ::
  "libs \<Rightarrow> db \<Rightarrow> boxed_reducer \<Rightarrow> string \<Rightarrow> string \<Rightarrow> int \<Rightarrow> bytes res" where
  "full_state L d reducer s b hi =
     bind_res (rd_initial_state_bytes reducer) (\<lambda>init. fold_events reducer s init (branch_log L d s b 0 hi))"

lemma full_state_full: "full_state L d reducer s b hi = bl.full L d s b reducer hi"
  by (simp add: full_state_def bl.full_def fold_events_def)

lemma read_branch:
  assumes "log_wf L d"
  shows "read_range_impl L d (branch_query s b v to0) =
    Inr (branch_log L d s b (as_i64 v) (upper_version to0))"
  using rows_to_events_readable [OF log_wf_range(1) [OF assms]] no_limit [OF assms]
  by (simp add: read_range_impl_def branch_query_def or_zero_def branch_log_def)

section \<open>The newest snapshot\<close>

lemma newest_snapshot_None [simp]: "newest_snapshot rows = None \<longleftrightarrow> rows = []"
proof -
  have "sort_key sr_version rows = [] \<longleftrightarrow> rows = []" by (metis length_0_conv length_sort)
  then show ?thesis
    by (cases "rev (sort_key sr_version rows)") (auto simp: newest_snapshot_def)
qed

lemma newest_snapshot_Some:
  assumes "newest_snapshot rows = Some r"
  shows "r \<in> set rows" and "r' \<in> set rows \<Longrightarrow> sr_version r' \<le> sr_version r"
proof -
  from assms obtain rs where rs: "sort_key sr_version rows = rs @ [r]"
    by (cases "sort_key sr_version rows" rule: rev_cases) (auto simp: newest_snapshot_def)
  have set: "set rows = set (rs @ [r])" unfolding rs [symmetric] by simp
  then show "r \<in> set rows" by simp
  have "sorted (map sr_version (rs @ [r]))" unfolding rs [symmetric] by simp
  then have "\<forall>x \<in> set rs. sr_version x \<le> sr_version r" by (simp add: sorted_append)
  then show "sr_version r' \<le> sr_version r" if "r' \<in> set rows" using that set by auto
qed

section \<open>Snapshots hold states of their branch\<close>

definition snapshots_ok :: "libs \<Rightarrow> db \<Rightarrow> boxed_reducer \<Rightarrow> string \<Rightarrow> string \<Rightarrow> bool" where
  "snapshots_ok L d reducer s b \<longleftrightarrow>
     (\<forall>row \<in> set (t_snapshots d).
        snapshot_matches s b (rd_name reducer) (rd_state_schema_version reducer) row \<longrightarrow>
        0 \<le> sr_version row \<and> sr_version row < next_version d s b \<and>
        full_state L d reducer s b (sr_version row) = Inr (sr_state_blob row))"

lemma next_version_bound:
  assumes "log_wf L d"
  shows "next_version d s b \<le> i64_max"
proof (cases "branch_versions d s b = []")
  case True
  then show ?thesis by (simp add: next_version_def max_version_def i64_max_def)
next
  case False
  from max_version_in [OF this] assms show ?thesis
    by (auto simp: branch_versions_def log_wf_def next_version_def)
qed

lemma snapshot_start_cases:
  assumes "log_wf L d" and "snapshots_ok L d reducer s b"
  obtains (initial) "find_latest_snapshot d s b (rd_name reducer) (rd_state_schema_version reducer) mv = None"
      and "snapshot_start d reducer s b mv =
        bind_res (rd_initial_state_bytes reducer) (\<lambda>bytes. Inr (0, bytes))"
  | (resumed) v blob where "snapshot_start d reducer s b mv = Inr (as_u64 (v + 1), blob)"
      and "find_latest_snapshot d s b (rd_name reducer) (rd_state_schema_version reducer) mv \<noteq> None"
      and "0 \<le> v" and "v \<le> upper_version mv" and "v < next_version d s b"
      and "full_state L d reducer s b v = Inr blob" and "as_i64 (as_u64 (v + 1)) = v + 1"
proof (cases "find_latest_snapshot d s b (rd_name reducer) (rd_state_schema_version reducer) mv")
  case None
  then show ?thesis using initial by (simp add: snapshot_start_def)
next
  case (Some vb)
  then obtain row where newest: "newest_snapshot (filter (\<lambda>r.
      snapshot_matches s b (rd_name reducer) (rd_state_schema_version reducer) r \<and>
      (case mv of None \<Rightarrow> True | Some mv \<Rightarrow> sr_version r \<le> as_i64 mv)) (t_snapshots d)) = Some row"
    and vb: "vb = (as_u64 (sr_version row), sr_state_blob row)"
    by (auto simp: find_latest_snapshot_def)
  note row = newest_snapshot_Some(1) [OF newest]
  then have ok: "0 \<le> sr_version row" "sr_version row < next_version d s b"
    "full_state L d reducer s b (sr_version row) = Inr (sr_state_blob row)"
    using assms(2) by (auto simp: snapshots_ok_def)
  moreover have "sr_version row \<le> upper_version mv"
    using row ok(2) next_version_bound [OF assms(1), of s b]
    by (auto simp: upper_version_def split: option.splits)
  moreover have "as_u64 (sr_version row) + 1 = as_u64 (sr_version row + 1)"
    by (simp add: as_u64_def)
  moreover have "as_i64 (as_u64 (sr_version row + 1)) = sr_version row + 1"
    using ok next_version_bound [OF assms(1), of s b] by (intro as_i64_as_u64) simp_all
  ultimately show ?thesis
    using resumed Some vb by (simp add: snapshot_start_def)
qed

lemma state_bytes_full:
  assumes "log_wf L d" and "snapshots_ok L d reducer s b"
  shows "state_bytes L d reducer s b mv = full_state L d reducer s b (upper_version mv)"
proof (rule snapshot_start_cases [OF assms, of mv])
  assume "snapshot_start d reducer s b mv =
    bind_res (rd_initial_state_bytes reducer) (\<lambda>bytes. Inr (0, bytes))"
  then show ?thesis
    by (simp add: state_bytes_def compute_state_bytes_def read_branch [OF assms(1)] bind_res_assoc
        full_state_def as_i64_def)
next
  fix v blob
  assume start: "snapshot_start d reducer s b mv = Inr (as_u64 (v + 1), blob)"
    and v: "0 \<le> v" "v \<le> upper_version mv" "as_i64 (as_u64 (v + 1)) = v + 1"
    and full: "full_state L d reducer s b v = Inr blob"
  have "state_bytes L d reducer s b mv =
      fold_events reducer s blob (branch_log L d s b (v + 1) (upper_version mv))"
    by (simp add: state_bytes_def compute_state_bytes_def read_branch [OF assms(1)] start v(3))
  also have "\<dots> = full_state L d reducer s b (upper_version mv)"
    using bl.resume [OF full [unfolded full_state_full]] v
    by (simp add: full_state_full fold_events_def)
  finally show ?thesis .
qed

text \<open>
  C30. Snapshots are invisible: when the stored snapshots of a reducer are states of the branch,
  computing a state from the newest usable snapshot gives exactly what folding the reducer over
  all events of the branch from the initial state gives, for the present and for every past
  version, errors included.
\<close>

theorem state_bytes_transparent:
  assumes "log_wf L d" and "snapshots_ok L d reducer s b"
  shows "state_bytes L d reducer s b mv = full_state L d reducer s b (upper_version mv)"
  by (rule state_bytes_full [OF assms])

text \<open>A file with a snapshot at the first of its two events, for the witnesses.\<close>

definition demo_snapshot_row :: snapshot_row where
  "demo_snapshot_row =
     \<lparr>sr_stream_id = ''a/b'', sr_branch = ''main'', sr_version = 0, sr_reducer_name = ''count'',
      sr_reducer_version = 1, sr_state_schema_version = 1, sr_state_blob = [7, 7],
      sr_created_at = 3\<rparr>"

definition demo_snap :: db where
  "demo_snap = demo_log\<lparr>t_snapshots := [demo_snapshot_row]\<rparr>"

lemma demo_snap_wf: "log_wf demo_libs demo_snap"
  using demo_log_wf by (simp add: demo_snap_def log_wf_def)

lemma demo_event: "event_of demo_libs (demo_row v) = 
    \<lparr>ev_id = EventId [word_of_int v], ev_stream_id = ''a/b'', ev_branch = ''main'',
     ev_version = as_u64 v, ev_timestamp_us = v, ev_causation_id = None,
     ev_correlation_id = None, ev_event_type = ''Ping'', ev_type_version = 1,
     ev_payload = [7, 7], ev_external_id = None, ev_indexed_tags = None\<rparr>"
  by (simp add: event_of_def row_to_event_def demo_row_def)

lemma demo_snap_log:
  "branch_log demo_libs demo_snap ''a/b'' ''main'' 0 0 = [event_of demo_libs (demo_row 0)]"
  "branch_log demo_libs demo_snap ''a/b'' ''main'' 0 i64_max =
     [event_of demo_libs (demo_row 0), event_of demo_libs (demo_row 1)]"
  by (simp_all add: branch_log_def select_range_def demo_snap_def demo_log_def demo_row_def
      type_filter_ok_def i64_max_def)

lemma demo_snap_full:
  "full_state demo_libs demo_snap demo_reducer ''a/b'' ''main'' 0 = Inr [7, 7]"
  "full_state demo_libs demo_snap demo_reducer ''a/b'' ''main'' i64_max = Inr [7, 7, 7, 7]"
  by (simp_all add: full_state_def demo_snap_log fold_events_def demo_event demo_reducer_def
      apply_reducer_guarded_def)

lemma demo_snap_ok: "snapshots_ok demo_libs demo_snap demo_reducer ''a/b'' ''main''"
proof -
  have "next_version demo_snap ''a/b'' ''main'' = 2"
    by (simp add: next_version_def max_version_def branch_versions_def demo_snap_def demo_log_def
        demo_row_def)
  then show ?thesis
    using demo_snap_full(1)
    by (simp add: snapshots_ok_def demo_snap_def demo_snapshot_row_def)
qed

theorem state_bytes_transparent_witness:
  "state_bytes demo_libs demo_snap demo_reducer ''a/b'' ''main'' None = Inr [7, 7, 7, 7]"
  using state_bytes_transparent [OF demo_snap_wf demo_snap_ok, of None] demo_snap_full(2)
  by (simp add: upper_version_def)

section \<open>Appends do not disturb snapshots\<close>

lemma branch_log_append_only:
  assumes "event_writes d d'" and "events_wf (t_events d)" and "v < next_version d s b"
  shows "branch_log L d' s b lo v = branch_log L d s b lo v"
proof -
  from event_writes_append_only [OF assms(1,2)] obtain new where
    new: "t_events d' = t_events d @ new"
    "\<forall>r \<in> set new. next_version d (r_stream_id r) (r_branch r) \<le> r_version r" by blast
  have "filter (\<lambda>r. r_stream_id r = s \<and> r_branch r = b \<and> lo \<le> r_version r \<and> r_version r \<le> v \<and>
      type_filter_ok None r) new = []"
    using new(2) assms(3) by (auto simp: filter_empty_conv)
  then show ?thesis by (simp add: branch_log_def select_range_def new(1))
qed

lemma full_state_append_only:
  "event_writes d d' \<Longrightarrow> events_wf (t_events d) \<Longrightarrow> v < next_version d s b \<Longrightarrow>
   full_state L d' reducer s b v = full_state L d reducer s b v"
  by (simp add: full_state_def branch_log_append_only)

lemma snapshots_ok_append:
  assumes "event_writes d d'" and "events_wf (t_events d)" and "snapshots_ok L d reducer s b"
  shows "snapshots_ok L d' reducer s b"
  using assms(3) event_writes_frame [OF assms(1)] event_writes_next_version [OF assms(1,2), of s b]
    full_state_append_only [OF assms(1,2)]
  by (fastforce simp: snapshots_ok_def)

text \<open>The state of a plan belongs to the version it is stored at.\<close>

lemma branch_log_last:
  assumes "log_wf L d" and "branch_log L d s b lo i64_max \<noteq> []" and "0 \<le> lo"
  obtains v where "ev_version (last (branch_log L d s b lo i64_max)) = as_u64 v"
    and "0 \<le> v" and "v < next_version d s b" and "v < i64_max"
    and "branch_log L d s b 0 v = branch_log L d s b 0 i64_max"
proof -
  let ?rows = "select_range d s b lo i64_max None"
  from assms(2) have ne: "?rows \<noteq> []" by (simp add: branch_log_def)
  define r where "r = last ?rows"
  have r: "r \<in> set ?rows" using ne by (simp add: r_def)
  have range: "0 \<le> r_version r" "r_version r < i64_max"
    using log_wf_range(3) [OF assms(1) r] by simp_all
  have "row_readable L r"
    using log_wf_range(1) [OF assms(1)] r by (auto simp: rows_readable_def)
  then have "ev_version (last (branch_log L d s b lo i64_max)) = as_u64 (r_version r)"
    using ne by (simp add: branch_log_def last_map r_def [symmetric] event_of_simps)
  moreover have "r_version r < next_version d s b"
    using next_version_fresh [of r d] r by (simp add: set_select_range)
  moreover have "branch_log L d s b 0 (r_version r) = branch_log L d s b 0 i64_max"
  proof -
    have top: "r_version x \<le> r_version r" if "x \<in> set ?rows" for x
    proof -
      have "sorted (map r_version (butlast ?rows @ [r]))"
        using sorted_select_range [of d s b lo i64_max None] ne by (simp add: r_def)
      moreover have "x \<in> set (butlast ?rows @ [r])"
        using that ne by (simp add: r_def)
      ultimately show ?thesis by (auto simp: sorted_append)
    qed
    have "r_version x \<le> r_version r"
      if "x \<in> set (t_events d)" "r_stream_id x = s" "r_branch x = b" "r_version x \<le> i64_max" for x
    proof (cases "lo \<le> r_version x")
      case True
      with that top show ?thesis by (simp add: set_select_range type_filter_ok_def)
    next
      case False
      with r show ?thesis by (simp add: set_select_range)
    qed
    then have "select_range d s b 0 (r_version r) None = select_range d s b 0 i64_max None"
      unfolding select_range_def using range
      by (auto intro!: arg_cong [where f = "sort_key r_version"] filter_cong)
    then show ?thesis by (simp add: branch_log_def)
  qed
  ultimately show ?thesis using that range by blast
qed

lemma plan_snapshot_state:
  assumes wf: "log_wf L d" and ok: "snapshots_ok L d reducer s b"
    and plan: "plan_snapshot L reducer s b d = Inr (Inr (version, state))"
  obtains v where "version = as_u64 v" and "0 \<le> v" and "v < next_version d s b" and "v < i64_max"
    and "full_state L d reducer s b v = Inr state"
proof -
  from plan obtain start_v bytes where start: "snapshot_start d reducer s b None = Inr (start_v, bytes)"
    and evs: "branch_log L d s b (as_i64 start_v) i64_max \<noteq> []"
    and state: "fold_events reducer s bytes (branch_log L d s b (as_i64 start_v) i64_max) = Inr state"
    and version: "version = ev_version (last (branch_log L d s b (as_i64 start_v) i64_max))"
    by (auto simp: plan_snapshot_def Let_def bind_res_Inr_iff read_branch [OF wf] upper_version_def
        split: if_splits)
  have "0 \<le> as_i64 start_v"
    by (rule snapshot_start_cases [OF wf ok, of None])
      (use start in \<open>auto simp: bind_res_def as_i64_def split: sum.splits\<close>)
  from branch_log_last [OF wf evs this] obtain v where v: "version = as_u64 v" "0 \<le> v"
    "v < next_version d s b" "v < i64_max"
    "branch_log L d s b 0 v = branch_log L d s b 0 i64_max"
    using version by metis
  have "state_bytes L d reducer s b None = Inr state"
    using start state
    by (simp add: state_bytes_def compute_state_bytes_def read_branch [OF wf] upper_version_def)
  then have "full_state L d reducer s b v = Inr state"
    using state_bytes_full [OF wf ok, of None] v(5)
    by (simp add: upper_version_def full_state_def)
  with v show ?thesis using that by blast
qed

lemma snapshots_ok_cong:
  assumes "t_events d' = t_events d"
    and "\<And>row. row \<in> set (t_snapshots d') \<Longrightarrow> row \<in> set (t_snapshots d) \<or>
      \<not> snapshot_matches s b (rd_name reducer) (rd_state_schema_version reducer) row"
    and "snapshots_ok L d reducer s b"
  shows "snapshots_ok L d' reducer s b"
proof -
  have "next_version d' s b = next_version d s b" "full_state L d' = full_state L d"
    using assms(1) by (simp_all add: next_version_def max_version_def branch_versions_def
        full_state_def branch_log_def select_range_def fun_eq_iff)
  with assms(2,3) show ?thesis unfolding snapshots_ok_def by metis
qed

lemma finish_snapshot_sound:
  assumes wf: "log_wf L d" and ok: "snapshots_ok L d reducer s b"
    and appends: "event_writes d d'"
    and plan: "plan_snapshot L reducer s b d = Inr plan"
    and fin: "finish_snapshot now reducer s b plan d' = (d'', info)"
  shows "snapshots_ok L d'' reducer s b \<and> t_events d'' = t_events d'"
proof -
  have ewf: "events_wf (t_events d)" using wf by (simp add: log_wf_def)
  have ok': "snapshots_ok L d' reducer s b" by (rule snapshots_ok_append [OF appends ewf ok])
  show ?thesis
  proof (cases plan)
    case (Inl i)
    with fin ok' show ?thesis by (simp add: finish_snapshot_def)
  next
    case (Inr vs)
    obtain version state where vs: "vs = (version, state)" by (cases vs)
    obtain v where v: "version = as_u64 v" "0 \<le> v" "v < next_version d s b" "v < i64_max"
      "full_state L d reducer s b v = Inr state"
      using plan_snapshot_state [OF wf ok plan [unfolded Inr vs]] .
    have "as_i64 version = v" using v by (simp add: as_i64_as_u64)
    then have d'': "d'' = d'\<lparr>t_snapshots := filter (\<lambda>r. \<not> (snapshot_matches s b (rd_name reducer)
          (rd_state_schema_version reducer) r \<and> sr_version r = v)) (t_snapshots d') @
        [\<lparr>sr_stream_id = s, sr_branch = b, sr_version = v, sr_reducer_name = rd_name reducer,
          sr_reducer_version = uint (rd_version reducer),
          sr_state_schema_version = uint (rd_state_schema_version reducer),
          sr_state_blob = state, sr_created_at = now\<rparr>]\<rparr>"
      using fin Inr vs by (auto simp: finish_snapshot_def write_snapshot_def)
    have same: "next_version d'' s b = next_version d' s b"
      "full_state L d'' reducer s b = full_state L d' reducer s b"
      by (simp_all add: d'' next_version_def max_version_def branch_versions_def full_state_def
          branch_log_def select_range_def fun_eq_iff)
    have "v < next_version d' s b"
      using v(3) event_writes_next_version [OF appends ewf, of s b] by simp
    moreover have "full_state L d' reducer s b v = Inr state"
      using full_state_append_only [OF appends ewf v(3)] v(5) by simp
    ultimately have "snapshots_ok L d'' reducer s b"
      using ok' v(2) unfolding snapshots_ok_def same by (auto simp: d'')
    then show ?thesis by (simp add: d'')
  qed
qed

text \<open>
  C31. Taking a snapshot is safe beside appends: when the snapshots of a reducer are states of the
  branch, and other appends commit between the read and the write of \<open>take_snapshot\<close>, the file
  after the write still has only snapshots that are states of the branch, and its events are as
  the appends left them.
\<close>

theorem take_snapshot_sound:
  assumes wf: "log_wf L d" and ok: "snapshots_ok L d reducer s b"
    and appends: "event_writes d d'"
    and plan: "plan_snapshot L reducer s b d = Inr plan"
    and fin: "finish_snapshot now reducer s b plan d' = (d'', info)"
  shows "snapshots_ok L d'' reducer s b \<and> t_events d'' = t_events d'"
  by (rule finish_snapshot_sound [OF assms])

theorem take_snapshot_sound_witness:
  "snapshots_ok demo_libs (fst (finish_snapshot 5 demo_reducer ''a/b'' ''main''
     (Inr (1, [7, 7, 7, 7])) demo_snap)) demo_reducer ''a/b'' ''main''"
proof -
  have find: "find_latest_snapshot demo_snap ''a/b'' ''main'' ''count'' 1 None = Some (0, [7, 7])"
    by (simp add: find_latest_snapshot_def newest_snapshot_def demo_snap_def demo_snapshot_row_def
        snapshot_matches_def as_u64_def)
  have "branch_log demo_libs demo_snap ''a/b'' ''main'' 1 i64_max = [event_of demo_libs (demo_row 1)]"
    by (simp add: branch_log_def select_range_def demo_snap_def demo_log_def demo_row_def
        type_filter_ok_def i64_max_def)
  then have "plan_snapshot demo_libs demo_reducer ''a/b'' ''main'' demo_snap = Inr (Inr (1, [7, 7, 7, 7]))"
    by (simp add: plan_snapshot_def snapshot_start_def read_branch [OF demo_snap_wf] find
        upper_version_def as_i64_def fold_events_def apply_reducer_guarded_def demo_event
        demo_reducer_def as_u64_def)
  from take_snapshot_sound [OF demo_snap_wf demo_snap_ok writes_refl this surjective_pairing]
  show ?thesis by blast
qed

section \<open>Garbage collection\<close>

definition orphaned :: "(string \<times> u32) list \<Rightarrow> snapshot_row \<Rightarrow> bool" where
  "orphaned active r \<longleftrightarrow>
     (sr_reducer_name r, word_of_int (sr_state_schema_version r)) \<notin> set active"

definition in_pairs :: "(string \<times> u32) list \<Rightarrow> (string \<times> u32) list \<Rightarrow> snapshot_row \<Rightarrow> bool" where
  "in_pairs active ps r \<longleftrightarrow>
     (\<exists>(name, ver) \<in> set ps. (name, ver) \<notin> set active \<and>
        sr_reducer_name r = name \<and> sr_state_schema_version r = uint ver)"

lemma in_pairs_simps [simp]:
  "\<not> in_pairs active [] r"
  "in_pairs active ((name, ver) # ps) r \<longleftrightarrow>
     (name, ver) \<notin> set active \<and> sr_reducer_name r = name \<and> sr_state_schema_version r = uint ver \<or>
     in_pairs active ps r"
  by (auto simp: in_pairs_def)

lemma length_filter_disj:
  "length (filter P xs) + length (filter Q (filter (\<lambda>x. \<not> P x) xs)) =
     length (filter (\<lambda>x. P x \<or> Q x) xs)"
  by (induction xs) auto

lemma gc_loop_result:
  "gc_loop active ps n d =
     (d\<lparr>t_snapshots := filter (\<lambda>r. \<not> in_pairs active ps r) (t_snapshots d)\<rparr>,
      n + length (filter (in_pairs active ps) (t_snapshots d)))"
proof (induction active ps n d rule: gc_loop.induct)
  case (2 active name ver ps n d)
  let ?here = "\<lambda>r. sr_reducer_name r = name \<and> sr_state_schema_version r = uint ver"
  show ?case
  proof (cases "(name, ver) \<in> set active")
    case True
    with 2(2) show ?thesis by simp
  next
    case False
    let ?d = "d\<lparr>t_snapshots := filter (\<lambda>r. \<not> ?here r) (t_snapshots d)\<rparr>"
    and ?n = "n + length (filter ?here (t_snapshots d))"
    have del: "delete_snapshots name ver d = (?d, length (filter ?here (t_snapshots d)))"
      by (simp add: delete_snapshots_def)
    then have "gc_loop active ((name, ver) # ps) n d = gc_loop active ps ?n ?d"
      using False by simp
    also have "\<dots> = (?d\<lparr>t_snapshots := filter (\<lambda>r. \<not> in_pairs active ps r) (t_snapshots ?d)\<rparr>,
        ?n + length (filter (in_pairs active ps) (t_snapshots ?d)))"
      by (rule 2(1) [OF False del [symmetric] refl])
    finally show ?thesis
      using False length_filter_disj [of ?here "t_snapshots d" "in_pairs active ps"]
      by (simp add: conj_commute)
  qed
qed simp

text \<open>
  Garbage collection deletes exactly the snapshots whose reducer and schema version belong to
  no registered reducer, reports their number, and touches nothing else; so it keeps every state
  the registered reducers can use.
\<close>

theorem gc_orphaned_exact:
  assumes "\<And>r. r \<in> set (t_snapshots d) \<Longrightarrow>
    0 \<le> sr_state_schema_version r \<and> sr_state_schema_version r < 2 ^ 32"
  shows "gc_orphaned_snapshots_impl active d =
    (d\<lparr>t_snapshots := filter (\<lambda>r. \<not> orphaned active r) (t_snapshots d)\<rparr>,
     length (filter (orphaned active) (t_snapshots d)))"
proof (cases "active = []")
  case True
  then have "orphaned active = (\<lambda>_. True)" by (simp add: orphaned_def fun_eq_iff)
  with True show ?thesis by (simp add: gc_orphaned_snapshots_impl_def)
next
  case False
  let ?ps = "map (\<lambda>(name, ver). (name, word_of_int ver :: u32))
          (remdups (map (\<lambda>r. (sr_reducer_name r, sr_state_schema_version r)) (t_snapshots d)))"
  have range: "uint (word_of_int (sr_state_schema_version r) :: u32) = sr_state_schema_version r"
    if "r \<in> set (t_snapshots d)" for r
    using assms [OF that] by (simp add: uint_word_of_int)
  have "in_pairs active ?ps r = orphaned active r" if r: "r \<in> set (t_snapshots d)" for r
    using range r by (force simp: orphaned_def in_pairs_def)
  then have "filter (\<lambda>r. \<not> in_pairs active ?ps r) (t_snapshots d) =
      filter (\<lambda>r. \<not> orphaned active r) (t_snapshots d)"
    "filter (in_pairs active ?ps) (t_snapshots d) = filter (orphaned active) (t_snapshots d)"
    by (auto intro: filter_cong)
  then show ?thesis
    using False by (simp only: gc_orphaned_snapshots_impl_def gc_loop_result if_False add_0)
qed

theorem gc_orphaned_exact_witness:
  "gc_orphaned_snapshots_impl [(''other'', 1)] demo_snap = (demo_snap\<lparr>t_snapshots := []\<rparr>, 1)"
  using gc_orphaned_exact [of demo_snap "[(''other'', 1)]"]
  by (simp add: demo_snap_def demo_snapshot_row_def orphaned_def)

end
