(* ===== verification/Deletion.thy ===== *)
theory Deletion
  imports Append
begin

text \<open>
  Removing an event (\<open>src/deletion.rs\<close>) and the consumer cursors (\<open>src/cursors.rs\<close>). A purge is
  one transaction that records an audit event on the system stream and deletes the row; the model
  returns the new file only when the whole transaction commits.
\<close>

section \<open>Purging an event\<close>

definition PURGE_CONFIRM :: string where
  "PURGE_CONFIRM = ''I understand this breaks replay-from-zero''"

definition PURGED_EVENT_TYPE :: string where
  "PURGED_EVENT_TYPE = ''Purged''"

definition json_i64 :: "i64 \<Rightarrow> json" where
  "json_i64 v = JNumber (if v < 0 then NegInt v else PosInt (word_of_int v))"

text \<open>The entries in the order of the JSON map, which is sorted by key.\<close>

definition purged_payload ::
  "event_id \<Rightarrow> event_row \<Rightarrow> string \<Rightarrow> i64 \<Rightarrow> string \<Rightarrow> json" where
  "purged_payload i row reason purged_at_us purged_by =
     JObject
       [(''event_id_purged'', JString (to_hex i)),
        (''original_event_type'', JString (r_event_type row)),
        (''original_stream_id'', JString (r_stream_id row)),
        (''original_timestamp_us'', json_i64 (r_timestamp_us row)),
        (''purged_at_us'', json_i64 purged_at_us),
        (''purged_by'', JString purged_by),
        (''reason'', JString reason)]"

definition purged_row :: "event_id \<Rightarrow> i64 \<Rightarrow> i64 \<Rightarrow> bytes \<Rightarrow> event_row" where
  "purged_row i next purged_at_us payload_bytes =
     \<lparr>r_id = i, r_stream_id = SYSTEM_STREAM, r_branch = ''main'', r_version = next,
      r_timestamp_us = purged_at_us, r_causation_id = None, r_correlation_id = None,
      r_event_type = PURGED_EVENT_TYPE, r_type_version = 1, r_payload = payload_bytes,
      r_external_id = None, r_indexed_tags = None\<rparr>"

definition delete_event :: "event_id \<Rightarrow> db \<Rightarrow> db" where
  "delete_event i d = d\<lparr>t_events := filter (\<lambda>r. r_id r \<noteq> i) (t_events d)\<rparr>"

definition purge_event_impl ::
  "libs \<Rightarrow> i64 \<Rightarrow> event_id \<Rightarrow> string \<Rightarrow> string \<Rightarrow> string \<Rightarrow> db \<Rightarrow> db res" where
  "purge_event_impl L now i confirm reason purged_by d =
     (if confirm \<noteq> PURGE_CONFIRM then Inl (PurgeConfirmationError confirm)
      else case find (\<lambda>r. r_id r = i) (t_events d) of
        None \<Rightarrow> Inl (EventNotFound (to_hex i))
      | Some row \<Rightarrow>
          let payload = purged_payload i row reason now purged_by;
              d1 = stream_insert_or_ignore
                 \<lparr>st_id = SYSTEM_STREAM, st_declared_by = ''fossic-internal'',
                  st_declared_at = 0, st_description = Some ''Internal fossic system events''\<rparr> d
          in bind_res (map_err Cce (derive_event_id L PURGED_EVENT_TYPE 1 None payload))
               (\<lambda>purged_id_bytes.
             bind_res (map_err MsgpackEncode (mp_to_vec L payload)) (\<lambda>payload_bytes.
             let d2 = fst (event_insert_or_ignore
                   (purged_row (EventId purged_id_bytes)
                     (next_version d1 SYSTEM_STREAM ''main'') now payload_bytes) d1)
             in Inr (delete_event i d2))))"

text \<open>The messages are the feature names the code puts in the error.\<close>

definition shred_stream_impl :: "encryption_mode \<Rightarrow> string \<Rightarrow> string \<Rightarrow> unit res" where
  "shred_stream_impl encryption stream_id reason =
     (case encryption of
        Plaintext \<Rightarrow> Inl (NotImplemented (''shred_stream requires encryption mode; '' @
          ''open the store with OpenOptions::encryption = OsKeyring or EnvVar''))
      | _ \<Rightarrow> Inl (NotImplemented ''shred_stream (crypto-shredding implementation is a future track)''))"

section \<open>What a purge does\<close>

lemma insert_stream_events [simp]:
  "t_events (stream_insert_or_ignore row d) = t_events d"
  by (simp add: stream_insert_or_ignore_def)

lemma purged_payload_cong [simp]:
  "purged_payload i (row\<lparr>r_payload := x\<rparr>) = purged_payload i row"
  by (simp add: purged_payload_def fun_eq_iff)

lemma purge_Inr:
  "purge_event_impl L now i confirm reason purged_by d = Inr d' \<longleftrightarrow>
     confirm = PURGE_CONFIRM \<and>
     (\<exists>row idb pb. find (\<lambda>r. r_id r = i) (t_events d) = Some row \<and>
        derive_event_id L PURGED_EVENT_TYPE 1 None (purged_payload i row reason now purged_by) = Inr idb \<and>
        mp_to_vec L (purged_payload i row reason now purged_by) = Inr pb \<and>
        d' = delete_event i (fst (event_insert_or_ignore
          (purged_row (EventId idb) (next_version d SYSTEM_STREAM ''main'') now pb)
          (stream_insert_or_ignore
             \<lparr>st_id = SYSTEM_STREAM, st_declared_by = ''fossic-internal'',
              st_declared_at = 0, st_description = Some ''Internal fossic system events''\<rparr> d))))"
  by (auto simp: purge_event_impl_def Let_def bind_res_Inr_iff map_err_Inr_iff next_version_def
      max_version_def branch_versions_def split: option.splits)

lemma purged_row_simps [simp]:
  "r_id (purged_row i v t pb) = i" "r_stream_id (purged_row i v t pb) = SYSTEM_STREAM"
  "r_branch (purged_row i v t pb) = ''main''" "r_version (purged_row i v t pb) = v"
  by (simp_all add: purged_row_def)

lemma purge_events:
  assumes "purge_event_impl L now i confirm reason purged_by d = Inr d'"
  obtains row idb pb where "row \<in> set (t_events d)" and "r_id row = i"
    and "derive_event_id L PURGED_EVENT_TYPE 1 None (purged_payload i row reason now purged_by) = Inr idb"
    and "mp_to_vec L (purged_payload i row reason now purged_by) = Inr pb"
    and "t_events d' = filter (\<lambda>r. r_id r \<noteq> i) (t_events d) @
      (if EventId idb \<in> r_id ` set (t_events d) then []
       else [purged_row (EventId idb) (next_version d SYSTEM_STREAM ''main'') now pb])"
proof -
  from assms obtain row idb pb where
    row: "find (\<lambda>r. r_id r = i) (t_events d) = Some row"
    and idb: "derive_event_id L PURGED_EVENT_TYPE 1 None (purged_payload i row reason now purged_by) = Inr idb"
    and pb: "mp_to_vec L (purged_payload i row reason now purged_by) = Inr pb"
    and d': "d' = delete_event i (fst (event_insert_or_ignore
          (purged_row (EventId idb) (next_version d SYSTEM_STREAM ''main'') now pb)
          (stream_insert_or_ignore
             \<lparr>st_id = SYSTEM_STREAM, st_declared_by = ''fossic-internal'',
              st_declared_at = 0, st_description = Some ''Internal fossic system events''\<rparr> d)))"
    unfolding purge_Inr by blast
  let ?row = "purged_row (EventId idb) (next_version d SYSTEM_STREAM ''main'') now pb"
  let ?d1 = "stream_insert_or_ignore
             \<lparr>st_id = SYSTEM_STREAM, st_declared_by = ''fossic-internal'',
              st_declared_at = 0, st_description = Some ''Internal fossic system events''\<rparr> d"
  from find_Some_set [OF row] have in_d: "row \<in> set (t_events d)" "r_id row = i" by auto
  have "event_conflict ?d1 ?row \<longleftrightarrow> EventId idb \<in> r_id ` set (t_events ?d1)"
    by (subst event_conflict_id)
      (simp_all add: next_version_def max_version_def branch_versions_def)
  then have conflict: "event_conflict ?d1 ?row \<longleftrightarrow> EventId idb \<in> r_id ` set (t_events d)"
    by simp
  have "EventId idb \<noteq> i" if "EventId idb \<notin> r_id ` set (t_events d)"
    using in_d that by auto
  then have "t_events d' = filter (\<lambda>r. r_id r \<noteq> i) (t_events d) @
      (if EventId idb \<in> r_id ` set (t_events d) then [] else [?row])"
    unfolding d' by (simp add: delete_event_def event_insert_or_ignore_def conflict)
  with in_d idb pb show ?thesis using that by blast
qed


text \<open>A file with one event that is then purged, for the witnesses.\<close>

definition demo_event_row :: event_row where
  "demo_event_row =
     \<lparr>r_id = EventId [7], r_stream_id = ''a/b'', r_branch = ''main'', r_version = 0,
      r_timestamp_us = 4, r_causation_id = None, r_correlation_id = None,
      r_event_type = ''Ping'', r_type_version = 1, r_payload = [1, 2], r_external_id = None,
      r_indexed_tags = None\<rparr>"

definition demo_one :: db where
  "demo_one = demo_db\<lparr>t_events := [demo_event_row]\<rparr>"

lemma demo_one_wf: "events_wf (t_events demo_one)" "versions_dense demo_one"
  by (simp_all add: demo_one_def demo_event_row_def events_wf_def row_key_def versions_dense_def
      branch_versions_def)

lemma short_encodable: "length s \<le> 64 \<Longrightarrow> str_encodable demo_libs s"
  by (simp add: str_encodable_def MAX_STRING_BYTES_def)

lemma demo_purge_ok: "\<exists>d'. purge_event_impl demo_libs 9 (EventId [7]) PURGE_CONFIRM ''gdpr'' ''ops'' demo_one = Inr d'"
proof -
  let ?p = "purged_payload (EventId [7]) demo_event_row ''gdpr'' 9 ''ops''"
  have "encodable demo_libs ?p"
    by (simp add: purged_payload_def json_i64_def demo_event_row_def short_encodable
        str_encodable_def MAX_STRING_BYTES_def to_hex_def hex_byte_def number_encodable_def i64_max_def)
  then have "\<exists>idb. derive_event_id demo_libs PURGED_EVENT_TYPE 1 None ?p = Inr idb"
    by (simp add: derive_event_id_Inr event_preimage_eq short_encodable PURGED_EVENT_TYPE_def)
  moreover have "find (\<lambda>r. r_id r = EventId [7]) (t_events demo_one) = Some demo_event_row"
    by (simp add: demo_one_def demo_event_row_def)
  ultimately show ?thesis unfolding purge_Inr by auto
qed


section \<open>Versions after a purge\<close>

lemma next_version_set:
  assumes "set (branch_versions d s b) = int ` {..<n}"
  shows "next_version d s b = int n"
proof (cases n)
  case 0
  with assms show ?thesis by (simp add: next_version_def max_version_def)
next
  case (Suc m)
  then have "branch_versions d s b \<noteq> []" using assms by auto
  then have "max_version d s b = Max (int ` {..m})"
    using assms Suc by (auto simp: max_version_def lessThan_Suc_atMost split: list.splits)
  also have "\<dots> = int m" by (intro Max_eqI) auto
  finally show ?thesis by (simp add: next_version_def Suc)
qed

lemma purge_branch_versions:
  assumes wf: "events_wf (t_events d)" and p: "purge_event_impl L now (r_id r) confirm reason purged_by d = Inr d'"
    and r: "r \<in> set (t_events d)" and "r_stream_id r \<noteq> SYSTEM_STREAM"
  shows "set (branch_versions d' (r_stream_id r) (r_branch r)) =
    set (branch_versions d (r_stream_id r) (r_branch r)) - {r_version r}"
proof -
  let ?on = "\<lambda>x. r_stream_id x = r_stream_id r \<and> r_branch x = r_branch r"
  from purge_events [OF p] obtain idb pb where "t_events d' = filter (\<lambda>x. r_id x \<noteq> r_id r) (t_events d) @
      (if EventId idb \<in> r_id ` set (t_events d) then []
       else [purged_row (EventId idb) (next_version d SYSTEM_STREAM ''main'') now pb])"
    by metis
  then have "filter ?on (t_events d') = filter (\<lambda>x. r_id x \<noteq> r_id r \<and> ?on x) (t_events d)"
    using assms(4) by (simp add: filter_filter conj_ac)
  moreover have "r_id x = r_id r \<longleftrightarrow> r_version x = r_version r" if "x \<in> set (t_events d)" "?on x" for x
    using wf r that unfolding events_wf_def row_key_def distinct_map inj_on_def by auto
  ultimately show ?thesis by (auto simp: branch_versions_def)
qed

text \<open>
  After the newest event of a branch is purged, the next append to the branch gets the version
  of the purged event again: a consumer that has recorded that version as processed does not see
  the new event as new.
\<close>

theorem purge_last_reuses_version:
  assumes "events_wf (t_events d)" and "versions_dense d"
    and "r \<in> set (t_events d)" and "r_version r = max_version d (r_stream_id r) (r_branch r)"
    and "r_stream_id r \<noteq> SYSTEM_STREAM"
    and "purge_event_impl L now (r_id r) confirm reason purged_by d = Inr d'"
  shows "next_version d' (r_stream_id r) (r_branch r) = r_version r"
proof -
  let ?vs = "branch_versions d (r_stream_id r) (r_branch r)"
  define n where "n = length ?vs"
  have dense: "?vs = map int [0..<n]" using assms(2) by (simp add: versions_dense_def n_def)
  have "r_version r \<in> set ?vs" using assms(3) by (auto simp: branch_versions_def)
  then have "n \<noteq> 0" unfolding dense by auto
  then obtain m where m: "n = Suc m" by (cases n) auto
  have v: "r_version r = int m"
    using next_version_dense [OF assms(2), of "r_stream_id r" "r_branch r"] assms(4) m
    by (simp add: next_version_def n_def)
  have "set ?vs - {int m} = int ` {..<m}"
    unfolding dense m by (auto simp: image_iff less_Suc_eq simp del: upt_Suc)
  then have "set (branch_versions d' (r_stream_id r) (r_branch r)) = int ` {..<m}"
    using purge_branch_versions [OF assms(1,6,3,5)] v by simp
  from next_version_set [OF this] show ?thesis by (simp add: v)
qed

theorem purge_last_reuses_version_witness:
  "\<exists>d'. purge_event_impl demo_libs 9 (EventId [7]) PURGE_CONFIRM ''gdpr'' ''ops'' demo_one = Inr d' \<and>
     next_version d' ''a/b'' ''main'' = 0"
proof -
  obtain d' where p: "purge_event_impl demo_libs 9 (EventId [7]) PURGE_CONFIRM ''gdpr'' ''ops'' demo_one = Inr d'"
    using demo_purge_ok by blast
  have r: "demo_event_row \<in> set (t_events demo_one)" "r_id demo_event_row = EventId [7]"
    "r_stream_id demo_event_row = ''a/b''" "r_branch demo_event_row = ''main''"
    "r_version demo_event_row = 0"
    by (simp_all add: demo_one_def demo_event_row_def)
  have "r_version demo_event_row = max_version demo_one (r_stream_id demo_event_row) (r_branch demo_event_row)"
    by (simp add: max_version_def branch_versions_def demo_one_def demo_event_row_def)
  from purge_last_reuses_version [OF demo_one_wf r(1) this, of demo_libs 9 PURGE_CONFIRM "''gdpr''" "''ops''" d']
  have "next_version d' ''a/b'' ''main'' = 0"
    using p r by (simp add: SYSTEM_STREAM_def)
  with p show ?thesis by blast
qed

section \<open>Consumer cursors\<close>

definition cursor_matches :: "string \<Rightarrow> string \<Rightarrow> string \<Rightarrow> cursor_row \<Rightarrow> bool" where
  "cursor_matches consumer s b r \<longleftrightarrow>
     cu_consumer_id r = consumer \<and> cu_stream_id r = s \<and> cu_branch r = b"

definition get_cursor_impl :: "db \<Rightarrow> string \<Rightarrow> string \<Rightarrow> string \<Rightarrow> u64 option" where
  "get_cursor_impl d consumer s b =
     map_option (\<lambda>r. as_u64 (cu_version r)) (find (cursor_matches consumer s b) (t_cursors d))"

text \<open>\<open>INSERT \<dots> ON CONFLICT DO UPDATE\<close>: the row with the key is updated, or a new one added.\<close>

definition set_cursor_impl :: "i64 \<Rightarrow> string \<Rightarrow> string \<Rightarrow> string \<Rightarrow> u64 \<Rightarrow> db \<Rightarrow> db" where
  "set_cursor_impl now consumer s b version d =
     (if \<exists>r \<in> set (t_cursors d). cursor_matches consumer s b r
      then d\<lparr>t_cursors := map (\<lambda>r. if cursor_matches consumer s b r
              then r\<lparr>cu_version := as_i64 version, cu_updated_at := now\<rparr> else r) (t_cursors d)\<rparr>
      else d\<lparr>t_cursors := t_cursors d @
              [\<lparr>cu_consumer_id = consumer, cu_stream_id = s, cu_branch = b,
                cu_version = as_i64 version, cu_updated_at = now\<rparr>]\<rparr>)"

text \<open>
  A cursor that has been set is read back as it was set, for every 64-bit version, and the
  cursors of all other consumers, streams and branches are as before.
\<close>

lemma consumer_cursor_roundtrip:
  "get_cursor_impl (set_cursor_impl now consumer s b v d) consumer' s' b' =
     (if consumer' = consumer \<and> s' = s \<and> b' = b then Some v
      else get_cursor_impl d consumer' s' b')"
proof -
  let ?up = "\<lambda>r. if cursor_matches consumer s b r
    then r\<lparr>cu_version := as_i64 v, cu_updated_at := now\<rparr> else r"
  let ?same = "consumer' = consumer \<and> s' = s \<and> b' = b"
  have keep: "cursor_matches c t u (?up r) = cursor_matches c t u r" for c t u r
    by (simp add: cursor_matches_def)
  have other: "\<not> ?same \<Longrightarrow> cursor_matches consumer' s' b' r \<Longrightarrow> \<not> cursor_matches consumer s b r" for r
    by (auto simp: cursor_matches_def)
  have upd: "map_option (\<lambda>r. as_u64 (cu_version r)) (find (cursor_matches consumer s b) (map ?up rs)) =
      Some v" if "\<exists>r \<in> set rs. cursor_matches consumer s b r" for rs
    using that by (induction rs) (auto simp: keep)
  have frame: "map_option (\<lambda>r. as_u64 (cu_version r)) (find (cursor_matches consumer' s' b') (map ?up rs)) =
      map_option (\<lambda>r. as_u64 (cu_version r)) (find (cursor_matches consumer' s' b') rs)"
    if "\<not> ?same" for rs
    by (induction rs) (auto simp: keep other [OF that])
  have app: "find P (rs @ [r]) = (case find P rs of None \<Rightarrow> if P r then Some r else None | Some x \<Rightarrow> Some x)"
    for P and rs :: "cursor_row list" and r by (induction rs) auto
  have none: "find (cursor_matches consumer s b) rs = None"
    if "\<not> (\<exists>r \<in> set rs. cursor_matches consumer s b r)" for rs
    using that by (auto simp: find_None_iff)
  show ?thesis
  proof (cases "\<exists>r \<in> set (t_cursors d). cursor_matches consumer s b r")
    case True
    then have "t_cursors (set_cursor_impl now consumer s b v d) = map ?up (t_cursors d)"
      by (simp add: set_cursor_impl_def)
    then show ?thesis
      using upd [OF True] frame [of "t_cursors d"] by (cases ?same) (auto simp: get_cursor_impl_def)
  next
    case False
    then have "t_cursors (set_cursor_impl now consumer s b v d) = t_cursors d @
        [\<lparr>cu_consumer_id = consumer, cu_stream_id = s, cu_branch = b,
          cu_version = as_i64 v, cu_updated_at = now\<rparr>]"
      by (simp add: set_cursor_impl_def)
    with none [OF False] show ?thesis
      by (auto simp: get_cursor_impl_def app cursor_matches_def split: option.splits)
  qed
qed

end
