(* ===== verification/System_Stream.thy ===== *)
theory System_Stream
  imports Deletion
begin

text \<open>
  The writer of internal events (\<open>src/system_stream.rs\<close>) and the events of the project registry
  (\<open>src/registry.rs\<close>), written to \<open>_fossic/system\<close>. Emission is best effort: an event that
  cannot be encoded is dropped.
\<close>

section \<open>Operations\<close>

definition system_row ::
  "event_id \<Rightarrow> i64 \<Rightarrow> i64 \<Rightarrow> string \<Rightarrow> bytes \<Rightarrow> string option \<Rightarrow> event_row" where
  "system_row i version ts event_type payload_bytes tags =
     \<lparr>r_id = i, r_stream_id = SYSTEM_STREAM, r_branch = ''main'', r_version = version,
      r_timestamp_us = ts, r_causation_id = None, r_correlation_id = None,
      r_event_type = event_type, r_type_version = 1, r_payload = payload_bytes,
      r_external_id = None, r_indexed_tags = tags\<rparr>"

definition emit :: "libs \<Rightarrow> i64 \<Rightarrow> string \<Rightarrow> json \<Rightarrow> json option \<Rightarrow> db \<Rightarrow> db" where
  "emit L now event_type payload indexed_tags d =
     (case mp_to_vec L payload of
        Inl _ \<Rightarrow> d
      | Inr payload_bytes \<Rightarrow>
          (case derive_event_id L event_type 1 None payload of
             Inl _ \<Rightarrow> d
           | Inr event_id_bytes \<Rightarrow>
               fst (event_insert_or_ignore
                 (system_row (EventId event_id_bytes) (next_version d SYSTEM_STREAM ''main'') now
                   event_type payload_bytes (map_option (json_to_string L) indexed_tags)) d)))"

definition degraded_payload :: "u64 \<Rightarrow> string \<Rightarrow> string \<Rightarrow> u64 \<Rightarrow> json" where
  "degraded_payload sub_id stream_id branch dropped_version =
     JObject
       [(''branch'', JString branch),
        (''dropped_version'', JNumber (PosInt dropped_version)),
        (''stream_id'', JString stream_id),
        (''subscription_id'', JNumber (PosInt sub_id))]"

definition emit_subscription_degraded ::
  "libs \<Rightarrow> i64 \<Rightarrow> u64 \<Rightarrow> string \<Rightarrow> string \<Rightarrow> u64 \<Rightarrow> db \<Rightarrow> db" where
  "emit_subscription_degraded L now sub_id stream_id branch dropped_version =
     emit L now ''SubscriptionDegraded'' (degraded_payload sub_id stream_id branch dropped_version) None"

definition emit_project_registered ::
  "libs \<Rightarrow> i64 \<Rightarrow> string \<Rightarrow> string \<Rightarrow> string \<Rightarrow> string \<Rightarrow> db \<Rightarrow> db" where
  "emit_project_registered L now source_store local_store_path subscribe_pattern description =
     emit L now ''ProjectRegistered''
       (JObject
          [(''local_store_path'', JString local_store_path),
           (''project_description'', JString description),
           (''source_store'', JString source_store),
           (''subscribe_pattern'', JString subscribe_pattern)])
       (Some (JObject [(''source_store'', JString source_store)]))"

definition emit_relay_heartbeat ::
  "libs \<Rightarrow> i64 \<Rightarrow> string \<Rightarrow> i64 \<Rightarrow> u64 \<Rightarrow> i64 \<Rightarrow> db \<Rightarrow> db" where
  "emit_relay_heartbeat L now source_store last_event_version queue_lag uptime_us =
     emit L now ''RelayHeartbeat''
       (JObject
          [(''last_event_version'', json_i64 last_event_version),
           (''queue_lag'', JNumber (PosInt queue_lag)),
           (''source_store'', JString source_store),
           (''uptime_us'', json_i64 uptime_us)])
       (Some (JObject [(''source_store'', JString source_store)]))"

section \<open>What an emission does\<close>

lemma system_row_simps [simp]:
  "r_id (system_row i v t ty pb tags) = i" "r_version (system_row i v t ty pb tags) = v"
  "r_stream_id (system_row i v t ty pb tags) = SYSTEM_STREAM"
  "r_branch (system_row i v t ty pb tags) = ''main''"
  by (simp_all add: system_row_def)

lemma emit_writes:
  assumes "stream_exists_impl d SYSTEM_STREAM"
  shows "event_writes d (emit L now event_type payload tags d)"
  using assms
  by (auto simp: emit_def intro!: writes_refl event_writes_one split: sum.splits)

lemma emit_events:
  assumes "derive_event_id L event_type 1 None payload = Inr idb" and "mp_to_vec L payload = Inr pb"
  shows "emit L now event_type payload tags d =
    (if EventId idb \<in> r_id ` set (t_events d) then d
     else d\<lparr>t_events := t_events d @ [system_row (EventId idb) (next_version d SYSTEM_STREAM ''main'')
            now event_type pb (map_option (json_to_string L) tags)]\<rparr>)"
proof -
  let ?row = "system_row (EventId idb) (next_version d SYSTEM_STREAM ''main'')
            now event_type pb (map_option (json_to_string L) tags)"
  have "event_conflict d ?row \<longleftrightarrow> EventId idb \<in> r_id ` set (t_events d)"
    by (subst event_conflict_id) simp_all
  then show ?thesis using assms by (simp add: emit_def event_insert_or_ignore_def)
qed

text \<open>
  Internal events are recorded once: an emission adds at most one event, at the end of the
  system stream, and emitting the same type and payload again, at any later time and with any
  tags, changes nothing.
\<close>

theorem emit_once:
  "(\<exists>new. t_events (emit L now event_type payload tags d) = t_events d @ new \<and> length new \<le> 1 \<and>
      (\<forall>r \<in> set new. r_stream_id r = SYSTEM_STREAM \<and> r_branch r = ''main'' \<and>
         r_version r = next_version d SYSTEM_STREAM ''main'')) \<and>
   emit L now2 event_type payload tags2 (emit L now event_type payload tags d) =
     emit L now event_type payload tags d"
proof (cases "derive_event_id L event_type 1 None payload")
  case (Inl e)
  then have "emit L n event_type payload t d' = d'" for n t d' by (simp add: emit_def split: sum.splits)
  then show ?thesis by simp
next
  case (Inr idb)
  show ?thesis
  proof (cases "mp_to_vec L payload")
    case (Inl e)
    then have "emit L n event_type payload t d' = d'" for n t d' by (simp add: emit_def)
    then show ?thesis by simp
  next
    case (Inr pb)
    note step = emit_events [OF \<open>derive_event_id L event_type 1 None payload = Inr idb\<close> this]
    show ?thesis by (cases "EventId idb \<in> r_id ` set (t_events d)") (simp_all add: step)
  qed
qed

theorem emit_once_witness:
  "length (t_events (emit demo_libs 9 ''Ping'' JNull None
     (emit demo_libs 5 ''Ping'' JNull None demo_db))) \<le> 1"
proof -
  have "t_events demo_db = []" by (simp add: demo_db_def empty_db_def)
  with emit_once [of demo_libs 5 "''Ping''" JNull None demo_db 9 None] show ?thesis by auto
qed

end
