(* ===== verification/Executor.thy ===== *)
theory Executor
  imports Fossic_Types "HOL-Library.Multiset" "HOL-Library.Product_Lexorder"
begin

text \<open>
  The background executor (\<open>src/executor.rs\<close>): tasks and their order, the quiescence monitor, and
  the thread that keeps tasks in a heap and runs one of them whenever the store is quiescent. The
  store is behind the trait \<open>StoreOps\<close>, here a record of functions on a store state; the locale
  \<open>store_ops_contract\<close> states what the operations keep.
\<close>

section \<open>Tasks\<close>

datatype task_priority = Low | Normal | High

fun priority_code :: "task_priority \<Rightarrow> nat" where
  "priority_code Low = 0"
| "priority_code Normal = 1"
| "priority_code High = 2"

instantiation task_priority :: linorder
begin

definition less_eq_task_priority :: "task_priority \<Rightarrow> task_priority \<Rightarrow> bool" where
  "less_eq_task_priority p q \<longleftrightarrow> priority_code p \<le> priority_code q"

definition less_task_priority :: "task_priority \<Rightarrow> task_priority \<Rightarrow> bool" where
  "less_task_priority p q \<longleftrightarrow> priority_code p < priority_code q"

instance
proof
  fix p q :: task_priority
  show "p \<le> q \<Longrightarrow> q \<le> p \<Longrightarrow> p = q"
    by (cases p; cases q) (auto simp: less_eq_task_priority_def)
qed (auto simp: less_eq_task_priority_def less_task_priority_def)

end

text \<open>A custom closure is code of the caller; it is named by a number.\<close>

datatype task_kind = GcOrphanSnapshots | TakeSnapshot string string | Custom nat

fun task_name :: "task_kind \<Rightarrow> string" where
  "task_name GcOrphanSnapshots = ''GcOrphanSnapshots''"
| "task_name (TakeSnapshot _ _) = ''TakeSnapshot''"
| "task_name (Custom _) = ''Custom''"

text \<open>An interval is a number of microseconds.\<close>

record backlog_task =
  bt_priority :: task_priority
  bt_deadline_us :: i64
  bt_persist_on_drop :: bool
  bt_kind :: task_kind
  bt_recurring_interval :: "nat option"

text \<open>\<open>cmp\<close>: higher priority is greater, and at equal priority the earlier deadline.\<close>

definition task_rank :: "backlog_task \<Rightarrow> task_priority \<times> int" where
  "task_rank t = (bt_priority t, - bt_deadline_us t)"

definition task_le :: "backlog_task \<Rightarrow> backlog_task \<Rightarrow> bool" where
  "task_le t u \<longleftrightarrow> task_rank t \<le> task_rank u"

text \<open>\<open>pop\<close> of the heap takes a greatest task; among equal ones the heap leaves the choice open.\<close>

inductive pops :: "backlog_task list \<Rightarrow> backlog_task \<Rightarrow> backlog_task list \<Rightarrow> bool" where
  "\<forall>u \<in> set (xs @ t # ys). task_le u t \<Longrightarrow> pops (xs @ t # ys) t (xs @ ys)"

text \<open>Popping until the heap is empty.\<close>

inductive drains :: "backlog_task list \<Rightarrow> backlog_task list \<Rightarrow> bool" where
  drains_empty: "drains [] []"
| drains_pop: "pops heap t rest \<Longrightarrow> drains rest ts \<Longrightarrow> drains heap (t # ts)"

section \<open>Quiescence\<close>

record quiescence_monitor =
  qm_last_write_us :: i64
  qm_last_dispatch_us :: i64

definition quiescence_new :: "i64 \<Rightarrow> quiescence_monitor" where
  "quiescence_new now = \<lparr>qm_last_write_us = now, qm_last_dispatch_us = now\<rparr>"

definition note_write :: "i64 \<Rightarrow> quiescence_monitor \<Rightarrow> quiescence_monitor" where
  "note_write now q = q\<lparr>qm_last_write_us := now\<rparr>"

definition note_dispatch :: "i64 \<Rightarrow> quiescence_monitor \<Rightarrow> quiescence_monitor" where
  "note_dispatch now q = q\<lparr>qm_last_dispatch_us := now\<rparr>"

definition is_quiescent :: "i64 \<Rightarrow> i64 \<Rightarrow> quiescence_monitor \<Rightarrow> bool" where
  "is_quiescent now window_us q \<longleftrightarrow>
     window_us \<le> now - qm_last_write_us q \<and> window_us \<le> now - qm_last_dispatch_us q"

section \<open>The thread\<close>

record 'st store_ops =
  ops_gc :: "'st \<Rightarrow> 'st"
  ops_take_snapshot :: "string \<Rightarrow> string \<Rightarrow> 'st \<Rightarrow> 'st"
  ops_custom :: "nat \<Rightarrow> 'st \<Rightarrow> 'st"

text \<open>Errors and panics of a task are logged and dropped.\<close>

definition execute_task :: "'st store_ops \<Rightarrow> backlog_task \<Rightarrow> 'st \<Rightarrow> 'st" where
  "execute_task ops t st =
     (case bt_kind t of
        GcOrphanSnapshots \<Rightarrow> ops_gc ops st
      | TakeSnapshot s b \<Rightarrow> ops_take_snapshot ops s b st
      | Custom k \<Rightarrow> ops_custom ops k st)"

text \<open>\<open>deadline_us: now_us() + interval.as_micros() as i64\<close>, re-queued after the run.\<close>

definition requeue :: "i64 \<Rightarrow> backlog_task \<Rightarrow> backlog_task list" where
  "requeue now t =
     (case bt_recurring_interval t of
        None \<Rightarrow> []
      | Some interval \<Rightarrow> [t\<lparr>bt_deadline_us := now + as_i64 (word_of_nat interval)\<rparr>])"

definition dropped_payload :: "backlog_task \<Rightarrow> json" where
  "dropped_payload t =
     JObject
       [(''deadline_us'',
           JNumber (if bt_deadline_us t < 0 then NegInt (bt_deadline_us t)
                    else PosInt (word_of_int (bt_deadline_us t)))),
        (''priority'', JString (case bt_priority t of Low \<Rightarrow> ''Low'' | Normal \<Rightarrow> ''Normal'' | High \<Rightarrow> ''High'')),
        (''task'', JString (task_name (bt_kind t)))]"

text \<open>
  The channel, the heap, the store (absent once dropped), and what has happened: the tasks
  accepted, run, skipped because the store was gone, and dropped at shutdown, and the payloads of
  the \<open>DeferredTaskDropped\<close> events.
\<close>

record 'st executor =
  ex_channel :: "backlog_task list"
  ex_heap :: "backlog_task list"
  ex_store :: "'st option"
  ex_finished :: bool
  ex_accepted :: "backlog_task list"
  ex_ran :: "backlog_task list"
  ex_skipped :: "backlog_task list"
  ex_dropped :: "backlog_task list"
  ex_emitted :: "json list"

definition executor_start :: "'st \<Rightarrow> 'st executor" where
  "executor_start st =
     \<lparr>ex_channel = [], ex_heap = [], ex_store = Some st, ex_finished = False, ex_accepted = [],
      ex_ran = [], ex_skipped = [], ex_dropped = [], ex_emitted = []\<rparr>"

definition backlog :: "'st executor \<Rightarrow> backlog_task list" where
  "backlog ex = ex_heap ex @ ex_channel ex"

text \<open>
  The steps: a task is sent; the store is dropped; and the three ways one turn of the loop goes.
  The clock and the monitor are what the turn reads.
\<close>

inductive executor_step :: "'st store_ops \<Rightarrow> i64 \<Rightarrow> 'st executor \<Rightarrow> 'st executor \<Rightarrow> bool"
  for ops :: "'st store_ops" and window_us :: i64 where
  schedule: "\<not> ex_finished ex \<Longrightarrow>
    executor_step ops window_us ex (ex\<lparr>ex_channel := ex_channel ex @ [t], ex_accepted := ex_accepted ex @ [t]\<rparr>)"
| store_dropped: "executor_step ops window_us ex (ex\<lparr>ex_store := None\<rparr>)"
| idle: "\<not> ex_finished ex \<Longrightarrow> backlog ex = [] \<or> \<not> is_quiescent now window_us q \<Longrightarrow>
    executor_step ops window_us ex (ex\<lparr>ex_channel := [], ex_heap := backlog ex\<rparr>)"
| run: "\<not> ex_finished ex \<Longrightarrow> is_quiescent now window_us q \<Longrightarrow> pops (backlog ex) t rest \<Longrightarrow>
    executor_step ops window_us ex
      (ex\<lparr>ex_channel := [], ex_heap := rest @ requeue now2 t,
         ex_store := map_option (execute_task ops t) (ex_store ex),
         ex_ran := (if ex_store ex = None then ex_ran ex else ex_ran ex @ [t]),
         ex_skipped := (if ex_store ex = None then ex_skipped ex @ [t] else ex_skipped ex)\<rparr>)"
| stop: "\<not> ex_finished ex \<Longrightarrow> drains (backlog ex) ts \<Longrightarrow>
    executor_step ops window_us ex
      (ex\<lparr>ex_channel := [], ex_heap := [], ex_finished := True, ex_dropped := ts,
         ex_emitted := map dropped_payload (filter bt_persist_on_drop ts)\<rparr>)"

section \<open>The heap\<close>

lemma pops_mset: "pops heap t rest \<Longrightarrow> mset heap = add_mset t (mset rest)"
  by (induction rule: pops.induct) simp

lemma pops_greatest: "pops heap t rest \<Longrightarrow> u \<in> set heap \<Longrightarrow> task_le u t"
  by (induction rule: pops.induct) blast

lemma pops_set: "pops heap t rest \<Longrightarrow> set heap = insert t (set rest)"
  using mset_eq_setD [of heap "t # rest"] pops_mset [of heap t rest] by simp

lemma pops_exists:
  assumes "heap \<noteq> []"
  obtains t rest where "pops heap t rest"
proof -
  have "Max (task_rank ` set heap) \<in> task_rank ` set heap" using assms by (intro Max_in) simp_all
  then obtain t where "t \<in> set heap" "task_rank t = Max (task_rank ` set heap)" by force
  then have "t \<in> set heap" "\<forall>u \<in> set heap. task_rank u \<le> task_rank t" by simp_all
  moreover from this obtain xs ys where "heap = xs @ t # ys" by (meson split_list)
  ultimately show ?thesis using that pops.intros [of xs t ys] by (simp add: task_le_def)
qed

lemma drains_exists: "\<exists>ts. drains heap ts"
proof (induction "length heap" arbitrary: heap)
  case 0
  then show ?case using drains_empty by auto
next
  case (Suc n)
  then obtain t rest where p: "pops heap t rest" by (metis pops_exists list.size(3) nat.simps(3))
  then have "size (mset heap) = Suc (size (mset rest))" using pops_mset by fastforce
  with Suc(2) have "n = length rest" by simp
  with Suc(1) p show ?case by (blast intro: drains_pop)
qed

lemma drains_mset: "drains heap ts \<Longrightarrow> mset heap = mset ts"
  by (induction rule: drains.induct) (simp_all add: pops_mset)

lemma drains_sorted: "drains heap ts \<Longrightarrow> sorted_wrt (\<lambda>t u. task_le u t) ts"
proof (induction rule: drains.induct)
  case (drains_pop heap t rest ts)
  have "set rest = set ts" using drains_mset [OF drains_pop(2)] by (metis set_mset_mset)
  with drains_pop pops_greatest [OF drains_pop(1)] pops_set [OF drains_pop(1)]
  show ?case by auto
qed simp

section \<open>Every task is accounted for\<close>

definition one_shot :: "backlog_task \<Rightarrow> bool" where
  "one_shot t \<longleftrightarrow> bt_recurring_interval t = None"

definition one_shots :: "backlog_task list \<Rightarrow> backlog_task multiset" where
  "one_shots ts = mset (filter one_shot ts)"

lemma one_shots_simps [simp]:
  "one_shots [] = {#}"
  "one_shots (xs @ ys) = one_shots xs + one_shots ys"
  "one_shots (t # ts) = (if one_shot t then add_mset t (one_shots ts) else one_shots ts)"
  by (simp_all add: one_shots_def)

lemma one_shots_mset: "mset xs = mset ys \<Longrightarrow> one_shots xs = one_shots ys"
  by (simp add: one_shots_def mset_filter)

lemma one_shots_pops: "pops heap t rest \<Longrightarrow> one_shots heap = one_shots (t # rest)"
  by (rule one_shots_mset) (simp add: pops_mset)

lemma one_shots_requeue [simp]: "one_shots (requeue now t) = {#}"
  by (cases "bt_recurring_interval t") (auto simp: requeue_def one_shot_def)

definition accounted :: "'st executor \<Rightarrow> bool" where
  "accounted ex \<longleftrightarrow>
     one_shots (ex_accepted ex) =
       one_shots (backlog ex) + one_shots (ex_ran ex) + one_shots (ex_skipped ex) +
       one_shots (ex_dropped ex) \<and>
     (ex_finished ex \<longrightarrow> backlog ex = []) \<and> (\<not> ex_finished ex \<longrightarrow> ex_dropped ex = []) \<and>
     ex_emitted ex = map dropped_payload (filter bt_persist_on_drop (ex_dropped ex)) \<and>
     sorted_wrt (\<lambda>t u. task_le u t) (ex_dropped ex)"

lemma executor_step_accounted:
  "executor_step ops window_us ex ex' \<Longrightarrow> ex_emitted ex = map dropped_payload (filter bt_persist_on_drop (ex_dropped ex)) \<Longrightarrow>
   accounted ex \<Longrightarrow> accounted ex'"
proof (induction rule: executor_step.induct)
  case (run ex now q t rest now2)
  then show ?case
    using one_shots_pops [OF run(3)] by (auto simp: accounted_def backlog_def)
next
  case (stop ex ts)
  then show ?case
    using one_shots_mset [OF drains_mset [OF stop(2)]] drains_sorted [OF stop(2)]
    by (auto simp: accounted_def backlog_def)
qed (auto simp: accounted_def backlog_def)

lemma executor_reachable_accounted:
  "(executor_step ops window_us)\<^sup>*\<^sup>* (executor_start st) ex \<Longrightarrow> accounted ex"
proof (induction rule: rtranclp_induct)
  case base
  show ?case by (simp add: accounted_def executor_start_def backlog_def)
next
  case (step y z)
  then show ?case by (intro executor_step_accounted [OF step(2)]) (simp_all add: accounted_def)
qed

text \<open>
  No one-shot task is lost or run twice: when the executor has stopped, the one-shot tasks it
  accepted are, as a multiset, those it ran, those it skipped because the store was gone and those
  it dropped at shutdown. The dropped ones come in order of priority and deadline, and exactly the
  persistent ones among them are reported.
\<close>

theorem shutdown_accounts_for_tasks:
  assumes "(executor_step ops window_us)\<^sup>*\<^sup>* (executor_start st) ex" and "ex_finished ex"
  shows "one_shots (ex_accepted ex) =
      one_shots (ex_ran ex) + one_shots (ex_skipped ex) + one_shots (ex_dropped ex) \<and>
    sorted_wrt (\<lambda>t u. task_le u t) (ex_dropped ex) \<and>
    ex_emitted ex = map dropped_payload (filter bt_persist_on_drop (ex_dropped ex))"
  using executor_reachable_accounted [OF assms(1)] assms(2) by (simp add: accounted_def)

definition demo_task :: backlog_task where
  "demo_task = \<lparr>bt_priority = Normal, bt_deadline_us = 7, bt_persist_on_drop = True,
     bt_kind = GcOrphanSnapshots, bt_recurring_interval = None\<rparr>"

definition demo_ops :: "nat store_ops" where
  "demo_ops = \<lparr>ops_gc = Suc, ops_take_snapshot = (\<lambda>s b n. n), ops_custom = (\<lambda>k n. n)\<rparr>"

theorem shutdown_accounts_for_tasks_witness:
  "\<exists>ex. (executor_step demo_ops 2000)\<^sup>*\<^sup>* (executor_start 0) ex \<and> ex_finished ex \<and>
     one_shots (ex_accepted ex) = {#demo_task#} \<and>
     one_shots (ex_ran ex) + one_shots (ex_skipped ex) + one_shots (ex_dropped ex) = {#demo_task#}"
proof -
  let ?e1 = "(executor_start 0 :: nat executor)\<lparr>ex_channel := [demo_task], ex_accepted := [demo_task]\<rparr>"
  let ?e2 = "?e1\<lparr>ex_channel := [], ex_heap := [], ex_finished := True, ex_dropped := [demo_task],
    ex_emitted := [dropped_payload demo_task]\<rparr>"
  have "pops [demo_task] demo_task []"
    using pops.intros [of "[]" demo_task "[]"] by (simp add: task_le_def)
  then have drain: "drains [demo_task] [demo_task]" by (blast intro: drains_empty drains_pop)
  have "executor_step demo_ops 2000 (executor_start 0) ?e1"
    using executor_step.schedule [of "executor_start 0" demo_ops 2000 demo_task]
    by (simp add: executor_start_def)
  moreover have "executor_step demo_ops 2000 ?e1 ?e2"
    using executor_step.stop [of ?e1 "[demo_task]" demo_ops 2000] drain
    by (simp add: executor_start_def backlog_def demo_task_def)
  ultimately have reach: "(executor_step demo_ops 2000)\<^sup>*\<^sup>* (executor_start 0) ?e2" by auto
  from shutdown_accounts_for_tasks [OF this] reach show ?thesis
    by (intro exI [of _ ?e2]) (simp add: demo_task_def one_shot_def)
qed

section \<open>Deadlines\<close>

text \<open>
  The loop compares deadlines only with each other. A recurring task alone in the heap runs again
  at every quiescent turn, although its deadline has been moved into the future.
\<close>

lemma pops_single: "pops [t] t []"
  using pops.intros [of "[]" t "[]"] by (simp add: task_le_def)

lemma requeue_recurring:
  "bt_recurring_interval t = Some interval \<Longrightarrow>
   requeue now t = [t\<lparr>bt_deadline_us := now + as_i64 (word_of_nat interval)\<rparr>]"
  by (simp add: requeue_def)

text \<open>
  A recurring task that is due at an interval of, say, an hour runs at every turn of the loop
  at which the store is quiescent: at one and the same clock reading it can run any number of
  times, from the second time on with a deadline that lies one interval in the future.
\<close>

theorem recurring_task_ignores_deadline:
  assumes "ex_heap ex = [t]" and "ex_channel ex = []" and "\<not> ex_finished ex"
    and "ex_store ex = Some st" and "bt_recurring_interval t = Some interval"
    and "is_quiescent now window_us q"
  shows "\<exists>ex'. (executor_step ops window_us ^^ Suc n) ex ex' \<and>
    ex_ran ex' = ex_ran ex @ t # replicate n (t\<lparr>bt_deadline_us := now + as_i64 (word_of_nat interval)\<rparr>) \<and>
    ex_heap ex' = [t\<lparr>bt_deadline_us := now + as_i64 (word_of_nat interval)\<rparr>]"
proof -
  let ?u = "t\<lparr>bt_deadline_us := now + as_i64 (word_of_nat interval)\<rparr>"
  have turn: "\<exists>ex' st'. executor_step ops window_us ex ex' \<and> ex_ran ex' = ex_ran ex @ [x] \<and>
      ex_heap ex' = [?u] \<and> ex_channel ex' = [] \<and> \<not> ex_finished ex' \<and> ex_store ex' = Some st'"
    if "ex_heap ex = [x]" "ex_channel ex = []" "\<not> ex_finished ex" "ex_store ex = Some st"
      "x = t \<or> x = ?u" for ex x st
  proof -
    have "pops (backlog ex) x []" using that pops_single by (simp add: backlog_def)
    moreover have "requeue now x = [?u]" using that(5) assms(5) by (auto simp: requeue_def)
    ultimately show ?thesis
      using executor_step.run [OF that(3) assms(6), of x "[]" ops now] that by auto
  qed
  have "\<exists>ex' st'. (executor_step ops window_us ^^ Suc n) ex ex' \<and>
      ex_ran ex' = ex_ran ex @ t # replicate n ?u \<and>
      ex_heap ex' = [?u] \<and> ex_channel ex' = [] \<and> \<not> ex_finished ex' \<and> ex_store ex' = Some st'"
  proof (induction n)
    case 0
    then show ?case using turn [OF assms(1-4)] by auto
  next
    case (Suc n)
    then obtain ex1 st1 where ex1: "(executor_step ops window_us ^^ Suc n) ex ex1"
      "ex_ran ex1 = ex_ran ex @ t # replicate n ?u" "ex_heap ex1 = [?u]" "ex_channel ex1 = []"
      "\<not> ex_finished ex1" "ex_store ex1 = Some st1" by blast
    from turn [OF ex1(3-6)] obtain ex2 st2 where "executor_step ops window_us ex1 ex2"
      "ex_ran ex2 = ex_ran ex1 @ [?u]" "ex_heap ex2 = [?u]" "ex_channel ex2 = []"
      "\<not> ex_finished ex2" "ex_store ex2 = Some st2" by blast
    with ex1(1,2) show ?case
      using relpowp_Suc_I [of "Suc n" "executor_step ops window_us" ex ex1 ex2]
      by (intro exI [of _ ex2]) (auto simp: replicate_append_same)
  qed
  then show ?thesis by blast
qed

definition demo_recurring :: backlog_task where
  "demo_recurring = demo_task\<lparr>bt_recurring_interval := Some 3600000000\<rparr>"

theorem recurring_task_ignores_deadline_witness:
  "\<exists>ex. (executor_step demo_ops 2000 ^^ Suc 2) ((executor_start 0)\<lparr>ex_heap := [demo_recurring]\<rparr>) ex \<and>
     length (ex_ran ex) = 3"
proof -
  let ?ex = "(executor_start 0 :: nat executor)\<lparr>ex_heap := [demo_recurring]\<rparr>"
  have fields: "ex_heap ?ex = [demo_recurring]" "ex_channel ?ex = []" "\<not> ex_finished ?ex"
    "ex_store ?ex = Some 0" "bt_recurring_interval demo_recurring = Some 3600000000"
    "ex_ran ?ex = []" "is_quiescent 5000 2000 (quiescence_new 0)"
    by (simp_all add: executor_start_def demo_recurring_def is_quiescent_def quiescence_new_def)
  from recurring_task_ignores_deadline [OF fields(1-5,7), of 2 demo_ops] obtain ex where
    "(executor_step demo_ops 2000 ^^ Suc 2) ?ex ex" and "ex_ran ex = ex_ran ?ex @ demo_recurring #
      replicate 2 (demo_recurring\<lparr>bt_deadline_us := 5000 + as_i64 (word_of_nat 3600000000)\<rparr>)"
    by blast
  then show ?thesis by (intro exI [of _ ex]) (simp add: fields(6) del: relpowp.simps)
qed

section \<open>What the tasks may do to the store\<close>

text \<open>The contract of the operations behind \<open>StoreOps\<close>, and what follows for every run.\<close>

locale store_ops_contract =
  fixes ops :: "'st store_ops" and inv :: "'st \<Rightarrow> bool"
  assumes gc_keeps: "inv st \<Longrightarrow> inv (ops_gc ops st)"
    and take_keeps: "inv st \<Longrightarrow> inv (ops_take_snapshot ops s b st)"
    and custom_keeps: "inv st \<Longrightarrow> inv (ops_custom ops k st)"
begin

lemma task_keeps: "inv st \<Longrightarrow> inv (execute_task ops t st)"
  using gc_keeps take_keeps custom_keeps by (auto simp: execute_task_def split: task_kind.splits)

lemma step_keeps:
  "executor_step ops window_us ex ex' \<Longrightarrow> pred_option inv (ex_store ex) \<Longrightarrow> pred_option inv (ex_store ex')"
  by (induction rule: executor_step.induct) (auto simp: option.pred_set task_keeps)

lemma run_keeps:
  "(executor_step ops window_us)\<^sup>*\<^sup>* (executor_start st) ex \<Longrightarrow> inv st \<Longrightarrow> pred_option inv (ex_store ex)"
proof (induction rule: rtranclp_induct)
  case base
  then show ?case by (simp add: executor_start_def)
next
  case (step y z)
  then show ?case using step_keeps by blast
qed

end

end
