(* ===== verification/State_Reads.thy ===== *)
theory State_Reads
  imports Snapshots System_Stream Executor
begin

text \<open>
  Reading the current state of a stream (\<open>read_state\<close> and \<open>read_state_bytes\<close> in \<open>src/store.rs\<close>)
  with what the store does on the side: the monitor of state sizes and costs, the event about
  large states, the snapshot policies, and the snapshots taken in the background.

  The clock is a sequence of readings; an operation gets the number of readings made before it
  and returns the number made after it.
\<close>

section \<open>The state monitor\<close>

record state_monitor =
  sm_state_sizes :: "nat list"
  sm_last_emission_us :: i64
  sm_apply_costs_us :: "u64 list"

definition state_monitor_default :: state_monitor where
  "state_monitor_default =
     \<lparr>sm_state_sizes = [], sm_last_emission_us = 0, sm_apply_costs_us = []\<rparr>"

definition push_window :: "'a \<Rightarrow> 'a list \<Rightarrow> 'a list" where
  "push_window x xs = (if 32 \<le> length xs then tl xs else xs) @ [x]"

definition push_state_size :: "nat \<Rightarrow> state_monitor \<Rightarrow> state_monitor" where
  "push_state_size size0 m = m\<lparr>sm_state_sizes := push_window size0 (sm_state_sizes m)\<rparr>"

definition push_apply_cost :: "u64 \<Rightarrow> state_monitor \<Rightarrow> state_monitor" where
  "push_apply_cost cost m = m\<lparr>sm_apply_costs_us := push_window cost (sm_apply_costs_us m)\<rparr>"

definition mean_state_size :: "state_monitor \<Rightarrow> nat" where
  "mean_state_size m =
     (if sm_state_sizes m = [] then 0 else sum_list (sm_state_sizes m) div length (sm_state_sizes m))"

definition avg_apply_cost_us :: "state_monitor \<Rightarrow> u64" where
  "avg_apply_cost_us m =
     (if sm_apply_costs_us m = [] then 0
      else sum_list (sm_apply_costs_us m) div word_of_nat (length (sm_apply_costs_us m)))"

section \<open>The store\<close>

type_synonym branch_key = "string \<times> string"

text \<open>The parts of \<open>StoreInner\<close> these operations use, and the tasks sent to the executor.\<close>

record state_store =
  ss_db :: db
  ss_options :: open_options
  ss_reducers :: reducer_registry
  ss_snapshot_counters :: "branch_key \<Rightarrow> u32 option"
  ss_state_monitors :: "branch_key \<Rightarrow> state_monitor option"
  ss_last_snapshot_us :: "branch_key \<Rightarrow> i64 option"
  ss_store_open_us :: i64
  ss_scheduled :: "backlog_task list"

definition or_default :: "'a \<Rightarrow> 'a option \<Rightarrow> 'a" where
  "or_default x y = (case y of None \<Rightarrow> x | Some z \<Rightarrow> z)"

definition update_state_monitor ::
  "string \<Rightarrow> string \<Rightarrow> nat \<Rightarrow> u64 \<Rightarrow> state_store \<Rightarrow> state_store" where
  "update_state_monitor s b state_len apply_cost_us ss =
     (let m = or_default state_monitor_default (ss_state_monitors ss (s, b))
      in ss\<lparr>ss_state_monitors := (ss_state_monitors ss)((s, b) \<mapsto>
           push_apply_cost apply_cost_us (push_state_size state_len m))\<rparr>)"

definition state_large_payload :: "string \<Rightarrow> string \<Rightarrow> nat \<Rightarrow> u64 \<Rightarrow> json" where
  "state_large_payload s b mean_size threshold =
     JObject
       [(''branch'', JString b),
        (''mean_state_bytes'', JNumber (PosInt (word_of_nat mean_size))),
        (''stream_id'', JString s),
        (''threshold_bytes'', JNumber (PosInt threshold))]"

text \<open>The clock is read once for the rate limit and once by the writer of the event.\<close>

definition maybe_emit_state_large ::
  "libs \<Rightarrow> (nat \<Rightarrow> i64) \<Rightarrow> nat \<Rightarrow> string \<Rightarrow> string \<Rightarrow> state_store \<Rightarrow> state_store \<times> nat" where
  "maybe_emit_state_large L clock k s b ss =
     (let threshold = opt_reducer_state_large_threshold_bytes (ss_options ss) in
      if threshold = - 1 then (ss, k)
      else case ss_state_monitors ss (s, b) of
        None \<Rightarrow> (ss, k)
      | Some m \<Rightarrow>
          let mean = mean_state_size m in
          if mean \<le> unat threshold then (ss, k)
          else if clock k - sm_last_emission_us m < 60000000 then (ss, k + 1)
          else (ss\<lparr>ss_state_monitors := (ss_state_monitors ss)((s, b) \<mapsto> m\<lparr>sm_last_emission_us := clock k\<rparr>),
                  ss_db := emit L (clock (k + 1)) ''ReducerStateLarge''
                    (state_large_payload s b mean threshold) None (ss_db ss)\<rparr>, k + 2))"

definition schedule_background_snapshot :: "i64 \<Rightarrow> string \<Rightarrow> string \<Rightarrow> state_store \<Rightarrow> state_store" where
  "schedule_background_snapshot now s b ss =
     ss\<lparr>ss_scheduled := ss_scheduled ss @
       [\<lparr>bt_priority = Normal, bt_deadline_us = now, bt_persist_on_drop = False,
         bt_kind = TakeSnapshot s b, bt_recurring_interval = None\<rparr>]\<rparr>"

text \<open>\<open>saturating_mul\<close> on \<open>u64\<close>.\<close>

definition saturating_mul :: "u64 \<Rightarrow> u64 \<Rightarrow> u64" where
  "saturating_mul x y = (if unat x * unat y < 2 ^ 64 then x * y else - 1)"

text \<open>The in-band snapshot of a policy that has fired; having nothing to store is no error.\<close>

definition auto_snapshot :: "libs \<Rightarrow> i64 \<Rightarrow> string \<Rightarrow> string \<Rightarrow> state_store \<Rightarrow> state_store \<times> unit res" where
  "auto_snapshot L now s b ss =
     (case take_snapshot L now (ss_reducers ss) s b (ss_db ss) of
        Inr (d', _) \<Rightarrow> (ss\<lparr>ss_db := d'\<rparr>, Inr ())
      | Inl (NoEventsToSnapshot _ _) \<Rightarrow> (ss, Inr ())
      | Inl e \<Rightarrow> (ss, Inl e))"

definition set_counter :: "string \<Rightarrow> string \<Rightarrow> u32 \<Rightarrow> state_store \<Rightarrow> state_store" where
  "set_counter s b n ss = ss\<lparr>ss_snapshot_counters := (ss_snapshot_counters ss)((s, b) \<mapsto> n)\<rparr>"

definition maybe_auto_snapshot ::
  "libs \<Rightarrow> (nat \<Rightarrow> i64) \<Rightarrow> nat \<Rightarrow> string \<Rightarrow> string \<Rightarrow> u32 \<Rightarrow> snapshot_policy \<Rightarrow> state_store \<Rightarrow>
     state_store \<times> unit res" where
  "maybe_auto_snapshot L clock k s b events_applied policy ss =
     (let accumulated = or_default 0 (ss_snapshot_counters ss (s, b)) + events_applied in
      case policy of
        Manual \<Rightarrow> (ss, Inr ())
      | EveryNEvents n \<Rightarrow>
          if n \<le> accumulated then auto_snapshot L (clock k) s b (set_counter s b 0 ss)
          else (set_counter s b accumulated ss, Inr ())
      | StateAdaptive target_replay_cost_us min_events_between \<Rightarrow>
          let ss1 = set_counter s b accumulated ss;
              avg_cost = (case ss_state_monitors ss1 (s, b) of None \<Rightarrow> 0 | Some m \<Rightarrow> avg_apply_cost_us m)
          in if accumulated < min_events_between then (ss1, Inr ())
             else if ucast target_replay_cost_us < saturating_mul (ucast accumulated) avg_cost
             then auto_snapshot L (clock k) s b (set_counter s b 0 ss1)
             else (ss1, Inr ())
      | EveryNSeconds n \<Rightarrow>
          let last = or_default (ss_store_open_us ss) (ss_last_snapshot_us ss (s, b))
          in if uint n * 1000000 \<le> clock k - last
             then (schedule_background_snapshot (clock (k + 1)) s b
                     (ss\<lparr>ss_last_snapshot_us := (ss_last_snapshot_us ss)((s, b) \<mapsto> clock k)\<rparr>), Inr ())
             else (ss, Inr ()))"

text \<open>The loop of \<open>read_state\<close>: every event is applied between two readings of the clock.\<close>

fun fold_monitored ::
  "boxed_reducer \<Rightarrow> string \<Rightarrow> string \<Rightarrow> (nat \<Rightarrow> i64) \<Rightarrow> nat \<Rightarrow> bytes \<Rightarrow> stored_event list \<Rightarrow>
     state_store \<Rightarrow> state_store \<times> nat \<times> bytes res" where
  "fold_monitored reducer s b clock k state [] ss = (ss, k, Inr state)"
| "fold_monitored reducer s b clock k state (event # events) ss =
     (case apply_reducer_guarded reducer state event s of
        Inl e \<Rightarrow> (ss, k + 1, Inl e)
      | Inr state' \<Rightarrow>
          fold_monitored reducer s b clock (k + 2) state' events
            (update_state_monitor s b (length state')
               (word_of_int (max (clock (k + 1) - clock k) 0)) ss))"

definition read_state_bytes ::
  "libs \<Rightarrow> (nat \<Rightarrow> i64) \<Rightarrow> string \<Rightarrow> string \<Rightarrow> state_store \<Rightarrow> state_store \<times> bytes res" where
  "read_state_bytes L clock s b ss =
     (case get_reducer_with_policy (ss_reducers ss) s of
        Inl e \<Rightarrow> (ss, Inl e)
      | Inr (reducer, policy) \<Rightarrow>
          (case compute_state_bytes L (ss_db ss) reducer s b None of
             Inl e \<Rightarrow> (ss, Inl e)
           | Inr (bytes, events) \<Rightarrow>
               (case fold_monitored reducer s b clock 0 bytes events ss of
                  (ss1, k, Inl e) \<Rightarrow> (ss1, Inl e)
                | (ss1, k, Inr state) \<Rightarrow>
                    let (ss2, k2) = maybe_emit_state_large L clock k s b ss1
                    in case maybe_auto_snapshot L clock k2 s b (word_of_nat (length events)) policy ss2 of
                         (ss3, Inl e) \<Rightarrow> (ss3, Inl e)
                       | (ss3, Inr _) \<Rightarrow> (ss3, Inr state))))"

definition read_state ::
  "(bytes \<Rightarrow> string + 'a) \<Rightarrow> libs \<Rightarrow> (nat \<Rightarrow> i64) \<Rightarrow> string \<Rightarrow> string \<Rightarrow> state_store \<Rightarrow>
     state_store \<times> 'a res" where
  "read_state decode L clock s b ss =
     (let (ss', r) = read_state_bytes L clock s b ss
      in (ss', bind_res r (\<lambda>bytes. map_err MsgpackDecode (decode bytes))))"

section \<open>Background operations\<close>

definition bg_gc_orphaned_snapshots :: "state_store \<Rightarrow> state_store \<times> nat" where
  "bg_gc_orphaned_snapshots ss =
     (let (d', n) = gc_orphaned_snapshots_impl (active_keys (ss_reducers ss)) (ss_db ss)
      in (ss\<lparr>ss_db := d'\<rparr>, n))"

definition bg_take_snapshot ::
  "libs \<Rightarrow> (nat \<Rightarrow> i64) \<Rightarrow> string \<Rightarrow> string \<Rightarrow> state_store \<Rightarrow> state_store \<times> snapshot_info res" where
  "bg_take_snapshot L clock s b ss =
     (case bind_res (get_reducer (ss_reducers ss) s) (\<lambda>reducer.
             bind_res (plan_snapshot L reducer s b (ss_db ss)) (\<lambda>plan. Inr (reducer, plan))) of
        Inl e \<Rightarrow> (ss, Inl e)
      | Inr (reducer, Inl info) \<Rightarrow> (ss, Inr info)
      | Inr (reducer, plan) \<Rightarrow>
          let (d', info) = finish_snapshot (clock 0) reducer s b plan (ss_db ss)
          in (ss\<lparr>ss_db := d',
                 ss_last_snapshot_us := (ss_last_snapshot_us ss)((s, b) \<mapsto> clock 1)\<rparr>, Inr info))"

text \<open>The store as the executor sees it.\<close>

definition inner_ops :: "libs \<Rightarrow> (nat \<Rightarrow> i64) \<Rightarrow> state_store store_ops" where
  "inner_ops L clock =
     \<lparr>ops_gc = fst \<circ> bg_gc_orphaned_snapshots,
      ops_take_snapshot = (\<lambda>s b. fst \<circ> bg_take_snapshot L clock s b),
      ops_custom = (\<lambda>k ss. ss)\<rparr>"

section \<open>The window of the monitor\<close>

lemma push_window_fold: "fold push_window xs ys = drop (length (ys @ xs) - 32) (ys @ xs)"
  if "length ys \<le> 32" for xs ys :: "'a list"
  using that
proof (induction xs arbitrary: ys)
  case (Cons x xs)
  have "length (push_window x ys) \<le> 32" using Cons.prems by (auto simp: push_window_def)
  note IH = Cons.IH [OF this]
  show ?case
  proof (cases "length ys = 32")
    case True
    then obtain y ys' where "ys = y # ys'" "length ys' = 31" by (cases ys) auto
    with IH show ?thesis by (simp add: push_window_def del: drop_append)
  next
    case False
    with IH Cons.prems show ?thesis by (simp add: push_window_def del: drop_append)
  qed
qed simp

lemma push_sizes: "sm_state_sizes (fold push_state_size xs m) = fold push_window xs (sm_state_sizes m)"
  by (induction xs arbitrary: m) (simp_all add: push_state_size_def)

lemma push_costs: "sm_apply_costs_us (fold push_apply_cost xs m) = fold push_window xs (sm_apply_costs_us m)"
  by (induction xs arbitrary: m) (simp_all add: push_apply_cost_def)

lemma mean_bound: "\<forall>x \<in> set xs. x \<le> n \<Longrightarrow> sum_list xs \<le> length xs * (n :: nat)"
  by (induction xs) auto

text \<open>
  A monitor holds exactly the last 32 state sizes and the last 32 costs, however many are
  pushed, and its mean is at most the largest size among the last 32.
\<close>

theorem monitor_holds_last_32:
  "sm_state_sizes (fold push_state_size sizes state_monitor_default) =
     drop (length sizes - 32) sizes \<and>
   sm_apply_costs_us (fold push_apply_cost costs state_monitor_default) =
     drop (length costs - 32) costs \<and>
   ((\<forall>x \<in> set (drop (length sizes - 32) sizes). x \<le> n) \<longrightarrow>
     mean_state_size (fold push_state_size sizes state_monitor_default) \<le> n)"
proof -
  have sizes: "sm_state_sizes (fold push_state_size sizes state_monitor_default) =
      drop (length sizes - 32) sizes"
    by (simp add: push_sizes push_window_fold state_monitor_default_def)
  have "mean_state_size (fold push_state_size sizes state_monitor_default) \<le> n"
    if "\<forall>x \<in> set (drop (length sizes - 32) sizes). x \<le> n"
    using mean_bound [OF that] unfolding mean_state_size_def sizes
    by (auto simp: div_le_mono intro: order_trans [OF div_le_mono])
  with sizes show ?thesis
    by (simp add: push_costs push_window_fold state_monitor_default_def)
qed

theorem monitor_holds_last_32_witness:
  "mean_state_size (fold push_state_size (replicate 40 7) state_monitor_default) \<le> 7"
  using monitor_holds_last_32 [of "replicate 40 7" "[]" 7] by simp

section \<open>What a read of the state returns\<close>

lemma fold_monitored_result:
  "\<exists>ms k'. fold_monitored reducer s b clock k state events ss =
     (ss\<lparr>ss_state_monitors := ms\<rparr>, k', fold_events reducer s state events)"
proof (induction events arbitrary: k state ss)
  case Nil
  show ?case
    by (rule exI [of _ "ss_state_monitors ss"]) (simp add: fold_events_def)
next
  case (Cons e es)
  show ?case
  proof (cases "apply_reducer_guarded reducer state e s")
    case (Inl err)
    then show ?thesis
      by (intro exI [of _ "ss_state_monitors ss"]) (simp add: fold_events_def)
  next
    case (Inr state')
    let ?ss = "update_state_monitor s b (length state') (word_of_int (max (clock (k + 1) - clock k) 0)) ss"
    obtain ms k' where "fold_monitored reducer s b clock (k + 2) state' es ?ss =
        (?ss\<lparr>ss_state_monitors := ms\<rparr>, k', fold_events reducer s state' es)"
      using Cons.IH by blast
    with Inr show ?thesis
      by (intro exI [of _ ms] exI [of _ k']) (simp add: fold_events_def update_state_monitor_def Let_def)
  qed
qed

text \<open>A file that differs only by events at the end of the system stream.\<close>

definition system_extends :: "db \<Rightarrow> db \<Rightarrow> bool" where
  "system_extends d d' \<longleftrightarrow>
     (\<exists>new. t_events d' = t_events d @ new \<and> (\<forall>r \<in> set new. r_stream_id r = SYSTEM_STREAM)) \<and>
     t_snapshots d' = t_snapshots d"

lemma system_extends_refl [simp]: "system_extends d d"
  by (auto simp: system_extends_def intro: exI [of _ "[]"])

lemma emit_extends: "system_extends d (emit L now event_type payload tags d)"
proof (cases "derive_event_id L event_type 1 None payload")
  case (Inl e)
  then show ?thesis by (auto simp: emit_def split: sum.splits)
next
  case (Inr idb)
  note i = this
  show ?thesis
  proof (cases "mp_to_vec L payload")
    case (Inl e)
    then show ?thesis by (auto simp: emit_def)
  next
    case (Inr pb)
    with i show ?thesis unfolding emit_events [OF i Inr] by (simp add: system_extends_def)
  qed
qed

lemma system_extends_range:
  assumes "system_extends d d'" and "s \<noteq> SYSTEM_STREAM"
  shows "select_range d' s b lo hi f = select_range d s b lo hi f"
proof -
  from assms(1) obtain new where new: "t_events d' = t_events d @ new"
    "\<forall>r \<in> set new. r_stream_id r = SYSTEM_STREAM" by (auto simp: system_extends_def)
  with assms(2) have "filter (\<lambda>r. r_stream_id r = s \<and> r_branch r = b \<and> lo \<le> r_version r \<and>
      r_version r \<le> hi \<and> type_filter_ok f r) new = []"
    by (auto simp: filter_empty_conv)
  then show ?thesis by (simp add: select_range_def new(1))
qed

lemma system_extends_plan:
  assumes "system_extends d d'" and "s \<noteq> SYSTEM_STREAM"
  shows "plan_snapshot L reducer s b d' = plan_snapshot L reducer s b d"
proof -
  have "t_snapshots d' = t_snapshots d" using assms(1) by (simp add: system_extends_def)
  then have "find_latest_snapshot d' = find_latest_snapshot d"
    "snapshot_info_impl d' = snapshot_info_impl d"
    by (simp_all add: find_latest_snapshot_def snapshot_info_impl_def fun_eq_iff)
  moreover have "read_range_impl L d' (branch_query s b v m) = read_range_impl L d (branch_query s b v m)" for v m
    by (simp add: read_range_impl_def branch_query_def system_extends_range [OF assms])
  ultimately show ?thesis by (simp only: plan_snapshot_def snapshot_start_def)
qed

lemma maybe_emit_frame:
  "maybe_emit_state_large L clock k s b ss = (ss', k') \<Longrightarrow>
   system_extends (ss_db ss) (ss_db ss') \<and> ss_reducers ss' = ss_reducers ss"
  by (auto simp: maybe_emit_state_large_def Let_def emit_extends split: option.splits if_splits)

lemma snapshot_info_exists:
  assumes "find_latest_snapshot d s b (rd_name reducer) schema None \<noteq> None"
  shows "snapshot_info_impl d s b (rd_name reducer) \<noteq> None"
proof -
  from assms have "filter (snapshot_matches s b (rd_name reducer) schema) (t_snapshots d) \<noteq> []"
    by (simp add: find_latest_snapshot_def)
  then have "filter (\<lambda>r. sr_stream_id r = s \<and> sr_branch r = b \<and> sr_reducer_name r = rd_name reducer)
      (t_snapshots d) \<noteq> []"
    by (auto simp: filter_empty_conv snapshot_matches_def)
  then show ?thesis by (simp add: snapshot_info_impl_def)
qed

text \<open>A state that can be read can be stored, or there is nothing to store.\<close>

lemma plan_snapshot_of_state:
  assumes "state_bytes L d reducer s b None = Inr state"
  shows "(\<exists>plan. plan_snapshot L reducer s b d = Inr plan) \<or>
    plan_snapshot L reducer s b d = Inl (NoEventsToSnapshot s b)"
proof -
  from assms obtain start_v bytes events where start: "snapshot_start d reducer s b None = Inr (start_v, bytes)"
    and events: "read_range_impl L d (branch_query s b start_v None) = Inr events"
    and state: "fold_events reducer s bytes events = Inr state"
    by (auto simp: state_bytes_def compute_state_bytes_def bind_res_Inr_iff)
  show ?thesis
  proof (cases "events = []")
    case True
    then show ?thesis
      using start events snapshot_info_exists [of d s b reducer]
      by (cases "snapshot_info_impl d s b (rd_name reducer)") (auto simp: plan_snapshot_def Let_def)
  next
    case False
    with start events state show ?thesis by (auto simp: plan_snapshot_def Let_def)
  qed
qed

lemma finish_snapshot_events: "t_events (fst (finish_snapshot now reducer s b plan d)) = t_events d"
  by (auto simp: finish_snapshot_def write_snapshot_def split: sum.splits prod.splits)

lemma auto_snapshot_result:
  assumes "plan_snapshot L reducer s b (ss_db ss) = Inl (NoEventsToSnapshot s b) \<or>
      (\<exists>plan. plan_snapshot L reducer s b (ss_db ss) = Inr plan)"
    and "get_reducer (ss_reducers ss) s = Inr reducer"
  shows "\<exists>d'. auto_snapshot L now s b ss = (ss\<lparr>ss_db := d'\<rparr>, Inr ()) \<and> t_events d' = t_events (ss_db ss)"
  using assms(1)
proof
  assume "plan_snapshot L reducer s b (ss_db ss) = Inl (NoEventsToSnapshot s b)"
  then have "auto_snapshot L now s b ss = (ss, Inr ())"
    using assms(2) by (simp add: auto_snapshot_def take_snapshot_def)
  then show ?thesis by (intro exI [of _ "ss_db ss"]) simp
next
  assume "\<exists>plan. plan_snapshot L reducer s b (ss_db ss) = Inr plan"
  then obtain plan where plan: "plan_snapshot L reducer s b (ss_db ss) = Inr plan" ..
  obtain d' info where fin: "finish_snapshot now reducer s b plan (ss_db ss) = (d', info)" by fastforce
  with finish_snapshot_events [of now reducer s b plan "ss_db ss"] plan assms(2) show ?thesis
    by (intro exI [of _ d']) (simp add: auto_snapshot_def take_snapshot_def)
qed

lemma maybe_auto_snapshot_result:
  assumes "plan_snapshot L reducer s b (ss_db ss) = Inl (NoEventsToSnapshot s b) \<or>
      (\<exists>plan. plan_snapshot L reducer s b (ss_db ss) = Inr plan)"
    and "get_reducer (ss_reducers ss) s = Inr reducer"
  shows "snd (maybe_auto_snapshot L clock k s b n policy ss) = Inr () \<and>
    t_events (ss_db (fst (maybe_auto_snapshot L clock k s b n policy ss))) = t_events (ss_db ss)"
proof -
  have auto: "snd (auto_snapshot L now s b (set_counter s b m ss')) = Inr () \<and>
      t_events (ss_db (fst (auto_snapshot L now s b (set_counter s b m ss')))) = t_events (ss_db ss)"
    if "ss' = ss \<or> ss' = set_counter s b j ss" for now m ss' j
  proof -
    have "ss_db (set_counter s b m ss') = ss_db ss" "ss_reducers (set_counter s b m ss') = ss_reducers ss"
      using that by (auto simp: set_counter_def)
    with auto_snapshot_result [of L reducer s b "set_counter s b m ss'" now] assms show ?thesis by auto
  qed
  show ?thesis
    using auto
    by (cases policy)
      (auto simp: maybe_auto_snapshot_def Let_def schedule_background_snapshot_def set_counter_def)
qed

lemma read_state_bytes_result:
  assumes "log_wf L (ss_db ss)" and "get_reducer_with_policy (ss_reducers ss) s = Inr (reducer, policy)"
    and "snapshots_ok L (ss_db ss) reducer s b" and "s \<noteq> SYSTEM_STREAM"
  shows "snd (read_state_bytes L clock s b ss) = full_state L (ss_db ss) reducer s b i64_max \<and>
    (\<exists>new. t_events (ss_db (fst (read_state_bytes L clock s b ss))) = t_events (ss_db ss) @ new \<and>
       (\<forall>r \<in> set new. r_stream_id r = SYSTEM_STREAM))"
proof -
  have full: "state_bytes L (ss_db ss) reducer s b None = full_state L (ss_db ss) reducer s b i64_max"
    using state_bytes_full [OF assms(1,3), of None] by (simp add: upper_version_def)
  show ?thesis
  proof (cases "compute_state_bytes L (ss_db ss) reducer s b None")
    case (Inl e)
    with full assms(2) show ?thesis
      by (intro conjI exI [of _ "[]"]) (simp_all add: read_state_bytes_def state_bytes_def)
  next
    case (Inr be)
    obtain bytes events where be: "be = (bytes, events)" by (cases be)
    obtain ms k where fold: "fold_monitored reducer s b clock 0 bytes events ss =
        (ss\<lparr>ss_state_monitors := ms\<rparr>, k, fold_events reducer s bytes events)"
      using fold_monitored_result by blast
    have state: "fold_events reducer s bytes events = full_state L (ss_db ss) reducer s b i64_max"
      using full Inr be by (simp add: state_bytes_def)
    show ?thesis
    proof (cases "fold_events reducer s bytes events")
      case (Inl e)
      with fold state [symmetric] Inr be assms(2) show ?thesis
        by (intro conjI exI [of _ "[]"]) (simp_all add: read_state_bytes_def)
    next
      case (Inr st)
      obtain ss2 k2 where emit: "maybe_emit_state_large L clock k s b (ss\<lparr>ss_state_monitors := ms\<rparr>) = (ss2, k2)"
        by fastforce
      from maybe_emit_frame [OF this] have ext: "system_extends (ss_db ss) (ss_db ss2)"
        and reg: "ss_reducers ss2 = ss_reducers ss" by simp_all
      have red: "get_reducer (ss_reducers ss2) s = Inr reducer"
        using assms(2) unfolding reg
        by (auto simp: get_reducer_def get_reducer_with_policy_def find_arc_def ok_or_def split: option.splits)
      have "plan_snapshot L reducer s b (ss_db ss2) = Inl (NoEventsToSnapshot s b) \<or>
          (\<exists>plan. plan_snapshot L reducer s b (ss_db ss2) = Inr plan)"
        using plan_snapshot_of_state [of L "ss_db ss" reducer s b st] full state Inr
        unfolding system_extends_plan [OF ext assms(4)] by auto
      from maybe_auto_snapshot_result [OF this red, of clock k2 "word_of_nat (length events)" policy]
      obtain ss3 where "maybe_auto_snapshot L clock k2 s b (word_of_nat (length events)) policy ss2 =
          (ss3, Inr ())" "t_events (ss_db ss3) = t_events (ss_db ss2)"
        by (metis prod.collapse)
      moreover from this have "snd (read_state_bytes L clock s b ss) = Inr st"
        "fst (read_state_bytes L clock s b ss) = ss3"
        using fold Inr emit \<open>compute_state_bytes L (ss_db ss) reducer s b None = Inr be\<close> be assms(2)
        by (simp_all add: read_state_bytes_def)
      ultimately show ?thesis using ext state Inr by (auto simp: system_extends_def)
    qed
  qed
qed


text \<open>A store with one reducer that takes a snapshot on every event, for the witnesses.\<close>

definition demo_store :: state_store where
  "demo_store =
     \<lparr>ss_db = demo_snap, ss_options = open_options_default,
      ss_reducers = [\<lparr>re_pattern = ''a/b'', re_specificity = 2, re_reducer = demo_reducer,
        re_policy = EveryNEvents 1\<rparr>],
      ss_snapshot_counters = (\<lambda>_. None), ss_state_monitors = (\<lambda>_. None),
      ss_last_snapshot_us = (\<lambda>_. None), ss_store_open_us = 0, ss_scheduled = []\<rparr>"


section \<open>Background tasks\<close>

text \<open>A store is sound when every snapshot its reducers can use is a state of its branch.\<close>

definition sound_store :: "libs \<Rightarrow> state_store \<Rightarrow> bool" where
  "sound_store L ss \<longleftrightarrow>
     log_wf L (ss_db ss) \<and>
     (\<forall>s b reducer. get_reducer (ss_reducers ss) s = Inr reducer \<longrightarrow> snapshots_ok L (ss_db ss) reducer s b)"

lemma log_wf_cong: "t_events d' = t_events d \<Longrightarrow> log_wf L d' = log_wf L d"
  by (simp add: log_wf_def)

lemma gc_loop_rows:
  "t_events (fst (gc_loop active ps n d)) = t_events d \<and>
   set (t_snapshots (fst (gc_loop active ps n d))) \<subseteq> set (t_snapshots d)"
  by (auto simp: gc_loop_result)

lemma gc_rows:
  "t_events (fst (gc_orphaned_snapshots_impl active d)) = t_events d \<and>
   set (t_snapshots (fst (gc_orphaned_snapshots_impl active d))) \<subseteq> set (t_snapshots d)"
  using gc_loop_rows by (simp add: gc_orphaned_snapshots_impl_def)

lemma bg_gc_sound: "sound_store L ss \<Longrightarrow> sound_store L (fst (bg_gc_orphaned_snapshots ss))"
proof -
  assume ok: "sound_store L ss"
  obtain d' n where gc: "gc_orphaned_snapshots_impl (active_keys (ss_reducers ss)) (ss_db ss) = (d', n)"
    by fastforce
  with gc_rows [of "active_keys (ss_reducers ss)" "ss_db ss"] have d': "t_events d' = t_events (ss_db ss)"
    "set (t_snapshots d') \<subseteq> set (t_snapshots (ss_db ss))" by simp_all
  have "snapshots_ok L d' reducer s b" if "snapshots_ok L (ss_db ss) reducer s b" for reducer s b
    by (rule snapshots_ok_cong [OF d'(1) _ that]) (use d'(2) in blast)
  with ok d' gc log_wf_cong [OF d'(1)] show ?thesis
    by (simp add: sound_store_def bg_gc_orphaned_snapshots_def)
qed

lemma finish_snapshot_rows:
  assumes "finish_snapshot now reducer s b plan d = (d', info)" and "row \<in> set (t_snapshots d')"
  shows "row \<in> set (t_snapshots d) \<or> sr_stream_id row = s \<and> sr_branch row = b"
  using assms by (auto simp: finish_snapshot_def write_snapshot_def split: sum.splits prod.splits)

lemma finish_snapshot_store:
  assumes ok: "sound_store L ss" and reducer: "get_reducer (ss_reducers ss) s = Inr reducer"
    and plan: "plan_snapshot L reducer s b (ss_db ss) = Inr plan"
    and fin: "finish_snapshot now reducer s b plan (ss_db ss) = (d', info)"
  shows "sound_store L (ss\<lparr>ss_db := d', ss_last_snapshot_us := m\<rparr>)"
proof -
  have wf: "log_wf L (ss_db ss)" and snaps: "\<And>s b reducer. get_reducer (ss_reducers ss) s = Inr reducer \<Longrightarrow>
      snapshots_ok L (ss_db ss) reducer s b"
    using ok by (simp_all add: sound_store_def)
  note sound = finish_snapshot_sound [OF wf snaps [OF reducer] writes_refl plan fin]
  have "snapshots_ok L d' reducer' s' b'" if r': "get_reducer (ss_reducers ss) s' = Inr reducer'" for reducer' s' b'
  proof (cases "s' = s \<and> b' = b")
    case True
    with reducer r' sound show ?thesis by simp
  next
    case False
    show ?thesis
      by (rule snapshots_ok_cong [OF sound [THEN conjunct2] _ snaps [OF r']])
        (use finish_snapshot_rows [OF fin] False in \<open>auto simp: snapshot_matches_def\<close>)
  qed
  with wf log_wf_cong [OF sound [THEN conjunct2]] show ?thesis by (simp add: sound_store_def)
qed

lemma bg_take_sound: "sound_store L ss \<Longrightarrow> sound_store L (fst (bg_take_snapshot L clock s b ss))"
proof -
  assume ok: "sound_store L ss"
  show ?thesis
  proof (cases "get_reducer (ss_reducers ss) s")
    case (Inl e)
    with ok show ?thesis by (simp add: bg_take_snapshot_def)
  next
    case (Inr reducer)
    note red = this
    show ?thesis
    proof (cases "plan_snapshot L reducer s b (ss_db ss)")
      case (Inl e)
      with red ok show ?thesis by (simp add: bg_take_snapshot_def)
    next
      case (Inr plan)
      show ?thesis
      proof (cases plan)
        case (Inl info)
        with red ok \<open>plan_snapshot L reducer s b (ss_db ss) = Inr plan\<close> show ?thesis
          by (simp add: bg_take_snapshot_def)
      next
        case (Inr vs)
        obtain d' info where fin: "finish_snapshot (clock 0) reducer s b plan (ss_db ss) = (d', info)"
          by fastforce
        with red ok \<open>plan_snapshot L reducer s b (ss_db ss) = Inr plan\<close> Inr show ?thesis
          using finish_snapshot_store [OF ok red \<open>plan_snapshot L reducer s b (ss_db ss) = Inr plan\<close> fin]
          by (simp add: bg_take_snapshot_def)
      qed
    qed
  qed
qed

interpretation inner: store_ops_contract "inner_ops L clock" "sound_store L" for L clock
  by unfold_locales (simp_all add: inner_ops_def bg_gc_sound bg_take_sound)


lemma demo_store_sound: "sound_store demo_libs demo_store"
proof -
  have reducer: "get_reducer (ss_reducers demo_store) s = Inr reducer \<Longrightarrow> s = ''a/b'' \<and> reducer = demo_reducer"
    for s reducer
    by (auto simp: demo_store_def get_reducer_def find_arc_def find_arc_with_policy_def ok_or_def
        glob_matches_literal split: option.splits if_splits)
  have "snapshots_ok demo_libs demo_snap demo_reducer ''a/b'' b" for b
    using demo_snap_ok
    by (cases "b = ''main''") (auto simp: snapshots_ok_def demo_snap_def demo_snapshot_row_def snapshot_matches_def)
  moreover have "ss_db demo_store = demo_snap" by (simp add: demo_store_def)
  ultimately show ?thesis
    unfolding sound_store_def using demo_snap_wf reducer by metis
qed


end
