(* ===== verification/Branches.thy ===== *)
theory Branches
  imports Database Demo_Libs
begin

text \<open>
  Branches (\<open>src/branches.rs\<close>, and the branch cache of \<open>Store::create_branch\<close> and
  \<open>Store::resolve_chain\<close> in \<open>src/store.rs\<close>): creation, the lifecycle, and the resolution of a
  branch into its chain of ancestors. Resolution follows parent links in a loop without a bound,
  so it is a partial function: \<open>None\<close> is a loop that never ends.
\<close>

section \<open>Operations\<close>

type_synonym segment = "string \<times> u64 option"

definition branch_char_ok :: "libs \<Rightarrow> nat \<Rightarrow> bool" where
  "branch_char_ok L c \<longleftrightarrow> is_alphanumeric L c \<or> c = 45 \<or> c = 95 \<or> c = 47"

fun check_branch_chars :: "libs \<Rightarrow> string \<Rightarrow> nat list \<Rightarrow> unit res" where
  "check_branch_chars L id0 [] = Inr ()"
| "check_branch_chars L id0 (c # cs) =
     (if \<not> branch_char_ok L c then Inl (InvalidBranchId id0 (DisallowedCharacter c))
      else check_branch_chars L id0 cs)"

fun has_double_slash :: "string \<Rightarrow> bool" where
  "has_double_slash (a # b # s) \<longleftrightarrow>
     a = CHR ''/'' \<and> b = CHR ''/'' \<or> has_double_slash (b # s)"
| "has_double_slash s \<longleftrightarrow> False"

definition validate_branch_id :: "libs \<Rightarrow> string \<Rightarrow> unit res" where
  "validate_branch_id L id0 =
     (if id0 = [] then Inl (InvalidBranchId id0 MustNotBeEmpty)
      else if length id0 > 128 then Inl (InvalidBranchId id0 (MaxChars (length id0)))
      else bind_res (check_branch_chars L id0 (utf8_chars id0)) (\<lambda>_.
        if hd id0 = CHR ''/'' \<or> last id0 = CHR ''/'' \<or> has_double_slash id0
        then Inl (InvalidBranchId id0 NoSlashRuns)
        else Inr ()))"

definition find_branch :: "db \<Rightarrow> string \<Rightarrow> string \<Rightarrow> branch_row option" where
  "find_branch d s b = find (\<lambda>r. br_stream_id r = s \<and> br_id r = b) (t_branches d)"

definition new_branch_row :: "libs \<Rightarrow> i64 \<Rightarrow> create_branch_req \<Rightarrow> branch_row" where
  "new_branch_row L now b =
     \<lparr>br_id = cb_branch_id b, br_stream_id = cb_stream_id b, br_parent_id = cb_parent_id b,
      br_parent_version = as_i64 (cb_parent_version b), br_description = cb_description b,
      br_created_at = now, br_lifecycle = ''ephemeral'', br_closed_at = None,
      br_closed_reason = None,
      br_alternatives = map_option (json_to_string L) (cb_alternatives b)\<rparr>"

text \<open>The primary key of \<open>branches\<close> is \<open>(stream_id, id)\<close>; a second row is a constraint error.\<close>

definition create_branch_impl :: "libs \<Rightarrow> i64 \<Rightarrow> create_branch_req \<Rightarrow> db \<Rightarrow> db res" where
  "create_branch_impl L now b d =
     (if cb_branch_id b = ''main'' then Inl (InvalidBranchId ''main'' ReservedMain)
      else bind_res (validate_branch_id L (cb_branch_id b)) (\<lambda>_.
        if \<exists>alt. cb_alternatives b = Some alt \<and> \<not> is_array alt then Inl InvalidAlternatives
        else if find_branch d (cb_stream_id b) (cb_branch_id b) \<noteq> None
        then Inl (Sqlite ConstraintViolation)
        else Inr (d\<lparr>t_branches := t_branches d @ [new_branch_row L now b]\<rparr>)))"

definition close_branch ::
  "string \<Rightarrow> i64 \<Rightarrow> string option \<Rightarrow> string \<Rightarrow> string \<Rightarrow> db \<Rightarrow> db" where
  "close_branch lifecycle now reason s b d =
     d\<lparr>t_branches := map (\<lambda>r. if br_stream_id r = s \<and> br_id r = b
        then r\<lparr>br_lifecycle := lifecycle, br_closed_at := Some now, br_closed_reason := reason\<rparr>
        else r) (t_branches d)\<rparr>"

definition promote_branch_impl ::
  "i64 \<Rightarrow> string \<Rightarrow> string \<Rightarrow> string option \<Rightarrow> db \<Rightarrow> db res" where
  "promote_branch_impl now s b reason d =
     (case find_branch d s b of
        None \<Rightarrow> Inl (BranchNotFound s b)
      | Some r \<Rightarrow>
          if br_lifecycle r = ''promoted'' then Inr d
          else if br_lifecycle r = ''dead_end'' then Inl (BranchLifecycleError (AlreadyDeadEnd b))
          else Inr (close_branch ''promoted'' now reason s b d))"

definition mark_branch_dead_end_impl ::
  "i64 \<Rightarrow> string \<Rightarrow> string \<Rightarrow> string option \<Rightarrow> db \<Rightarrow> db res" where
  "mark_branch_dead_end_impl now s b reason d =
     (case find_branch d s b of
        None \<Rightarrow> Inl (BranchNotFound s b)
      | Some r \<Rightarrow>
          if br_lifecycle r = ''dead_end'' then Inr d
          else if br_lifecycle r = ''promoted'' then Inl (BranchLifecycleError (AlreadyPromoted b))
          else Inr (close_branch ''dead_end'' now reason s b d))"

text \<open>Alternatives that are not valid JSON are dropped.\<close>

definition row_to_branch :: "libs \<Rightarrow> branch_row \<Rightarrow> branch_info" where
  "row_to_branch L r =
     \<lparr>bi_id = br_id r, bi_stream_id = br_stream_id r, bi_parent_id = br_parent_id r,
      bi_parent_version = as_u64 (br_parent_version r), bi_description = br_description r,
      bi_created_at = br_created_at r, bi_lifecycle = br_lifecycle r,
      bi_closed_at = br_closed_at r, bi_closed_reason = br_closed_reason r,
      bi_alternatives = Option.bind (br_alternatives r) (json_from_str L)\<rparr>"

definition list_branches_impl :: "libs \<Rightarrow> db \<Rightarrow> string \<Rightarrow> branch_info list" where
  "list_branches_impl L d s =
     map (row_to_branch L)
       (sort_key br_created_at (filter (\<lambda>r. br_stream_id r = s) (t_branches d)))"

partial_function (option) resolve_loop ::
  "db \<Rightarrow> string \<Rightarrow> string \<Rightarrow> u64 option \<Rightarrow> segment list \<Rightarrow> segment list res option" where
  "resolve_loop d s current fork_version chain_rev =
     (if current = ''main'' then Some (Inr (rev (chain_rev @ [(''main'', fork_version)])))
      else case find_branch d s current of
        None \<Rightarrow> Some (Inl (BranchNotFound s current))
      | Some r \<Rightarrow>
          resolve_loop d s (br_parent_id r) (Some (as_u64 (br_parent_version r)))
            (chain_rev @ [(current, fork_version)]))"

definition resolve_branch_chain ::
  "db \<Rightarrow> string \<Rightarrow> string \<Rightarrow> segment list res option" where
  "resolve_branch_chain d s b =
     (if b = ''main'' then Some (Inr [(''main'', None)]) else resolve_loop d s b None [])"

section \<open>The table of branches\<close>

lemma find_branch_Some:
  "find_branch d s b = Some r \<Longrightarrow> r \<in> set (t_branches d) \<and> br_stream_id r = s \<and> br_id r = b"
  unfolding find_branch_def by (auto simp: find_Some_iff)

lemma find_branch_append:
  "find_branch (d\<lparr>t_branches := t_branches d @ [row]\<rparr>) s b =
     (case find_branch d s b of
        Some r \<Rightarrow> Some r
      | None \<Rightarrow> if br_stream_id row = s \<and> br_id row = b then Some row else None)"
proof -
  have "find P (xs @ [y]) = (case find P xs of Some x \<Rightarrow> Some x | None \<Rightarrow> if P y then Some y else None)"
    for P and xs :: "branch_row list" and y by (induction xs) auto
  then show ?thesis by (simp add: find_branch_def)
qed

lemma new_branch_row_simps [simp]:
  "br_id (new_branch_row L now b) = cb_branch_id b"
  "br_stream_id (new_branch_row L now b) = cb_stream_id b"
  "br_parent_id (new_branch_row L now b) = cb_parent_id b"
  "br_parent_version (new_branch_row L now b) = as_i64 (cb_parent_version b)"
  "br_lifecycle (new_branch_row L now b) = ''ephemeral''"
  by (simp_all add: new_branch_row_def)

lemma create_branch_Inr:
  "create_branch_impl L now b d = Inr d' \<longleftrightarrow>
     cb_branch_id b \<noteq> ''main'' \<and> validate_branch_id L (cb_branch_id b) = Inr () \<and>
     (\<forall>alt. cb_alternatives b = Some alt \<longrightarrow> is_array alt) \<and>
     find_branch d (cb_stream_id b) (cb_branch_id b) = None \<and>
     d' = d\<lparr>t_branches := t_branches d @ [new_branch_row L now b]\<rparr>"
  by (auto simp: create_branch_impl_def bind_res_Inr_iff split: if_splits)

lemma find_branch_create:
  assumes "create_branch_impl L now b d = Inr d'"
  shows "find_branch d' s i =
    (if s = cb_stream_id b \<and> i = cb_branch_id b then Some (new_branch_row L now b)
     else find_branch d s i)"
  using assms unfolding create_branch_Inr
  by (auto simp: find_branch_append split: option.splits)

lemma find_map_update:
  "(\<And>x. P (f x) \<longleftrightarrow> P x) \<Longrightarrow> find P (map f xs) = map_option f (find P xs)"
  by (induction xs) auto

lemma find_branch_close:
  "find_branch (close_branch lc now reason s b d) s' b' =
     map_option (\<lambda>r. if br_stream_id r = s \<and> br_id r = b
        then r\<lparr>br_lifecycle := lc, br_closed_at := Some now, br_closed_reason := reason\<rparr> else r)
       (find_branch d s' b')"
  by (simp add: find_branch_def close_branch_def find_map_update)

text \<open>The parent link of a branch, the part of its row that resolution reads.\<close>

definition parent_link :: "db \<Rightarrow> string \<Rightarrow> string \<Rightarrow> (string \<times> i64) option" where
  "parent_link d s b =
     map_option (\<lambda>r. (br_parent_id r, br_parent_version r)) (find_branch d s b)"

lemma parent_link_close [simp]:
  "parent_link (close_branch lc now reason s b d) = parent_link d"
  by (auto simp: parent_link_def find_branch_close fun_eq_iff option.map_comp o_def
      intro!: map_option_cong)

lemma parent_link_promote:
  "promote_branch_impl now s b reason d = Inr d' \<Longrightarrow> parent_link d' = parent_link d"
  by (auto simp: promote_branch_impl_def split: option.splits if_splits)

lemma parent_link_dead_end:
  "mark_branch_dead_end_impl now s b reason d = Inr d' \<Longrightarrow> parent_link d' = parent_link d"
  by (auto simp: mark_branch_dead_end_impl_def split: option.splits if_splits)

lemma parent_link_create:
  assumes "create_branch_impl L now b d = Inr d'"
  shows "parent_link d' s i =
    (if s = cb_stream_id b \<and> i = cb_branch_id b
     then Some (cb_parent_id b, as_i64 (cb_parent_version b)) else parent_link d s i)"
    and "parent_link d (cb_stream_id b) (cb_branch_id b) = None"
  using assms find_branch_create [OF assms] by (simp_all add: parent_link_def create_branch_Inr)

section \<open>The chain of ancestors\<close>

text \<open>
  The specification of resolution: a chain leads from the trunk to a branch, and every segment
  but the last ends at the version at which its successor forked.
\<close>

inductive ancestry :: "db \<Rightarrow> string \<Rightarrow> string \<Rightarrow> u64 option \<Rightarrow> segment list \<Rightarrow> bool"
  for d :: db and s :: string where
  ancestry_main: "ancestry d s ''main'' fork [(''main'', fork)]"
| ancestry_fork: "b \<noteq> ''main'' \<Longrightarrow> parent_link d s b = Some (p, v) \<Longrightarrow>
    ancestry d s p (Some (as_u64 v)) up \<Longrightarrow> ancestry d s b fork (up @ [(b, fork)])"

inductive_cases ancestry_cases: "ancestry d s b fork chain"

lemma resolve_loop_main [simp]:
  "resolve_loop d s ''main'' fork rv = Some (Inr (rev (rv @ [(''main'', fork)])))"
  by (subst resolve_loop.simps) simp

lemma resolve_loop_link:
  "b \<noteq> ''main'' \<Longrightarrow> resolve_loop d s b fork rv =
     (case parent_link d s b of
        None \<Rightarrow> Some (Inl (BranchNotFound s b))
      | Some (p, v) \<Rightarrow> resolve_loop d s p (Some (as_u64 v)) (rv @ [(b, fork)]))"
  by (subst resolve_loop.simps) (simp add: parent_link_def split: option.splits)

lemma resolve_loop_ancestry:
  assumes "resolve_loop d s b fork rv = Some r"
  shows "\<forall>chain. r = Inr chain \<longrightarrow> (\<exists>up. ancestry d s b fork up \<and> chain = up @ rev rv)"
proof (rule resolve_loop.raw_induct [OF _ assms])
  fix rec_fn d s b fork rv r
  assume IH: "\<And>d s b fork rv r. rec_fn d s b fork rv = Some r \<Longrightarrow>
      \<forall>chain. r = Inr chain \<longrightarrow> (\<exists>up. ancestry d s b fork up \<and> chain = up @ rev rv)"
    and step: "(if b = ''main'' then Some (Inr (rev (rv @ [(''main'', fork)])))
      else case find_branch d s b of None \<Rightarrow> Some (Inl (BranchNotFound s b))
      | Some row \<Rightarrow> rec_fn d s (br_parent_id row) (Some (as_u64 (br_parent_version row)))
          (rv @ [(b, fork)])) = Some r"
  show "\<forall>chain. r = Inr chain \<longrightarrow> (\<exists>up. ancestry d s b fork up \<and> chain = up @ rev rv)"
  proof (intro allI impI)
    fix chain
    assume r: "r = Inr chain"
    show "\<exists>up. ancestry d s b fork up \<and> chain = up @ rev rv"
    proof (cases "b = ''main''")
      case True
      with step r have "chain = [(''main'', fork)] @ rev rv" by simp
      with True show ?thesis using ancestry_main by blast
    next
      case False
      with step r obtain row where row: "find_branch d s b = Some row"
        and rec: "rec_fn d s (br_parent_id row) (Some (as_u64 (br_parent_version row)))
          (rv @ [(b, fork)]) = Some r"
        by (auto split: option.splits)
      from IH [OF rec] r obtain up where
        "ancestry d s (br_parent_id row) (Some (as_u64 (br_parent_version row))) up"
        "chain = up @ rev (rv @ [(b, fork)])" by blast
      then show ?thesis
        using False row
        by (intro exI [of _ "up @ [(b, fork)]"]) (auto simp: parent_link_def intro: ancestry_fork)
    qed
  qed
qed

lemma ancestry_resolve_loop:
  "ancestry d s b fork up \<Longrightarrow> resolve_loop d s b fork rv = Some (Inr (up @ rev rv))"
  by (induction arbitrary: rv rule: ancestry.induct) (simp_all add: resolve_loop_link)

lemma resolve_chain_ancestry:
  "resolve_branch_chain d s b = Some (Inr chain) \<longleftrightarrow> ancestry d s b None chain"
proof -
  have "resolve_branch_chain d s b = resolve_loop d s b None []"
    by (simp add: resolve_branch_chain_def)
  moreover have "resolve_loop d s b None [] = Some (Inr chain) \<Longrightarrow> ancestry d s b None chain"
    using resolve_loop_ancestry [of d s b None "[]"] by fastforce
  moreover have "ancestry d s b None chain \<Longrightarrow> resolve_loop d s b None [] = Some (Inr chain)"
    using ancestry_resolve_loop [of d s b None chain "[]"] by simp
  ultimately show ?thesis by metis
qed

text \<open>
  C25. Resolving a branch returns exactly its chain of ancestors: a result is the chain from the
  trunk to the branch in which each segment ends where the next one forked, and whenever such a
  chain exists it is returned.
\<close>

theorem resolve_branch_chain_spec:
  "resolve_branch_chain d s b = Some (Inr chain) \<longleftrightarrow> ancestry d s b None chain"
  by (rule resolve_chain_ancestry)

lemma ancestry_mono:
  assumes "\<And>b l. parent_link d s b = Some l \<Longrightarrow> parent_link d' s b = Some l"
  shows "ancestry d s b fork up \<Longrightarrow> ancestry d' s b fork up"
  by (induction rule: ancestry.induct) (auto intro: ancestry.intros assms)

lemma ancestry_refork:
  assumes "ancestry d s b fork up"
  shows "ancestry d s b fork' (butlast up @ [(b, fork')])"
  using assms by (cases rule: ancestry.cases) (auto intro: ancestry_main ancestry_fork [simplified])

section \<open>Termination of the resolution\<close>

text \<open>
  The parents of a stream's branches form a forest rooted in the trunk: every parent is the
  trunk or a branch, and no branch is its own ancestor.
\<close>

definition parent_pairs :: "db \<Rightarrow> string \<Rightarrow> (string \<times> string) set" where
  "parent_pairs d s = {(p, b). \<exists>v. parent_link d s b = Some (p, v)}"

definition forest :: "db \<Rightarrow> string \<Rightarrow> bool" where
  "forest d s \<longleftrightarrow> wf (parent_pairs d s) \<and>
     (\<forall>(p, b) \<in> parent_pairs d s. p = ''main'' \<or> parent_link d s p \<noteq> None)"

lemma forest_ancestry:
  assumes "forest d s" and "b = ''main'' \<or> parent_link d s b \<noteq> None"
  shows "\<exists>up. ancestry d s b fork up"
proof -
  from assms(1) have "wf (parent_pairs d s)" by (simp add: forest_def)
  then show ?thesis using assms(2)
  proof (induction b arbitrary: fork rule: wf_induct_rule)
    case (less b)
    show ?case
    proof (cases "b = ''main''")
      case True
      then show ?thesis using ancestry_main by blast
    next
      case False
      with less.prems obtain p v where link: "parent_link d s b = Some (p, v)" by auto
      then have "(p, b) \<in> parent_pairs d s" by (auto simp: parent_pairs_def)
      moreover from this have "p = ''main'' \<or> parent_link d s p \<noteq> None"
        using assms(1) by (auto simp: forest_def)
      ultimately show ?thesis using less.IH ancestry_fork [OF False link] by blast
    qed
  qed
qed

lemma forest_create:
  assumes "forest d s" and c: "create_branch_impl L now b d = Inr d'" and "cb_stream_id b = s"
    and parent: "cb_parent_id b = ''main'' \<or> parent_link d s (cb_parent_id b) \<noteq> None"
  shows "forest d' s"
proof -
  let ?R = "parent_pairs d s" and ?b = "cb_branch_id b" and ?p = "cb_parent_id b"
  note link = parent_link_create [OF c, unfolded assms(3)]
  have main: "?b \<noteq> ''main''" using c by (simp add: create_branch_Inr)
  have pairs: "parent_pairs d' s = insert (?p, ?b) ?R"
    using link by (auto simp: parent_pairs_def)
  have leaf: "(?b, x) \<notin> ?R" for x
    using assms(1) link(2) main unfolding forest_def by blast
  have "?b \<noteq> ?p" using parent main link(2) by metis
  then have "(?b, ?p) \<notin> ?R\<^sup>*" using leaf by (metis converse_rtranclE)
  then have "wf (parent_pairs d' s)"
    using assms(1) by (simp add: pairs forest_def)
  moreover have "p = ''main'' \<or> parent_link d' s p \<noteq> None" if "(p, x) \<in> parent_pairs d' s" for p x
    using that parent assms(1) link unfolding pairs forest_def by (auto split: if_splits)
  ultimately show ?thesis by (auto simp: forest_def)
qed

text \<open>
  Forking keeps resolution terminating: when the branches of a stream form a forest, creating
  a branch from the trunk or an existing branch keeps them one, and the new branch resolves to
  the chain of its parent, cut at the fork version, followed by itself.
\<close>

theorem create_branch_extends_chain:
  assumes "forest d (cb_stream_id b)" and c: "create_branch_impl L now b d = Inr d'"
    and parent: "cb_parent_id b = ''main'' \<or>
      find_branch d (cb_stream_id b) (cb_parent_id b) \<noteq> None"
  shows "forest d' (cb_stream_id b) \<and>
    (\<exists>up. resolve_branch_chain d (cb_stream_id b) (cb_parent_id b) = Some (Inr up) \<and>
       resolve_branch_chain d' (cb_stream_id b) (cb_branch_id b) =
         Some (Inr (butlast up @
           [(cb_parent_id b, Some (cb_parent_version b)), (cb_branch_id b, None)])))"
proof -
  let ?s = "cb_stream_id b" and ?p = "cb_parent_id b" and ?b = "cb_branch_id b"
  have parent': "?p = ''main'' \<or> parent_link d ?s ?p \<noteq> None"
    using parent by (simp add: parent_link_def)
  note link = parent_link_create [OF c]
  have main: "?b \<noteq> ''main''" using c by (simp add: create_branch_Inr)
  obtain up where up: "ancestry d ?s ?p None up"
    using forest_ancestry [OF assms(1) parent'] by blast
  have "ancestry d' ?s ?p (Some (cb_parent_version b))
      (butlast up @ [(?p, Some (cb_parent_version b))])"
    by (rule ancestry_mono [OF _ ancestry_refork [OF up]]) (use link in auto)
  then have "ancestry d' ?s ?p (Some (as_u64 (as_i64 (cb_parent_version b))))
      (butlast up @ [(?p, Some (cb_parent_version b))])" by simp
  then have "ancestry d' ?s ?b None
      ((butlast up @ [(?p, Some (cb_parent_version b))]) @ [(?b, None)])"
    by (rule ancestry_fork [OF main, rotated]) (simp add: link(1))
  then show ?thesis
    using forest_create [OF assms(1) c refl parent'] up
    unfolding resolve_chain_ancestry by auto
qed

definition demo_branch :: "string \<Rightarrow> create_branch_req" where
  "demo_branch p = \<lparr>cb_stream_id = ''a/b'', cb_branch_id = ''x'', cb_parent_id = p,
     cb_parent_version = 3, cb_description = None, cb_alternatives = None\<rparr>"

lemma demo_branch_create:
  "create_branch_impl demo_libs 5 (demo_branch p) empty_db =
     Inr (empty_db\<lparr>t_branches := [new_branch_row demo_libs 5 (demo_branch p)]\<rparr>)"
  by (simp add: create_branch_Inr validate_branch_id_def branch_char_ok_def is_alphanumeric_def
      find_branch_def empty_db_def demo_branch_def)

lemma empty_forest: "t_branches d = [] \<Longrightarrow> forest d s"
  by (simp add: forest_def parent_pairs_def parent_link_def find_branch_def)

theorem create_branch_extends_chain_witness:
  "\<exists>d'. create_branch_impl demo_libs 5 (demo_branch ''main'') empty_db = Inr d' \<and>
     resolve_branch_chain d' ''a/b'' ''x'' = Some (Inr [(''main'', Some 3), (''x'', None)])"
proof -
  have "forest empty_db (cb_stream_id (demo_branch ''main''))"
    by (rule empty_forest) (simp add: empty_db_def)
  from create_branch_extends_chain [OF this demo_branch_create] show ?thesis
    using demo_branch_create by (auto simp: demo_branch_def resolve_branch_chain_def)
qed

text \<open>Parent links that never leave a set without the trunk make the loop run forever.\<close>

lemma resolve_loop_diverges:
  assumes closed: "\<And>b. b \<in> S \<Longrightarrow>
      b \<noteq> ''main'' \<and> (\<exists>p v. parent_link d s b = Some (p, v) \<and> p \<in> S)"
    and "b \<in> S"
  shows "resolve_loop d s b fork rv = None"
proof -
  have "\<forall>x. d = d \<and> s = s \<longrightarrow> b \<notin> S" if "resolve_loop d s b fork rv = Some r" for r
  proof -
    have "d0 = d \<and> s0 = s \<longrightarrow> b \<notin> S" if "resolve_loop d0 s0 b fork rv = Some r" for d0 s0 b fork rv r
    proof (rule resolve_loop.raw_induct [OF _ that])
      fix rec_fn d0 s0 b fork rv r
      assume IH: "\<And>d0 s0 b fork rv r. rec_fn d0 s0 b fork rv = Some r \<Longrightarrow>
          d0 = d \<and> s0 = s \<longrightarrow> b \<notin> S"
        and step: "(if b = ''main'' then Some (Inr (rev (rv @ [(''main'', fork)])))
          else case find_branch d0 s0 b of None \<Rightarrow> Some (Inl (BranchNotFound s0 b))
          | Some row \<Rightarrow> rec_fn d0 s0 (br_parent_id row) (Some (as_u64 (br_parent_version row)))
              (rv @ [(b, fork)])) = Some r"
      show "d0 = d \<and> s0 = s \<longrightarrow> b \<notin> S"
      proof (intro impI notI)
        assume same: "d0 = d \<and> s0 = s" and b: "b \<in> S"
        from closed [OF b] obtain row where "b \<noteq> ''main''" "find_branch d s b = Some row"
          "br_parent_id row \<in> S" by (auto simp: parent_link_def)
        with step same IH show False by auto
      qed
    qed
    from this [OF that] show ?thesis by blast
  qed
  with \<open>b \<in> S\<close> show ?thesis by (metis not_None_eq)
qed

text \<open>
  A branch may be created with itself as its parent, and resolving it then never returns: the
  loop over the parents has no end.
\<close>

theorem resolve_self_parent_diverges:
  assumes "create_branch_impl L now b d = Inr d'" and "cb_parent_id b = cb_branch_id b"
  shows "resolve_branch_chain d' (cb_stream_id b) (cb_branch_id b) = None"
proof -
  have main: "cb_branch_id b \<noteq> ''main''" using assms(1) by (simp add: create_branch_Inr)
  have "resolve_loop d' (cb_stream_id b) (cb_branch_id b) None [] = None"
    by (rule resolve_loop_diverges [where S = "{cb_branch_id b}"])
      (use main parent_link_create(1) [OF assms(1)] assms(2) in auto)
  with main show ?thesis by (simp add: resolve_branch_chain_def)
qed

theorem resolve_self_parent_diverges_witness:
  "\<exists>d'. create_branch_impl demo_libs 5 (demo_branch ''x'') empty_db = Inr d' \<and>
     resolve_branch_chain d' ''a/b'' ''x'' = None"
  using resolve_self_parent_diverges [OF demo_branch_create [of "''x''"]] demo_branch_create [of "''x''"]
  by (simp add: demo_branch_def)

section \<open>The branch operations of the store and its cache\<close>

text \<open>
  The cache maps a stream and a branch to a resolved chain. \<open>bs_pending\<close> holds the chains that
  calls of \<open>resolve_chain\<close> have read from the file but not yet put into the cache: the two steps
  happen under different locks, so other operations can come between them, and likewise between
  the insert of \<open>create_branch\<close> and its invalidation of the cache.
\<close>

record branch_store =
  bs_db :: db
  bs_cache :: "string \<times> string \<Rightarrow> segment list option"
  bs_pending :: "((string \<times> string) \<times> segment list) list"

definition cache_retain ::
  "string \<Rightarrow> (string \<times> string \<Rightarrow> segment list option) \<Rightarrow>
     string \<times> string \<Rightarrow> segment list option" where
  "cache_retain s cache = (\<lambda>k. if fst k = s then None else cache k)"

definition store_create_branch ::
  "libs \<Rightarrow> i64 \<Rightarrow> create_branch_req \<Rightarrow> branch_store \<Rightarrow> branch_store res" where
  "store_create_branch L now b st =
     bind_res (create_branch_impl L now b (bs_db st)) (\<lambda>d'.
       Inr (st\<lparr>bs_db := d', bs_cache := cache_retain (cb_stream_id b) (bs_cache st)\<rparr>))"

definition store_resolve_chain ::
  "branch_store \<Rightarrow> string \<Rightarrow> string \<Rightarrow> (branch_store \<times> segment list) res option" where
  "store_resolve_chain st s b =
     (case bs_cache st (s, b) of
        Some chain \<Rightarrow> Some (Inr (st, chain))
      | None \<Rightarrow>
          map_option (\<lambda>r. bind_res r (\<lambda>chain.
            Inr (st\<lparr>bs_cache := (bs_cache st)((s, b) := Some chain)\<rparr>, chain)))
            (resolve_branch_chain (bs_db st) s b))"

inductive branch_step :: "libs \<Rightarrow> branch_store \<Rightarrow> branch_store \<Rightarrow> bool" for L :: libs where
  step_create: "create_branch_impl L now b (bs_db st) = Inr d' \<Longrightarrow>
    branch_step L st (st\<lparr>bs_db := d'\<rparr>)"
| step_invalidate: "branch_step L st (st\<lparr>bs_cache := cache_retain s (bs_cache st)\<rparr>)"
| step_promote: "promote_branch_impl now s b reason (bs_db st) = Inr d' \<Longrightarrow>
    branch_step L st (st\<lparr>bs_db := d'\<rparr>)"
| step_dead_end: "mark_branch_dead_end_impl now s b reason (bs_db st) = Inr d' \<Longrightarrow>
    branch_step L st (st\<lparr>bs_db := d'\<rparr>)"
| step_resolve: "resolve_branch_chain (bs_db st) s b = Some (Inr chain) \<Longrightarrow>
    branch_step L st (st\<lparr>bs_pending := ((s, b), chain) # bs_pending st\<rparr>)"
| step_cache: "(k, chain) \<in> set (bs_pending st) \<Longrightarrow>
    branch_step L st (st\<lparr>bs_cache := (bs_cache st)(k := Some chain),
      bs_pending := remove1 (k, chain) (bs_pending st)\<rparr>)"

inductive_cases branch_step_cases: "branch_step L st st'"

definition coherent :: "branch_store \<Rightarrow> bool" where
  "coherent st \<longleftrightarrow>
     (\<forall>s b chain. bs_cache st (s, b) = Some chain \<or> ((s, b), chain) \<in> set (bs_pending st) \<longrightarrow>
        ancestry (bs_db st) s b None chain)"

lemma branch_step_links:
  assumes "branch_step L st st'" and "parent_link (bs_db st) s b = Some l"
  shows "parent_link (bs_db st') s b = Some l"
  using assms(1)
proof (cases rule: branch_step.cases)
  case (step_create now b' d')
  from parent_link_create [OF this(2)] step_create(1) assms(2) show ?thesis by auto
next
  case (step_promote now s' b' reason d')
  with parent_link_promote [OF this(2)] assms(2) show ?thesis by simp
next
  case (step_dead_end now s' b' reason d')
  with parent_link_dead_end [OF this(2)] assms(2) show ?thesis by simp
qed (use assms(2) in auto)

lemma coherent_step:
  assumes step: "branch_step L st st'" and "coherent st"
  shows "coherent st'"
proof -
  have mono: "ancestry (bs_db st') s b None chain" if "ancestry (bs_db st) s b None chain"
    for s b chain
    using ancestry_mono [OF branch_step_links [OF step] that] .
  from step show ?thesis
  proof (cases rule: branch_step.cases)
    case (step_cache k chain)
    have "ancestry (bs_db st) s b None c"
      if "bs_cache st' (s, b) = Some c \<or> ((s, b), c) \<in> set (bs_pending st')" for s b c
    proof -
      have "bs_cache st (s, b) = Some c \<or> ((s, b), c) \<in> set (bs_pending st)"
        using that step_cache subsetD [OF set_remove1_subset]
        by (auto split: if_splits)
      with assms(2) show ?thesis unfolding coherent_def by blast
    qed
    with step_cache(1) show ?thesis by (simp add: coherent_def)
  qed (use assms(2) mono in
      \<open>auto simp: coherent_def cache_retain_def resolve_chain_ancestry split: if_splits\<close>)
qed

text \<open>
  C26. The branch cache is never stale, in whatever order and with whatever interleaving branches
  are created, closed and resolved: a cached chain is what resolving the branch against the file
  would return.
\<close>

theorem branch_cache_coherent:
  assumes "(branch_step L)\<^sup>*\<^sup>* st st'" and "coherent st"
    and "bs_cache st' (s, b) = Some chain"
  shows "resolve_branch_chain (bs_db st') s b = Some (Inr chain)"
proof -
  from assms(1,2) have "coherent st'"
    by (induction rule: rtranclp_induct) (auto intro: coherent_step)
  with assms(3) show ?thesis by (simp add: coherent_def resolve_chain_ancestry)
qed

definition demo_branch_store :: branch_store where
  "demo_branch_store = \<lparr>bs_db = empty_db, bs_cache = (\<lambda>_. None)((''a'', ''main'') := Some [(''main'', None)]),
     bs_pending = []\<rparr>"

lemma demo_coherent: "coherent demo_branch_store"
  using ancestry_main [of empty_db "''a''" None] by (simp add: coherent_def demo_branch_store_def)

theorem branch_cache_coherent_witness:
  "resolve_branch_chain (bs_db (demo_branch_store\<lparr>bs_db := empty_db\<lparr>t_branches :=
     [new_branch_row demo_libs 5 (demo_branch ''main'')]\<rparr>\<rparr>)) ''a'' ''main'' =
     Some (Inr [(''main'', None)])"
proof -
  have "branch_step demo_libs demo_branch_store (demo_branch_store\<lparr>bs_db := empty_db\<lparr>t_branches :=
      [new_branch_row demo_libs 5 (demo_branch ''main'')]\<rparr>\<rparr>)"
    by (rule step_create [where now = 5 and b = "demo_branch ''main''"])
      (simp add: demo_branch_store_def demo_branch_create)
  then have "(branch_step demo_libs)\<^sup>*\<^sup>* demo_branch_store (demo_branch_store\<lparr>bs_db := empty_db\<lparr>t_branches :=
      [new_branch_row demo_libs 5 (demo_branch ''main'')]\<rparr>\<rparr>)"
    by (rule r_into_rtranclp)
  from branch_cache_coherent [OF this demo_coherent] show ?thesis
    by (simp add: demo_branch_store_def)
qed

lemma close_frame:
  assumes "find_branch d s b = Some r" and "find_branch d s' b' = Some r'"
    and "br_lifecycle r \<noteq> br_lifecycle r'"
  shows "find_branch (close_branch lc now reason s b d) s' b' = Some r'"
  using assms find_branch_Some [OF assms(2)]
  by (auto simp: find_branch_close)

lemma closed_step:
  assumes "branch_step L st st'" and "find_branch (bs_db st) s b = Some r"
    and "br_lifecycle r = ''promoted'' \<or> br_lifecycle r = ''dead_end''"
  shows "find_branch (bs_db st') s b = Some r"
  using assms(1)
proof (cases rule: branch_step.cases)
  case (step_create now b' d')
  then show ?thesis
    using assms(2) find_branch_create [OF step_create(2)] by (auto simp: create_branch_Inr)
next
  case (step_promote now s' b' reason d')
  then show ?thesis
    using assms(2,3) close_frame [OF _ assms(2)]
    by (auto simp: promote_branch_impl_def split: option.splits if_splits)
next
  case (step_dead_end now s' b' reason d')
  then show ?thesis
    using assms(2,3) close_frame [OF _ assms(2)]
    by (auto simp: mark_branch_dead_end_impl_def split: option.splits if_splits)
qed (use assms(2) in auto)

text \<open>
  The lifecycle of a branch ends: once it is promoted or marked a dead end, no sequence of
  branch operations changes its row, and each of the two closing operations accepts only its own
  outcome.
\<close>

theorem closed_branch_final:
  assumes "(branch_step L)\<^sup>*\<^sup>* st st'" and "find_branch (bs_db st) s b = Some r"
    and "br_lifecycle r = ''promoted'' \<or> br_lifecycle r = ''dead_end''"
  shows "find_branch (bs_db st') s b = Some r \<and>
    promote_branch_impl now s b reason (bs_db st') =
      (if br_lifecycle r = ''promoted'' then Inr (bs_db st')
       else Inl (BranchLifecycleError (AlreadyDeadEnd b))) \<and>
    mark_branch_dead_end_impl now s b reason (bs_db st') =
      (if br_lifecycle r = ''dead_end'' then Inr (bs_db st')
       else Inl (BranchLifecycleError (AlreadyPromoted b)))"
proof -
  from assms(1) have "find_branch (bs_db st') s b = Some r"
    by (induction rule: rtranclp_induct) (use assms(2,3) closed_step in auto)
  with assms(3) show ?thesis
    by (auto simp: promote_branch_impl_def mark_branch_dead_end_impl_def)
qed

definition demo_closed_store :: branch_store where
  "demo_closed_store = demo_branch_store\<lparr>bs_db := empty_db\<lparr>t_branches :=
     [(new_branch_row demo_libs 5 (demo_branch ''main''))\<lparr>br_lifecycle := ''promoted''\<rparr>]\<rparr>\<rparr>"

theorem closed_branch_final_witness:
  "mark_branch_dead_end_impl 9 ''a/b'' ''x'' None (bs_db demo_closed_store) =
     Inl (BranchLifecycleError (AlreadyPromoted ''x''))"
proof -
  have "find_branch (bs_db demo_closed_store) ''a/b'' ''x'' =
      Some ((new_branch_row demo_libs 5 (demo_branch ''main''))\<lparr>br_lifecycle := ''promoted''\<rparr>)"
    by (simp add: demo_closed_store_def find_branch_def demo_branch_def)
  from closed_branch_final [where L = demo_libs and now = 9 and reason = None,
      OF rtranclp.rtrancl_refl this] show ?thesis by simp
qed

end
