(* ===== verification/Store.thy ===== *)
theory Store
  imports Store_Reads State_Reads Delivery Branches
begin

text \<open>
  The store as a whole (\<open>Store\<close> and \<open>StoreInner\<close> in \<open>src/store.rs\<close>): its state, opening it, and its
  public operations that change something. Every operation is atomic here; the interleavings of
  its phases that matter are the subject of \<open>Delivery\<close> and of the branch cache.

  An operation returns the new store and its result, and on an error the store as it is then.
\<close>

section \<open>State\<close>

type_synonym degradation = "u64 \<times> string \<times> string \<times> u64"

record store =
  so_state :: state_store
  so_transforms :: "transform_entry list"
  so_upcasters :: upcaster_registry
  so_branch_cache :: "string \<times> string \<Rightarrow> segment list option"
  so_registry :: registry
  so_channel :: "stored_event list"
  so_sync_degraded :: "degradation list"
  so_high_water :: nat
  so_quiescence :: quiescence_monitor

abbreviation so_db :: "store \<Rightarrow> db" where
  "so_db st \<equiv> ss_db (so_state st)"

definition set_db :: "db \<Rightarrow> store \<Rightarrow> store" where
  "set_db d st = st\<lparr>so_state := (so_state st)\<lparr>ss_db := d\<rparr>\<rparr>"

text \<open>An operation that runs one statement or transaction on the file.\<close>

definition on_db :: "(db \<Rightarrow> (db \<times> 'a) res) \<Rightarrow> store \<Rightarrow> store \<times> 'a res" where
  "on_db f st = (case f (so_db st) of Inl e \<Rightarrow> (st, Inl e) | Inr (d', x) \<Rightarrow> (set_db d' st, Inr x))"

definition returns_unit :: "'s res \<Rightarrow> ('s \<times> unit) res" where
  "returns_unit r = bind_res r (\<lambda>d. Inr (d, ()))"

section \<open>Opening\<close>

definition gc_task :: "i64 \<Rightarrow> backlog_task" where
  "gc_task store_open_us =
     \<lparr>bt_priority = Low, bt_deadline_us = store_open_us, bt_persist_on_drop = False,
      bt_kind = GcOrphanSnapshots, bt_recurring_interval = Some 3600000000\<rparr>"

text \<open>
  The file is \<open>None\<close> when the path does not exist; connecting then creates an empty one. The
  clock is read for the table of metadata (already printed here), the system stream, the
  quiescence monitor and the opening time.
\<close>

definition store_open ::
  "string \<Rightarrow> string \<Rightarrow> (nat \<Rightarrow> i64) \<Rightarrow> string \<Rightarrow> open_options \<Rightarrow> db option \<Rightarrow> store res" where
  "store_open crate_version now_text clock path opts file =
     (if opt_encryption opts \<noteq> Plaintext
      then Inl (NotImplemented ''encryption (OsKeyring / EnvVar); use Plaintext in v1'')
      else if opt_checkpoint_mode opts \<noteq> CheckpointAuto
      then Inl (NotImplemented ''CheckpointMode::Manual; only Auto is implemented in v1'')
      else if opt_on_first_open opts = RequireExisting \<and> file = None then Inl (StoreNotFound path)
      else bind_res (run_migrations (or_default empty_db file)) (\<lambda>d.
        Inr \<lparr>so_state =
               \<lparr>ss_db = bootstrap_system_streams (clock 0)
                   (bootstrap_meta now_text crate_version ''plaintext'' d),
                ss_options = opts, ss_reducers = [], ss_snapshot_counters = (\<lambda>_. None),
                ss_state_monitors = (\<lambda>_. None), ss_last_snapshot_us = (\<lambda>_. None),
                ss_store_open_us = clock 2,
                ss_scheduled = (if opt_auto_gc_orphans opts then [gc_task (clock 2)] else [])\<rparr>,
             so_transforms = [], so_upcasters = (\<lambda>_. None), so_branch_cache = (\<lambda>_. None),
             so_registry = registry_new, so_channel = [], so_sync_degraded = [],
             so_high_water = 0, so_quiescence = quiescence_new (clock 1)\<rparr>))"

text \<open>Dropping the last handle collects the orphaned snapshots, if the options say so.\<close>

definition store_gc_orphaned_snapshots :: "store \<Rightarrow> store \<times> nat" where
  "store_gc_orphaned_snapshots st =
     (let (d', n) = gc_orphaned_snapshots_impl (active_keys (ss_reducers (so_state st))) (so_db st)
      in (set_db d' st, n))"

definition store_drop :: "store \<Rightarrow> store" where
  "store_drop st =
     (if opt_auto_gc_orphans (ss_options (so_state st)) then fst (store_gc_orphaned_snapshots st) else st)"

section \<open>Appending\<close>

definition build_stored_event :: "append_outcome \<Rightarrow> append_req \<Rightarrow> stored_event" where
  "build_stored_event out a =
     \<lparr>ev_id = ao_event_id out, ev_stream_id = a_stream_id a, ev_branch = a_branch a,
      ev_version = ao_version out, ev_timestamp_us = ao_timestamp_us out,
      ev_causation_id = a_causation_id a, ev_correlation_id = a_correlation_id a,
      ev_event_type = a_event_type a, ev_type_version = a_type_version a,
      ev_payload = ao_payload_bytes out, ev_external_id = a_external_id a,
      ev_indexed_tags = a_indexed_tags a\<rparr>"

text \<open>Under the write lock: the synchronous subscribers of one appended event.\<close>

definition dispatch_outcome ::
  "bool \<Rightarrow> append_req \<Rightarrow> append_outcome \<Rightarrow> registry \<Rightarrow>
     registry \<times> stored_event list \<times> degradation list" where
  "dispatch_outcome has_subs a out rg =
     (if ao_is_new out \<and> has_subs \<and> \<not> starts_with (a_stream_id a) ''_fossic/''
      then let s = build_stored_event out a;
               (rg', ids) = dispatch_sync s rg
           in (rg', [s], map (\<lambda>i. (i, ev_stream_id s, ev_branch s, ev_version s)) ids)
      else (rg, [], []))"

fun dispatch_outcomes ::
  "bool \<Rightarrow> (append_outcome \<times> append_req) list \<Rightarrow> registry \<Rightarrow>
     registry \<times> stored_event list \<times> degradation list" where
  "dispatch_outcomes has_subs [] rg = (rg, [], [])"
| "dispatch_outcomes has_subs ((out, a) # rest) rg =
     (let (rg1, es, ds) = dispatch_outcome has_subs a out rg;
          (rg2, es', ds') = dispatch_outcomes has_subs rest rg1
      in (rg2, es @ es', ds @ ds'))"

text \<open>After the lock is released: the send to the dispatcher and the peak depth of its channel.\<close>

definition send_event :: "stored_event \<Rightarrow> store \<Rightarrow> store" where
  "send_event s st =
     st\<lparr>so_channel := so_channel st @ [s],
        so_high_water := max (so_high_water st) (length (so_channel st) + 1)\<rparr>"

definition after_commit ::
  "db \<Rightarrow> registry \<times> stored_event list \<times> degradation list \<Rightarrow> (store \<Rightarrow> store) \<Rightarrow> store \<Rightarrow> store" where
  "after_commit d' dispatched noted st =
     (let (rg', post_commits, sync_degraded) = dispatched;
          st1 = noted ((set_db d' st)\<lparr>so_registry := rg'\<rparr>)
      in fold send_event post_commits
           (st1\<lparr>so_sync_degraded := so_sync_degraded st1 @ sync_degraded\<rparr>))"

definition noting_write :: "i64 \<Rightarrow> store \<Rightarrow> store" where
  "noting_write now st = st\<lparr>so_quiescence := note_write now (so_quiescence st)\<rparr>"

definition store_append ::
  "libs \<Rightarrow> i64 \<Rightarrow> i64 \<Rightarrow> append_req \<Rightarrow> store \<Rightarrow> store \<times> event_id res" where
  "store_append L now now2 a st =
     (case bind_res (prepare_payload L (so_transforms st) (a_stream_id a) (a_event_type a) (a_payload a))
         (\<lambda>(payload_val, payload_bytes). append_impl L now a payload_val payload_bytes (so_db st)) of
        Inl e \<Rightarrow> (st, Inl e)
      | Inr (d', out) \<Rightarrow>
          (after_commit d'
             (dispatch_outcome (has_subscribers (so_registry st)) a out (so_registry st))
             (noting_write now2) st,
           Inr (ao_event_id out)))"

definition store_append_if ::
  "libs \<Rightarrow> i64 \<Rightarrow> i64 \<Rightarrow> append_req \<Rightarrow> (db \<Rightarrow> bool res) \<Rightarrow> store \<Rightarrow>
     store \<times> event_id option res" where
  "store_append_if L now now2 a condition st =
     (case bind_res (prepare_payload L (so_transforms st) (a_stream_id a) (a_event_type a) (a_payload a))
         (\<lambda>(payload_val, payload_bytes).
            append_if_impl L now a payload_val payload_bytes condition (so_db st)) of
        Inl e \<Rightarrow> (st, Inl e)
      | Inr (d', None) \<Rightarrow> (set_db d' st, Inr None)
      | Inr (d', Some out) \<Rightarrow>
          (after_commit d'
             (dispatch_outcome (has_subscribers (so_registry st)) a out (so_registry st))
             (noting_write now2) st,
           Inr (Some (ao_event_id out))))"

text \<open>The appends come with the readings of the clock.\<close>

definition prepare_batch ::
  "libs \<Rightarrow> transform_entry list \<Rightarrow> (append_req \<times> i64) list \<Rightarrow>
     (append_req \<times> i64 \<times> json \<times> bytes) list res" where
  "prepare_batch L transforms appends =
     collect_res (\<lambda>(a, now).
       bind_res (prepare_payload L transforms (a_stream_id a) (a_event_type a) (a_payload a))
         (\<lambda>(payload_val, payload_bytes). Inr (a, now, payload_val, payload_bytes))) appends"

definition store_append_batch ::
  "libs \<Rightarrow> i64 \<Rightarrow> (append_req \<times> i64) list \<Rightarrow> store \<Rightarrow> store \<times> event_id list res" where
  "store_append_batch L now2 appends st =
     (if appends = [] then (st, Inr [])
      else case bind_res (prepare_batch L (so_transforms st) appends)
            (\<lambda>prepared. append_batch_impl L prepared (so_db st)) of
        Inl e \<Rightarrow> (st, Inl e)
      | Inr (d', outs) \<Rightarrow>
          (after_commit d'
             (dispatch_outcomes (has_subscribers (so_registry st)) (zip outs (map fst appends))
                (so_registry st))
             (if outs = [] then id else noting_write now2) st,
           Inr (map ao_event_id outs)))"

section \<open>Subscribing and the dispatcher\<close>

text \<open>
  The seeds: for a glob the newest version of every matching stream that has events on the
  branch, for an exact stream its newest version.
\<close>

definition seed_streams :: "db \<Rightarrow> subscribe_query \<Rightarrow> ((string \<times> string) \<times> i64) list" where
  "seed_streams d q =
     map (\<lambda>s. ((s, sq_branch q), max_version d s (sq_branch q)))
       (filter (glob_matches (sq_stream_pattern q))
         (remdups (map r_stream_id (filter (\<lambda>r. r_branch r = sq_branch q) (t_events d)))))"

definition store_subscribe ::
  "subscribe_query \<Rightarrow> subscription_mode \<Rightarrow> handler \<Rightarrow> store \<Rightarrow> store \<times> u64" where
  "store_subscribe q mode h st =
     (let (initial_cursor, initial_stream_cursors) =
            (if \<not> is_exact (sq_stream_pattern q) then (-1, seed_streams (so_db st) q)
             else (max_version (so_db st) (sq_stream_pattern q) (sq_branch q), []));
          (rg', i) = registry_subscribe q mode initial_cursor initial_stream_cursors h (so_registry st)
      in (st\<lparr>so_registry := rg'\<rparr>, i))"

definition store_unsubscribe :: "u64 \<Rightarrow> store \<Rightarrow> store" where
  "store_unsubscribe i st = st\<lparr>so_registry := registry_unsubscribe i (so_registry st)\<rparr>"

fun emit_degraded :: "libs \<Rightarrow> (nat \<Rightarrow> i64) \<Rightarrow> nat \<Rightarrow> degradation list \<Rightarrow> db \<Rightarrow> db" where
  "emit_degraded L clock k [] d = d"
| "emit_degraded L clock k ((i, s, b, v) # rest) d =
     emit_degraded L clock (Suc k) rest (emit_subscription_degraded L (clock k) i s b v d)"

text \<open>One turn of the dispatcher thread.\<close>

definition dispatcher_turn :: "libs \<Rightarrow> (nat \<Rightarrow> i64) \<Rightarrow> store \<Rightarrow> store" where
  "dispatcher_turn L clock st =
     (case so_channel st of
        [] \<Rightarrow> st
      | event # channel \<Rightarrow>
          if starts_with (ev_stream_id event) ''_fossic/'' then st\<lparr>so_channel := channel\<rparr>
          else
            let (rg', newly_degraded) = dispatch_post_commit event (so_registry st);
                degraded = map (\<lambda>i. (i, ev_stream_id event, ev_branch event, ev_version event))
                             newly_degraded @ so_sync_degraded st
            in (set_db (emit_degraded L clock 1 degraded (so_db st)) st)
                 \<lparr>so_channel := channel, so_registry := rg', so_sync_degraded := [],
                  so_quiescence := note_dispatch (clock 0) (so_quiescence st)\<rparr>)"

section \<open>The other operations\<close>

definition store_declare_stream ::
  "libs \<Rightarrow> i64 \<Rightarrow> string \<Rightarrow> string \<Rightarrow> string option \<Rightarrow> store \<Rightarrow> store \<times> unit res" where
  "store_declare_stream L now s declared_by description =
     on_db (\<lambda>d. returns_unit (declare_stream_impl L now d s declared_by description))"

definition store_purge_event ::
  "libs \<Rightarrow> i64 \<Rightarrow> event_id \<Rightarrow> string \<Rightarrow> string \<Rightarrow> string \<Rightarrow> store \<Rightarrow> store \<times> unit res" where
  "store_purge_event L now i confirm reason purged_by =
     on_db (\<lambda>d. returns_unit (purge_event_impl L now i confirm reason purged_by d))"

definition store_shred_stream :: "string \<Rightarrow> string \<Rightarrow> store \<Rightarrow> store \<times> unit res" where
  "store_shred_stream s reason st =
     (st, shred_stream_impl (opt_encryption (ss_options (so_state st))) s reason)"

definition store_set_cursor ::
  "i64 \<Rightarrow> string \<Rightarrow> string \<Rightarrow> string \<Rightarrow> u64 \<Rightarrow> store \<Rightarrow> store \<times> unit res" where
  "store_set_cursor now consumer s b version =
     on_db (\<lambda>d. Inr (set_cursor_impl now consumer s b version d, ()))"

definition store_create_branch_op ::
  "libs \<Rightarrow> i64 \<Rightarrow> create_branch_req \<Rightarrow> store \<Rightarrow> store \<times> unit res" where
  "store_create_branch_op L now b st =
     (case store_create_branch L now b
         \<lparr>bs_db = so_db st, bs_cache = so_branch_cache st, bs_pending = []\<rparr> of
        Inl e \<Rightarrow> (st, Inl e)
      | Inr bs \<Rightarrow> ((set_db (bs_db bs) st)\<lparr>so_branch_cache := bs_cache bs\<rparr>, Inr ()))"

definition store_promote_branch ::
  "i64 \<Rightarrow> string \<Rightarrow> string \<Rightarrow> string option \<Rightarrow> store \<Rightarrow> store \<times> unit res" where
  "store_promote_branch now s b reason =
     on_db (\<lambda>d. returns_unit (promote_branch_impl now s b reason d))"

definition store_mark_branch_dead_end ::
  "i64 \<Rightarrow> string \<Rightarrow> string \<Rightarrow> string option \<Rightarrow> store \<Rightarrow> store \<times> unit res" where
  "store_mark_branch_dead_end now s b reason =
     on_db (\<lambda>d. returns_unit (mark_branch_dead_end_impl now s b reason d))"

definition store_register_reducer ::
  "string \<Rightarrow> boxed_reducer \<Rightarrow> snapshot_policy \<Rightarrow> store \<Rightarrow> store \<times> unit res" where
  "store_register_reducer pattern reducer policy st =
     (case register_with_policy pattern reducer policy (ss_reducers (so_state st)) of
        Inl e \<Rightarrow> (st, Inl e)
      | Inr reg \<Rightarrow> (st\<lparr>so_state := (so_state st)\<lparr>ss_reducers := reg\<rparr>\<rparr>, Inr ()))"

definition store_register_upcaster_op ::
  "i64 \<Rightarrow> string \<Rightarrow> u32 \<Rightarrow> u32 \<Rightarrow> (bytes \<Rightarrow> bytes res) \<Rightarrow> store \<Rightarrow> store" where
  "store_register_upcaster_op now event_type from0 to0 f st =
     (let (d', reg) = store_register_upcaster now event_type from0 to0 f (so_db st, so_upcasters st)
      in (set_db d' st)\<lparr>so_upcasters := reg\<rparr>)"

definition store_register_transform ::
  "string \<Rightarrow> (string \<Rightarrow> bytes \<Rightarrow> bytes res) \<Rightarrow> store \<Rightarrow> store" where
  "store_register_transform pattern f st =
     st\<lparr>so_transforms := register_transform pattern f (so_transforms st)\<rparr>"

definition store_take_snapshot ::
  "libs \<Rightarrow> i64 \<Rightarrow> string \<Rightarrow> string \<Rightarrow> store \<Rightarrow> store \<times> snapshot_info res" where
  "store_take_snapshot L now s b st = on_db (take_snapshot L now (ss_reducers (so_state st)) s b) st"

definition store_get_snapshot_state ::
  "string \<Rightarrow> string \<Rightarrow> string \<Rightarrow> u32 \<Rightarrow> store \<Rightarrow> (u64 \<times> bytes) option" where
  "store_get_snapshot_state s b name schema st = find_latest_snapshot (so_db st) s b name schema None"

definition store_write_snapshot_state ::
  "i64 \<Rightarrow> string \<Rightarrow> string \<Rightarrow> u64 \<Rightarrow> string \<Rightarrow> u32 \<Rightarrow> u32 \<Rightarrow> bytes \<Rightarrow> store \<Rightarrow>
     store \<times> snapshot_info res" where
  "store_write_snapshot_state now s b version name rver schema state_bytes0 =
     on_db (\<lambda>d. Inr (write_snapshot now s b version name rver schema state_bytes0 d))"

definition store_read_state_bytes ::
  "libs \<Rightarrow> (nat \<Rightarrow> i64) \<Rightarrow> string \<Rightarrow> string \<Rightarrow> store \<Rightarrow> store \<times> bytes res" where
  "store_read_state_bytes L clock s b st =
     (let (ss', r) = read_state_bytes L clock s b (so_state st) in (st\<lparr>so_state := ss'\<rparr>, r))"

definition store_emit_project_registered ::
  "libs \<Rightarrow> i64 \<Rightarrow> string \<Rightarrow> string \<Rightarrow> string \<Rightarrow> string \<Rightarrow> store \<Rightarrow> store" where
  "store_emit_project_registered L now source local_path pattern description st =
     set_db (emit_project_registered L now source local_path pattern description (so_db st)) st"

definition store_emit_relay_heartbeat ::
  "libs \<Rightarrow> i64 \<Rightarrow> string \<Rightarrow> i64 \<Rightarrow> u64 \<Rightarrow> i64 \<Rightarrow> store \<Rightarrow> store" where
  "store_emit_relay_heartbeat L now source last_event_version queue_lag uptime_us st =
     set_db (emit_relay_heartbeat L now source last_event_version queue_lag uptime_us (so_db st)) st"

text \<open>The similarity provider is code of the caller, if there is one.\<close>

definition store_similarity_query :: "('q \<Rightarrow> 'hit list res) option \<Rightarrow> 'q \<Rightarrow> 'hit list res" where
  "store_similarity_query provider q =
     (case provider of
        Some query \<Rightarrow> query q
      | None \<Rightarrow> Inl (NotImplemented
          ''similarity_query: no SimilaritySearchProvider wired in OpenOptions''))"

definition store_schedule_task :: "backlog_task \<Rightarrow> store \<Rightarrow> store" where
  "store_schedule_task t st =
     st\<lparr>so_state := (so_state st)\<lparr>ss_scheduled := ss_scheduled (so_state st) @ [t]\<rparr>\<rparr>"

text \<open>The executor runs a task against the inner store.\<close>

definition store_run_task :: "libs \<Rightarrow> (nat \<Rightarrow> i64) \<Rightarrow> backlog_task \<Rightarrow> store \<Rightarrow> store" where
  "store_run_task L clock t st = st\<lparr>so_state := execute_task (inner_ops L clock) t (so_state st)\<rparr>"

definition dispatch_channel_pressure :: "store \<Rightarrow> nat" where
  "dispatch_channel_pressure st = length (so_channel st)"

definition dispatch_channel_high_water_mark :: "store \<Rightarrow> nat" where
  "dispatch_channel_high_water_mark st = so_high_water st"

end
