(* ===== verification/Store_Invariant.thy ===== *)
theory Store_Invariant
  imports Store
begin

text \<open>
  The invariant of the store file. Every public operation of the store changes the file only by
  inserting event rows the way a writer does, deleting an event, or changing other tables
  (\<open>db_effect\<close>); the locale \<open>store_operation\<close> is that contract, and every operation of \<open>Store\<close> is
  interpreted in it. The steps of a store are the runs of all these operations in any order.
\<close>

section \<open>Effects on the file\<close>

text \<open>Tags are stored as the text of a JSON value.\<close>

definition written :: "libs \<Rightarrow> event_row \<Rightarrow> bool" where
  "written L r \<longleftrightarrow>
     (case r_indexed_tags r of None \<Rightarrow> True | Some t \<Rightarrow> t \<in> range (json_to_string L))"

inductive db_effect :: "libs \<Rightarrow> db \<Rightarrow> db \<Rightarrow> bool" for L :: libs where
  effect_none: "db_effect L d d"
| effect_insert: "db_effect L d d' \<Longrightarrow> r_version row = next_version d' (r_stream_id row) (r_branch row) \<Longrightarrow>
    stream_exists_impl d' (r_stream_id row) \<Longrightarrow> written L row \<Longrightarrow>
    db_effect L d (fst (event_insert_or_ignore row d'))"
| effect_other: "db_effect L d d' \<Longrightarrow> t_events d'' = t_events d' \<Longrightarrow>
    set (t_streams d') \<subseteq> set (t_streams d'') \<Longrightarrow> db_effect L d d''"
| effect_delete: "db_effect L d d' \<Longrightarrow> db_effect L d (delete_event i d')"

lemma db_effect_trans: "db_effect L d' d'' \<Longrightarrow> db_effect L d d' \<Longrightarrow> db_effect L d d''"
  by (induction rule: db_effect.induct) (auto intro: db_effect.intros)

lemma effect_frame:
  "t_events d' = t_events d \<Longrightarrow> t_streams d' = t_streams d \<Longrightarrow> db_effect L d d'"
  by (rule effect_other [OF effect_none]) simp_all

definition store_ok :: "libs \<Rightarrow> db \<Rightarrow> bool" where
  "store_ok L d \<longleftrightarrow> events_wf (t_events d) \<and> streams_declared d \<and>
     list_all (written L) (t_events d) \<and> stream_exists_impl d SYSTEM_STREAM"

lemma delete_event_rows:
  "t_events (delete_event i d) = filter (\<lambda>r. r_id r \<noteq> i) (t_events d)"
  "t_streams (delete_event i d) = t_streams d"
  by (simp_all add: delete_event_def)

lemma events_wf_filter: "events_wf rs \<Longrightarrow> events_wf (filter P rs)"
  by (auto simp: events_wf_def distinct_map_filter)

lemma db_effect_ok: "db_effect L d d' \<Longrightarrow> store_ok L d \<Longrightarrow> store_ok L d'"
proof (induction rule: db_effect.induct)
  case (effect_insert d d' row)
  let ?d2 = "fst (event_insert_or_ignore row d')"
  have ok: "store_ok L d'" using effect_insert by blast
  have "event_writes d' ?d2" using effect_insert.hyps(2,3) by (rule event_writes_one)
  from event_writes_wf [OF this] event_writes_declared [OF this] ok
  have "events_wf (t_events ?d2)" "streams_declared ?d2" by (simp_all add: store_ok_def)
  moreover have "list_all (written L) (t_events ?d2)"
    using ok effect_insert.hyps(4) by (simp add: store_ok_def event_insert_or_ignore_def)
  moreover have "stream_exists_impl ?d2 SYSTEM_STREAM"
    using ok insert_frame(3) [OF refl, of row d'] by (simp add: store_ok_def stream_exists_iff)
  ultimately show ?case by (simp add: store_ok_def)
next
  case (effect_other d d' d'')
  then have "store_ok L d'" by blast
  moreover have "stream_exists_impl d' s \<Longrightarrow> stream_exists_impl d'' s" for s
    using effect_other.hyps(3) unfolding stream_exists_iff by blast
  ultimately show ?case
    using effect_other.hyps(2) by (simp add: store_ok_def streams_declared_def)
next
  case (effect_delete d d' i)
  then show ?case
    by (auto simp: store_ok_def streams_declared_def stream_exists_iff delete_event_rows
        list_all_iff intro: events_wf_filter)
qed

lemma written_readable: "json_text_ok L \<Longrightarrow> written L r \<Longrightarrow> row_readable L r"
  by (auto simp: row_readable_tags written_def json_text_ok_def split: option.splits)

section \<open>The contract\<close>

locale store_operation =
  fixes L :: libs and run :: "store \<Rightarrow> store"
  assumes run_effect: "store_ok L (so_db st) \<Longrightarrow> db_effect L (so_db st) (so_db (run st))"
begin

lemma run_ok: "store_ok L (so_db st) \<Longrightarrow> store_ok L (so_db (run st))"
  using run_effect db_effect_ok by blast

end

lemma set_db_simps [simp]:
  "so_db (set_db d st) = d" "so_registry (set_db d st) = so_registry st"
  "so_channel (set_db d st) = so_channel st" "so_sync_degraded (set_db d st) = so_sync_degraded st"
  by (simp_all add: set_db_def)

text \<open>Operations that do not touch the file, and operations that are one statement.\<close>

lemma on_db_effect:
  assumes "\<And>d' x. f (so_db st) = Inr (d', x) \<Longrightarrow> db_effect L (so_db st) d'"
  shows "db_effect L (so_db st) (so_db (fst (on_db f st)))"
  using assms by (auto simp: on_db_def effect_none split: sum.splits)

lemma returns_unit_Inr [simp]: "returns_unit r = Inr (d, u) \<longleftrightarrow> r = Inr d"
  by (cases r) (simp_all add: returns_unit_def)

section \<open>Appends\<close>

lemma append_row_written: "written L (append_row L a i v t pb)"
  by (simp add: written_def append_row_def split: option.splits)

lemma append_impl_db_effect: "append_impl L now a p pb d = Inr (d', out) \<Longrightarrow> db_effect L d d'"
  by (auto simp: append_impl_Inr Let_def intro!: effect_insert [OF effect_none] append_row_written)

lemma append_if_impl_effect:
  "append_if_impl L now a p pb cond d = Inr (d', out) \<Longrightarrow> db_effect L d d'"
  by (auto simp: append_if_cases bind_res_Inr_iff
      intro: append_impl_db_effect effect_none split: if_splits)

lemma batch_insert_effect: "batch_insert L xs d = Inr (d', outs) \<Longrightarrow> db_effect L d d'"
proof (induction L xs d arbitrary: d' outs rule: batch_insert.induct)
  case (1 L d)
  then show ?case by (simp add: effect_none)
next
  case (2 L a enc rest d)
  let ?row = "append_row L a (en_event_id enc) (next_version d (a_stream_id a) (a_branch a))
    (en_timestamp_us enc) (en_payload_bytes enc)"
  obtain d1 n where ins: "event_insert_or_ignore ?row d = (d1, n)" by fastforce
  from "2.prems" have ex: "stream_exists_impl d (a_stream_id a)" by (auto split: if_splits)
  with "2.prems" ins obtain d2 outs' where "batch_insert L rest d1 = Inr (d2, outs')" "d' = d2"
    by (auto simp: Let_def bind_res_Inr_iff)
  with "2.IH" ex ins have "db_effect L d1 d'" by (auto simp: Let_def)
  moreover have "db_effect L d d1"
    using effect_insert [OF effect_none, of ?row d L] ex ins append_row_written by simp
  ultimately show ?case by (rule db_effect_trans)
qed

lemma append_batch_impl_effect: "append_batch_impl L items d = Inr (d', outs) \<Longrightarrow> db_effect L d d'"
  by (auto simp: append_batch_impl_def bind_res_Inr_iff
      intro: batch_insert_effect effect_none split: if_splits)

lemma fold_send_simps [simp]:
  "so_state (fold send_event es st) = so_state st"
  "so_registry (fold send_event es st) = so_registry st"
  "so_channel (fold send_event es st) = so_channel st @ es"
  "so_sync_degraded (fold send_event es st) = so_sync_degraded st"
  by (induction es arbitrary: st) (simp_all add: send_event_def)

lemma noting_write_simps [simp]:
  "so_state (noting_write now st) = so_state st" "so_registry (noting_write now st) = so_registry st"
  "so_channel (noting_write now st) = so_channel st"
  "so_sync_degraded (noting_write now st) = so_sync_degraded st"
  by (simp_all add: noting_write_def)

lemma after_commit_simps [simp]:
  "so_db (after_commit d' (rg', es, ds) (noting_write now) st) = d'"
  "so_db (after_commit d' (rg', es, ds) id st) = d'"
  "so_registry (after_commit d' (rg', es, ds) (noting_write now) st) = rg'"
  "so_channel (after_commit d' (rg', es, ds) (noting_write now) st) = so_channel st @ es"
  by (simp_all add: after_commit_def)

lemma after_commit_db: "so_db (after_commit d' x (noting_write now) st) = d'" "so_db (after_commit d' x id st) = d'"
  by (cases x; simp)+

interpretation op_append: store_operation L "\<lambda>st. fst (store_append L now now2 a st)" for L now now2 a
  by unfold_locales
    (auto simp: store_append_def after_commit_db effect_none bind_res_Inr_iff
      intro: append_impl_db_effect split: sum.splits prod.splits)

interpretation op_append_if: store_operation L "\<lambda>st. fst (store_append_if L now now2 a cond st)"
  for L now now2 a cond
  by unfold_locales
    (auto simp: store_append_if_def after_commit_db effect_none bind_res_Inr_iff
      intro: append_if_impl_effect split: sum.splits prod.splits option.splits)

interpretation op_append_batch: store_operation L "\<lambda>st. fst (store_append_batch L now2 appends st)"
  for L now2 appends
  by unfold_locales
    (auto simp: store_append_batch_def after_commit_db effect_none bind_res_Inr_iff
      intro: append_batch_impl_effect split: sum.splits prod.splits if_splits)

section \<open>Internal events\<close>

lemma emit_effect:
  "stream_exists_impl d SYSTEM_STREAM \<Longrightarrow> db_effect L d (emit L now event_type payload tags d)"
  by (auto simp: emit_def written_def system_row_def intro!: effect_none effect_insert [OF effect_none]
      split: sum.splits option.splits)

lemma emit_exists:
  "stream_exists_impl d s \<Longrightarrow> stream_exists_impl (emit L now event_type payload tags d) s"
  using emit_extends [of d L now event_type payload tags]
  by (auto simp: emit_def event_insert_or_ignore_def stream_exists_iff split: sum.splits)

lemma emit_degraded_effect:
  "stream_exists_impl d SYSTEM_STREAM \<Longrightarrow> db_effect L d (emit_degraded L clock k ds d)"
proof (induction L clock k ds d rule: emit_degraded.induct)
  case (1 L clock k d)
  then show ?case by (simp add: effect_none)
next
  case (2 L clock k i s b v rest d)
  let ?d1 = "emit_subscription_degraded L (clock k) i s b v d"
  have "db_effect L d ?d1" "stream_exists_impl ?d1 SYSTEM_STREAM"
    using "2.prems" by (simp_all add: emit_subscription_degraded_def emit_effect emit_exists)
  with "2.IH" show ?case by (auto intro: db_effect_trans)
qed

interpretation op_dispatcher: store_operation L "dispatcher_turn L clock" for L clock
  by unfold_locales
    (auto simp: dispatcher_turn_def Let_def store_ok_def effect_none
      intro: emit_degraded_effect split: list.splits prod.splits)

interpretation op_registered: store_operation L
  "store_emit_project_registered L now source local_path pattern description"
  for L now source local_path pattern description
  by unfold_locales
    (simp add: store_emit_project_registered_def emit_project_registered_def store_ok_def emit_effect)

interpretation op_heartbeat: store_operation L
  "store_emit_relay_heartbeat L now source v queue_lag uptime_us"
  for L now source v queue_lag uptime_us
  by unfold_locales
    (simp add: store_emit_relay_heartbeat_def emit_relay_heartbeat_def store_ok_def emit_effect)

section \<open>Streams, deletion, cursors, branches\<close>

interpretation op_declare: store_operation L "\<lambda>st. fst (store_declare_stream L now s by0 desc st)"
  for L now s by0 desc
  by unfold_locales
    (auto simp: store_declare_stream_def declare_stream_impl_def bind_res_Inr_iff
      stream_insert_or_ignore_def intro!: on_db_effect effect_other [OF effect_none])

lemma purge_effect:
  assumes "purge_event_impl L now i confirm reason purged_by d = Inr d'"
    and "stream_exists_impl d SYSTEM_STREAM"
  shows "db_effect L d d'"
proof -
  let ?d1 = "stream_insert_or_ignore
             \<lparr>st_id = SYSTEM_STREAM, st_declared_by = ''fossic-internal'',
              st_declared_at = 0, st_description = Some ''Internal fossic system events''\<rparr> d"
  from assms(1) obtain idb pb where d': "d' = delete_event i (fst (event_insert_or_ignore
        (purged_row (EventId idb) (next_version d SYSTEM_STREAM ''main'') now pb) ?d1))"
    unfolding purge_Inr by blast
  have same: "?d1 = d" using assms(2) by (auto simp: stream_insert_or_ignore_def stream_exists_iff)
  have "written L (purged_row (EventId idb) (next_version d SYSTEM_STREAM ''main'') now pb)"
    by (simp add: written_def purged_row_def)
  with assms(2) show ?thesis
    unfolding d' same by (intro effect_delete effect_insert effect_none) simp_all
qed

interpretation op_purge: store_operation L
  "\<lambda>st. fst (store_purge_event L now i confirm reason purged_by st)" for L now i confirm reason purged_by
  by unfold_locales (auto simp: store_purge_event_def store_ok_def intro!: on_db_effect purge_effect)

interpretation op_set_cursor: store_operation L "\<lambda>st. fst (store_set_cursor now consumer s b v st)"
  for L now consumer s b v
  by unfold_locales
    (auto simp: store_set_cursor_def set_cursor_impl_def intro!: on_db_effect effect_frame)

interpretation op_create_branch: store_operation L "\<lambda>st. fst (store_create_branch_op L' now b st)"
  for L L' now b
  by unfold_locales
    (auto simp: store_create_branch_op_def store_create_branch_def create_branch_impl_def
      bind_res_Inr_iff effect_none intro!: effect_frame split: sum.splits if_splits)

interpretation op_promote: store_operation L "\<lambda>st. fst (store_promote_branch now s b reason st)"
  for L now s b reason
  by unfold_locales
    (auto simp: store_promote_branch_def promote_branch_impl_def close_branch_def effect_none
      intro!: on_db_effect effect_frame split: option.splits if_splits)

interpretation op_dead_end: store_operation L "\<lambda>st. fst (store_mark_branch_dead_end now s b reason st)"
  for L now s b reason
  by unfold_locales
    (auto simp: store_mark_branch_dead_end_def mark_branch_dead_end_impl_def close_branch_def effect_none
      intro!: on_db_effect effect_frame split: option.splits if_splits)

interpretation op_upcaster: store_operation L "store_register_upcaster_op now event_type from0 to0 f"
  for L now event_type from0 to0 f
  by unfold_locales
    (auto simp: store_register_upcaster_op_def store_register_upcaster_def Let_def
      intro!: effect_frame split: prod.splits)

section \<open>Snapshots and states\<close>

lemma finish_snapshot_frame:
  "t_events (fst (finish_snapshot now reducer s b plan d)) = t_events d \<and>
   t_streams (fst (finish_snapshot now reducer s b plan d)) = t_streams d"
  by (auto simp: finish_snapshot_def write_snapshot_def split: sum.splits prod.splits)

lemma take_snapshot_effect: "take_snapshot L now reg s b d = Inr (d', info) \<Longrightarrow> db_effect L' d d'"
proof -
  assume "take_snapshot L now reg s b d = Inr (d', info)"
  then obtain reducer plan where "finish_snapshot now reducer s b plan d = (d', info)"
    by (auto simp: take_snapshot_def bind_res_Inr_iff)
  with finish_snapshot_frame [of now reducer s b plan d] show ?thesis by (simp add: effect_frame)
qed

lemma gc_effect: "db_effect L d (fst (gc_orphaned_snapshots_impl active d))"
proof (rule effect_frame)
  have "t_streams (fst (gc_loop active ps n d')) = t_streams d'" for ps n d'
    by (induction ps arbitrary: n d') (auto simp: delete_snapshots_def split: prod.splits)
  then show "t_streams (fst (gc_orphaned_snapshots_impl active d)) = t_streams d"
    by (simp add: gc_orphaned_snapshots_impl_def)
qed (simp add: gc_rows)

interpretation op_take_snapshot: store_operation L "\<lambda>st. fst (store_take_snapshot L' now s b st)"
  for L L' now s b
  by unfold_locales (unfold store_take_snapshot_def, rule on_db_effect, rule take_snapshot_effect)

interpretation op_write_snapshot: store_operation L
  "\<lambda>st. fst (store_write_snapshot_state now s b v name rv sv blob st)" for L now s b v name rv sv blob
  by unfold_locales
    (auto simp: store_write_snapshot_state_def write_snapshot_def intro!: on_db_effect effect_frame)

lemma prod_let: "(let (x, y) = p in f x y) = f (fst p) (snd p)"
  by (cases p) simp

interpretation op_gc: store_operation L "\<lambda>st. fst (store_gc_orphaned_snapshots st)" for L
  by unfold_locales (simp add: store_gc_orphaned_snapshots_def prod_let gc_effect)

interpretation op_drop: store_operation L store_drop for L
  by unfold_locales (simp add: store_drop_def op_gc.run_effect effect_none)

lemma auto_snapshot_effect: "db_effect L' (ss_db ss) (ss_db (fst (auto_snapshot L now s b ss)))"
  by (auto simp: auto_snapshot_def intro: effect_none take_snapshot_effect split: sum.splits error.splits)

lemma set_counter_db [simp]: "ss_db (set_counter s b n ss) = ss_db ss"
  by (simp add: set_counter_def)

lemma maybe_auto_snapshot_effect:
  "db_effect L' (ss_db ss) (ss_db (fst (maybe_auto_snapshot L clock k s b n policy ss)))"
  using auto_snapshot_effect [of L' "set_counter s b m ss" for m]
    auto_snapshot_effect [of L' "set_counter s b m (set_counter s b j ss)" for m j]
  by (cases policy) (auto simp: maybe_auto_snapshot_def Let_def schedule_background_snapshot_def effect_none)

lemma maybe_emit_effect:
  "stream_exists_impl (ss_db ss) SYSTEM_STREAM \<Longrightarrow>
   db_effect L (ss_db ss) (ss_db (fst (maybe_emit_state_large L clock k s b ss)))"
  by (auto simp: maybe_emit_state_large_def Let_def effect_none emit_effect split: option.splits)

lemma read_state_bytes_effect:
  assumes "stream_exists_impl (ss_db ss) SYSTEM_STREAM"
  shows "db_effect L (ss_db ss) (ss_db (fst (read_state_bytes L clock s b ss)))"
proof (cases "bind_res (get_reducer_with_policy (ss_reducers ss) s) (\<lambda>(reducer, policy).
    bind_res (compute_state_bytes L (ss_db ss) reducer s b None) (\<lambda>x. Inr (reducer, policy, x)))")
  case (Inl e)
  then show ?thesis
    by (auto simp: read_state_bytes_def bind_res_def effect_none split: sum.splits prod.splits)
next
  case (Inr x)
  then obtain reducer policy bytes events where
    reducer: "get_reducer_with_policy (ss_reducers ss) s = Inr (reducer, policy)"
    and compute: "compute_state_bytes L (ss_db ss) reducer s b None = Inr (bytes, events)"
    by (auto simp: bind_res_Inr_iff)
  obtain ms k where fold: "fold_monitored reducer s b clock 0 bytes events ss =
      (ss\<lparr>ss_state_monitors := ms\<rparr>, k, fold_events reducer s bytes events)"
    using fold_monitored_result by blast
  let ?emit = "maybe_emit_state_large L clock k s b (ss\<lparr>ss_state_monitors := ms\<rparr>)"
  let ?snap = "maybe_auto_snapshot L clock (snd ?emit) s b (word_of_nat (length events)) policy (fst ?emit)"
  have "ss_db (fst (read_state_bytes L clock s b ss)) \<in> {ss_db ss, ss_db (fst ?snap)}"
    using reducer compute fold
    by (auto simp: read_state_bytes_def split: sum.splits prod.splits)
  moreover have "db_effect L (ss_db ss) (ss_db (fst ?snap))"
    using db_effect_trans [OF maybe_auto_snapshot_effect maybe_emit_effect [of "ss\<lparr>ss_state_monitors := ms\<rparr>"]]
      assms by simp
  ultimately show ?thesis by (auto intro: effect_none)
qed

interpretation op_read_state: store_operation L "\<lambda>st. fst (store_read_state_bytes L clock s b st)"
  for L clock s b
  by unfold_locales (simp add: store_read_state_bytes_def prod_let store_ok_def read_state_bytes_effect)

lemma bg_take_snapshot_effect: "db_effect L' (ss_db ss) (ss_db (fst (bg_take_snapshot L clock s b ss)))"
proof (cases "bind_res (get_reducer (ss_reducers ss) s) (\<lambda>reducer.
             bind_res (plan_snapshot L reducer s b (ss_db ss)) (\<lambda>plan. Inr (reducer, plan)))")
  case (Inl e)
  then show ?thesis by (simp add: bg_take_snapshot_def effect_none)
next
  case (Inr x)
  obtain reducer plan where x: "x = (reducer, plan)" by (cases x)
  have "db_effect L' (ss_db ss) (fst (finish_snapshot (clock 0) reducer s b plan (ss_db ss)))"
    by (rule effect_frame) (simp_all add: finish_snapshot_frame)
  with Inr x show ?thesis
    by (cases plan) (auto simp: bg_take_snapshot_def effect_none split: prod.splits)
qed

interpretation op_run_task: store_operation L "store_run_task L' clock t" for L L' clock t
  by unfold_locales
    (auto simp: store_run_task_def execute_task_def inner_ops_def bg_gc_orphaned_snapshots_def prod_let
      effect_none gc_effect bg_take_snapshot_effect split: task_kind.splits)

section \<open>The steps of a store\<close>

text \<open>
  The public operations that change the store, the turns of its dispatcher and of its executor,
  and the handler threads of its subscriptions.
\<close>

inductive store_step :: "libs \<Rightarrow> store \<Rightarrow> store \<Rightarrow> bool" for L :: libs where
  step_append: "store_step L st (fst (store_append L now now2 a st))"
| step_append_if: "store_step L st (fst (store_append_if L now now2 a cond st))"
| step_append_batch: "store_step L st (fst (store_append_batch L now2 appends st))"
| step_declare: "store_step L st (fst (store_declare_stream L now s declared_by desc st))"
| step_purge: "store_step L st (fst (store_purge_event L now i confirm reason purged_by st))"
| step_set_cursor: "store_step L st (fst (store_set_cursor now consumer s b v st))"
| step_create_branch: "store_step L st (fst (store_create_branch_op L now br st))"
| step_promote_branch: "store_step L st (fst (store_promote_branch now s b why st))"
| step_mark_dead_end: "store_step L st (fst (store_mark_branch_dead_end now s b why st))"
| step_take_snapshot: "store_step L st (fst (store_take_snapshot L now s b st))"
| step_write_snapshot: "store_step L st (fst (store_write_snapshot_state now s b w name rv sv blob st))"
| step_gc: "store_step L st (fst (store_gc_orphaned_snapshots st))"
| step_read_state: "store_step L st (fst (store_read_state_bytes L clock s b st))"
| step_upcaster: "store_step L st (store_register_upcaster_op now ty from0 to0 f st)"
| step_transform: "store_step L st (store_register_transform pattern f st)"
| step_reducer: "store_step L st (fst (store_register_reducer pattern reducer policy st))"
| step_registered: "store_step L st (store_emit_project_registered L now src path pattern desc2 st)"
| step_heartbeat: "store_step L st (store_emit_relay_heartbeat L now src last_v lag uptime st)"
| step_subscribe: "store_step L st (fst (store_subscribe q mode h st))"
| step_unsubscribe: "store_step L st (store_unsubscribe k st)"
| step_dispatch: "store_step L st (dispatcher_turn L clock st)"
| step_handler: "store_step L st (st\<lparr>so_registry := update_entry handler_take k (so_registry st)\<rparr>)"
| step_handler_wait: "store_step L st (st\<lparr>so_registry := update_entry handler_wait k (so_registry st)\<rparr>)"
| step_schedule: "store_step L st (store_schedule_task t st)"
| step_run_task: "store_step L st (store_run_task L clock t st)"
| step_drop: "store_step L st (store_drop st)"

lemmas operations_ok =
  op_append.run_ok op_append_if.run_ok op_append_batch.run_ok op_declare.run_ok op_purge.run_ok
  op_set_cursor.run_ok op_create_branch.run_ok op_promote.run_ok op_dead_end.run_ok
  op_take_snapshot.run_ok op_write_snapshot.run_ok op_gc.run_ok op_read_state.run_ok
  op_upcaster.run_ok op_registered.run_ok op_heartbeat.run_ok op_dispatcher.run_ok
  op_run_task.run_ok op_drop.run_ok

lemma memory_frame:
  "so_db (store_register_transform pattern f st) = so_db st"
  "so_db (fst (store_register_reducer pattern reducer policy st)) = so_db st"
  "so_db (fst (store_subscribe q mode h st)) = so_db st"
  "so_db (store_unsubscribe k st) = so_db st"
  "so_db (store_schedule_task t st) = so_db st"
  by (auto simp: store_register_transform_def store_register_reducer_def store_subscribe_def
      store_unsubscribe_def store_schedule_task_def split: sum.splits prod.splits)

lemma store_step_ok: "store_step L st st' \<Longrightarrow> store_ok L (so_db st) \<Longrightarrow> store_ok L (so_db st')"
  by (induction rule: store_step.induct) (simp_all add: operations_ok memory_frame)

lemma store_steps_ok: "(store_step L)\<^sup>*\<^sup>* st st' \<Longrightarrow> store_ok L (so_db st) \<Longrightarrow> store_ok L (so_db st')"
  by (induction rule: rtranclp_induct) (auto intro: store_step_ok)

section \<open>Opening\<close>

lemma meta_fold_frame:
  "t_events (fold meta_insert_or_ignore kvs d) = t_events d"
  "t_streams (fold meta_insert_or_ignore kvs d) = t_streams d"
  by (induction kvs arbitrary: d) (simp_all add: meta_insert_or_ignore_def)

lemma bootstrap_rows:
  "t_events (bootstrap_system_streams now (bootstrap_meta txt cv enc d)) = t_events d"
  "stream_exists_impl (bootstrap_system_streams now (bootstrap_meta txt cv enc d)) s \<longleftrightarrow>
     s = SYSTEM_STREAM \<or> stream_exists_impl d s"
  by (simp_all add: bootstrap_system_streams_def stream_exists_insert)
    (simp_all only: bootstrap_meta_def meta_fold_frame stream_exists_iff)

lemma migrations_rows:
  "run_migrations d = Inr d' \<Longrightarrow> t_events d' = t_events d \<and> t_streams d' = t_streams d"
  by (auto simp: run_migrations_def split: if_splits)

text \<open>What a file must satisfy to be a store file: it is new, or a store has left it.\<close>

definition file_ok :: "libs \<Rightarrow> db option \<Rightarrow> bool" where
  "file_ok L file \<longleftrightarrow>
     (let d = or_default empty_db file
      in events_wf (t_events d) \<and> streams_declared d \<and> list_all (written L) (t_events d))"

lemma store_open_ok:
  assumes "store_open cv txt clock path opts file = Inr st" and "file_ok L file"
  shows "store_ok L (so_db st)"
proof -
  from assms(1) obtain d where d: "run_migrations (or_default empty_db file) = Inr d"
    "so_db st = bootstrap_system_streams (clock 0) (bootstrap_meta txt cv ''plaintext'' d)"
    by (auto simp: store_open_def bind_res_Inr_iff split: if_splits)
  have rows: "t_events d = t_events (or_default empty_db file)"
    "stream_exists_impl d s = stream_exists_impl (or_default empty_db file) s" for s
    using migrations_rows [OF d(1)] by (simp_all add: stream_exists_iff)
  from assms(2) show ?thesis
    by (simp add: d(2) store_ok_def file_ok_def Let_def streams_declared_def bootstrap_rows rows)
qed


definition demo_open :: "open_options \<Rightarrow> db option \<Rightarrow> store res" where
  "demo_open = store_open ''0.1.0'' ''17'' (\<lambda>k. int k) ''/tmp/s''"

lemma demo_open_new:
  "\<exists>st. demo_open open_options_default None = Inr st"
  by (simp add: demo_open_def store_open_def open_options_default_def run_migrations_def or_default_def
      empty_db_def CURRENT_SCHEMA_VERSION_def)

lemma demo_file_ok: "file_ok L None"
  by (simp add: file_ok_def or_default_def empty_db_def events_wf_def streams_declared_def)


end
