(* ===== verification/Publishing.thy ===== *)
theory Publishing
  imports Store
begin

text \<open>
  From an append to its subscribers: what the store hands over without reading the file again,
  where a new subscription starts, and the whole way of one event through the dispatcher to the
  handler.
\<close>

section \<open>The event handed over\<close>

text \<open>The payload encoding can be decoded again.\<close>

definition payload_codec_ok :: "libs \<Rightarrow> bool" where
  "payload_codec_ok L \<longleftrightarrow> (\<forall>j b. mp_to_vec L j = Inr b \<longrightarrow> mp_from_slice L b = Inr j)"

lemma built_event:
  assumes "json_text_ok L"
    and "ao_event_id out = i" "ao_version out = as_u64 v" "ao_timestamp_us out = t" "ao_payload_bytes out = pb"
  shows "row_to_event L (append_row L a i v t pb) = Inr (build_stored_event out a)"
  using assms
  by (cases "a_indexed_tags a")
    (simp_all add: row_to_event_def append_row_def build_stored_event_def json_text_ok_def)

text \<open>Without a transform for the stream, the payload is stored as the caller's value encodes.\<close>

lemma prepare_payload_plain:
  assumes "payload_codec_ok L" and "\<forall>e \<in> set ts. \<not> glob_matches (te_pattern e) s"
    and "prepare_payload L ts s ty p = Inr (pv, pb)"
  shows "outcome_bytes L pv = pb"
proof -
  from assms(3) have "mp_to_vec L p = Inr pb" "mp_from_slice L pb = Inr pv"
    by (auto simp: prepare_payload_def bind_res_Inr_iff map_err_Inr_iff apply_transforms_none [OF assms(2)])
  with assms(1) show ?thesis by (auto simp: payload_codec_ok_def outcome_bytes_def)
qed

lemma store_append_published:
  assumes codecs: "json_text_ok L" "payload_codec_ok L"
    and plain: "\<forall>e \<in> set (so_transforms st). \<not> glob_matches (te_pattern e) (a_stream_id a)"
    and append: "store_append L now now2 a st = (st', Inr i)"
    and new: "i \<notin> r_id ` set (t_events (so_db st))"
    and subs: "has_subscribers (so_registry st)" "\<not> starts_with (a_stream_id a) ''_fossic/''"
  obtains row where "t_events (so_db st') = t_events (so_db st) @ [row]"
    and "r_id row = i" "r_stream_id row = a_stream_id a" "r_branch row = a_branch a"
    and "r_version row = next_version (so_db st) (a_stream_id a) (a_branch a)"
    and "row_to_event L row = Inr (event_of L row)"
    and "so_channel st' = so_channel st @ [event_of L row]"
    and "so_registry st' = fst (dispatch_sync (event_of L row) (so_registry st))"
proof -
  obtain pv pb d' out where
    prep: "prepare_payload L (so_transforms st) (a_stream_id a) (a_event_type a) (a_payload a) = Inr (pv, pb)"
    and ap: "append_impl L now a pv pb (so_db st) = Inr (d', out)" and i: "i = ao_event_id out"
    and st': "st' = after_commit d'
      (dispatch_outcome (has_subscribers (so_registry st)) a out (so_registry st)) (noting_write now2) st"
    using append unfolding store_append_def by (auto simp: bind_res_Inr_iff split: sum.splits prod.splits)
  let ?v = "next_version (so_db st) (a_stream_id a) (a_branch a)"
  define row where "row = append_row L a i ?v (append_timestamp now a) pb"
  from ap i have d': "d' = fst (event_insert_or_ignore row (so_db st))"
    and out: "ao_version out = as_u64 ?v" "ao_timestamp_us out = append_timestamp now a"
      "ao_payload_bytes out = outcome_bytes L pv" "ao_is_new out = (\<not> event_conflict (so_db st) row)"
    unfolding append_impl_Inr Let_def row_def by (auto dest: arg_cong [where f = ao_version]
        arg_cong [where f = ao_timestamp_us] arg_cong [where f = ao_payload_bytes]
        arg_cong [where f = ao_is_new])
  have "\<not> event_conflict (so_db st) row"
    using new by (subst event_conflict_id) (simp_all add: row_def)
  with d' out have d'_events: "t_events d' = t_events (so_db st) @ [row]" and is_new: "ao_is_new out"
    by (simp_all add: event_insert_or_ignore_def)
  have read: "row_to_event L row = Inr (build_stored_event out a)"
    unfolding row_def using out prepare_payload_plain [OF codecs(2) plain prep] i
    by (intro built_event [OF codecs(1)]) simp_all
  then have built: "build_stored_event out a = event_of L row" by (simp add: event_of_def)
  obtain rg ids where sync: "dispatch_sync (event_of L row) (so_registry st) = (rg, ids)" by fastforce
  have "dispatch_outcome (has_subscribers (so_registry st)) a out (so_registry st) =
      (rg, [event_of L row], map (\<lambda>i. (i, ev_stream_id (event_of L row), ev_branch (event_of L row),
         ev_version (event_of L row))) ids)"
    using is_new subs by (simp add: dispatch_outcome_def built sync Let_def)
  with st' have "so_db st' = d'" "so_channel st' = so_channel st @ [event_of L row]" "so_registry st' = rg"
    by (simp_all add: after_commit_def send_event_def set_db_def noting_write_def)
  with d'_events read built sync show ?thesis
    by (intro that [of row]) (simp_all add: row_def)
qed


section \<open>Where a subscription starts\<close>

lemma map_of_seeds: "map_of (map (\<lambda>s. ((s, b), f s)) ss) (s, b) = (if s \<in> set ss then Some (f s) else None)"
  by (induction ss) auto

text \<open>A matching stream starts at its newest version, which is -1 for a stream without events.\<close>

lemma seed_lookup:
  assumes "glob_matches (sq_stream_pattern q) s"
  shows "(case map_of (seed_streams d q) (s, sq_branch q) of None \<Rightarrow> -1 | Some v \<Rightarrow> v) =
    max_version d s (sq_branch q)"
proof (cases "\<exists>r \<in> set (t_events d). r_stream_id r = s \<and> r_branch r = sq_branch q")
  case True
  with assms show ?thesis by (auto simp: seed_streams_def map_of_seeds)
next
  case False
  then have "branch_versions d s (sq_branch q) = []"
    by (auto simp: branch_versions_def filter_empty_conv)
  with False show ?thesis by (auto simp: seed_streams_def map_of_seeds max_version_def)
qed

definition seeded_entry :: "db \<Rightarrow> subscribe_query \<Rightarrow> nat \<Rightarrow> handler \<Rightarrow> subscriber_entry" where
  "seeded_entry d q n h =
     (if is_exact (sq_stream_pattern q)
      then new_entry q (ModePostCommit n) (max_version d (sq_stream_pattern q) (sq_branch q)) [] h
      else new_entry q (ModePostCommit n) (- 1) (seed_streams d q) h)"

lemma subscribe_entry:
  assumes "store_subscribe q (ModePostCommit n) h st = (st', k)"
  shows "map_of (rg_entries (so_registry st')) k = Some (seeded_entry (so_db st) q n h)"
  using assms
  by (auto simp: store_subscribe_def seeded_entry_def registry_subscribe_def Let_def update_conv
      split: if_splits)

lemma seeded_entry_simps [simp]:
  "se_stream_pattern (seeded_entry d q n h) = sq_stream_pattern q"
  "se_branch (seeded_entry d q n h) = sq_branch q"
  "se_include_system (seeded_entry d q n h) = sq_include_system q"
  "\<not> se_degraded (seeded_entry d q n h)" "se_handler (seeded_entry d q n h) = h"
  "se_calls (seeded_entry d q n h) = []"
  by (simp_all add: seeded_entry_def new_entry_def)

lemma seeded_kind:
  obtains pc where "se_kind (seeded_entry d q n h) = PostCommit pc"
    and "pc_queue pc = []" "pc_capacity pc = n" "pc_open pc"
    and "\<And>e. in_scope (seeded_entry d q n h) e \<Longrightarrow>
      effective_cursor (seeded_entry d q n h) pc e = max_version d (ev_stream_id e) (ev_branch e)"
proof (cases "is_exact (sq_stream_pattern q)")
  case True
  then have "ev_stream_id e = sq_stream_pattern q" "ev_branch e = sq_branch q"
    if "in_scope (seeded_entry d q n h) e" for e
    using exact_stream [OF that] that by (simp_all add: in_scope_def)
  with True show ?thesis
    by (intro that [of "\<lparr>pc_queue = [], pc_capacity = n, pc_open = True, pc_waiting = False,
        pc_wal_cursor = max_version d (sq_stream_pattern q) (sq_branch q), pc_stream_cursors = []\<rparr>"])
      (simp_all add: seeded_entry_def new_entry_def effective_cursor_def)
next
  case False
  have "(case map_of (seed_streams d q) (ev_stream_id e, ev_branch e) of None \<Rightarrow> -1 | Some v \<Rightarrow> v) =
      max_version d (ev_stream_id e) (ev_branch e)" if "in_scope (seeded_entry d q n h) e" for e
    using seed_lookup [of q "ev_stream_id e" d] that by (simp add: in_scope_def)
  with False show ?thesis
    by (intro that [of "\<lparr>pc_queue = [], pc_capacity = n, pc_open = True, pc_waiting = False,
        pc_wal_cursor = -1, pc_stream_cursors = seed_streams d q\<rparr>"])
      (simp_all add: seeded_entry_def new_entry_def effective_cursor_def)
qed

text \<open>Dispatching to an entry whose queue is empty and has room.\<close>

lemma post_commit_call_seeded:
  "post_commit_call e (seeded_entry d q n h) = seeded_entry d q n h" if
    "in_scope (seeded_entry d q n h) e \<Longrightarrow> ver e \<le> max_version d (ev_stream_id e) (ev_branch e)"
proof -
  obtain pc where "se_kind (seeded_entry d q n h) = PostCommit pc"
    "\<And>e. in_scope (seeded_entry d q n h) e \<Longrightarrow>
      effective_cursor (seeded_entry d q n h) pc e = max_version d (ev_stream_id e) (ev_branch e)"
    by (rule seeded_kind) blast
  with that show ?thesis by (auto simp: post_commit_call_def send_to_def)
qed

lemma post_commit_call_new:
  assumes "in_scope (seeded_entry d q n h) e" "max_version d (ev_stream_id e) (ev_branch e) < ver e" "0 < n"
  obtains pc where "se_kind (post_commit_call e (seeded_entry d q n h)) = PostCommit pc"
    and "pc_queue pc = [e]" "pc_open pc"
    and "se_calls (post_commit_call e (seeded_entry d q n h)) = []"
    and "se_handler (post_commit_call e (seeded_entry d q n h)) = h"
proof -
  obtain pc where "se_kind (seeded_entry d q n h) = PostCommit pc"
    "pc_queue pc = []" "pc_capacity pc = n" "pc_open pc"
    "\<And>e. in_scope (seeded_entry d q n h) e \<Longrightarrow>
      effective_cursor (seeded_entry d q n h) pc e = max_version d (ev_stream_id e) (ev_branch e)"
    by (rule seeded_kind) blast
  with assms that show ?thesis
    by (simp add: post_commit_call_def send_to_def try_send_def advance_cursor_def Let_def)
qed

text \<open>
  C5. A new subscription, exact or with a glob, starts where its streams stand: dispatching any
  event that is in the file when it subscribes leaves it as it is, so nothing is replayed, and
  the first event after that on any stream in its scope, new streams included, goes into its
  queue.
\<close>

theorem subscribe_starts_after_committed:
  assumes "store_subscribe q (ModePostCommit n) h st = (st', k)" and "log_wf L (so_db st)" and "0 < n"
  shows "\<exists>entry. map_of (rg_entries (so_registry st')) k = Some entry \<and>
    (\<forall>r \<in> set (t_events (so_db st)). post_commit_call (event_of L r) entry = entry) \<and>
    (\<forall>e. in_scope entry e \<and> ver e = next_version (so_db st) (ev_stream_id e) (ev_branch e) \<longrightarrow>
       (\<exists>pc. se_kind (post_commit_call e entry) = PostCommit pc \<and> pc_queue pc = [e]))"
proof -
  let ?entry = "seeded_entry (so_db st) q n h"
  have "post_commit_call (event_of L r) ?entry = ?entry" if r: "r \<in> set (t_events (so_db st))" for r
  proof (rule post_commit_call_seeded)
    have "row_readable L r" "0 \<le> r_version r" "r_version r < i64_max"
      using assms(2) r by (auto simp: log_wf_def rows_readable_def events_wf_def)
    then have "ver (event_of L r) = r_version r" "ev_stream_id (event_of L r) = r_stream_id r"
      "ev_branch (event_of L r) = r_branch r"
      by (simp_all add: event_of_simps as_i64_as_u64)
    moreover have "r_version r \<le> max_version (so_db st) (r_stream_id r) (r_branch r)"
      using next_version_fresh [OF r refl refl] by (simp add: next_version_def)
    ultimately show "ver (event_of L r) \<le>
        max_version (so_db st) (ev_stream_id (event_of L r)) (ev_branch (event_of L r))" by simp
  qed
  moreover have "\<exists>pc. se_kind (post_commit_call e ?entry) = PostCommit pc \<and> pc_queue pc = [e]"
    if "in_scope ?entry e \<and> ver e = next_version (so_db st) (ev_stream_id e) (ev_branch e)" for e
    using post_commit_call_new [of "so_db st" q n h e] that assms(3) by (auto simp: next_version_def)
  ultimately show ?thesis using subscribe_entry [OF assms(1)] by blast
qed

definition demo_open_store :: store where
  "demo_open_store =
     \<lparr>so_state = \<lparr>ss_db = demo_db, ss_options = open_options_default, ss_reducers = [],
        ss_snapshot_counters = (\<lambda>_. None), ss_state_monitors = (\<lambda>_. None),
        ss_last_snapshot_us = (\<lambda>_. None), ss_store_open_us = 0, ss_scheduled = []\<rparr>,
      so_transforms = [], so_upcasters = (\<lambda>_. None), so_branch_cache = (\<lambda>_. None),
      so_registry = registry_new, so_channel = [], so_sync_degraded = [], so_high_water = 0,
      so_quiescence = quiescence_new 0\<rparr>"

definition demo_listening :: store where
  "demo_listening =
     fst (store_subscribe (subscribe_query_stream ''a/b'') (ModePostCommit 4) (\<lambda>_ _. False) demo_open_store)"

lemma demo_open_store_wf: "log_wf demo_libs (so_db demo_open_store)"
  by (simp add: demo_open_store_def demo_db_def empty_db_def log_wf_def events_wf_def rows_readable_def
      i64_max_def)

theorem subscribe_starts_after_committed_witness:
  "\<exists>entry. map_of (rg_entries (so_registry demo_listening)) 1 = Some entry"
proof -
  have "store_subscribe (subscribe_query_stream ''a/b'') (ModePostCommit 4) (\<lambda>_ _. False) demo_open_store =
      (demo_listening, 1)"
    by (simp add: demo_listening_def store_subscribe_def registry_subscribe_def demo_open_store_def
        registry_new_def Let_def)
  from subscribe_starts_after_committed [OF this demo_open_store_wf] show ?thesis by auto
qed

section \<open>From the append to the handler\<close>

lemma map_of_entries: "map_of (map (\<lambda>(i, entry). (i, f entry)) es) k = map_option f (map_of es k)"
  by (induction es) auto

lemma map_of_update_entry:
  "map_of (rg_entries (update_entry f k rg)) k = map_option f (map_of (rg_entries rg) k)"
proof -
  have "map_of (map (\<lambda>(i, entry). (i, if i = k then f entry else entry)) es) k = map_option f (map_of es k)"
    for es
    by (induction es) auto
  then show ?thesis by (simp add: update_entry_def)
qed

lemma dispatcher_turn_registry:
  assumes "so_channel st = event # channel" "\<not> starts_with (ev_stream_id event) ''_fossic/''"
  shows "so_registry (dispatcher_turn L clock st) = fst (dispatch_post_commit event (so_registry st))"
  using assms by (simp add: dispatcher_turn_def Let_def split: prod.splits)


lemma demo_payload_codec: "payload_codec_ok demo_libs"
  by (simp add: payload_codec_ok_def demo_libs_def)

lemma demo_listening_simps [simp]:
  "so_db demo_listening = demo_db" "so_transforms demo_listening = []" "so_channel demo_listening = []"
  "has_subscribers (so_registry demo_listening)"
  by (simp_all add: demo_listening_def demo_open_store_def store_subscribe_def registry_subscribe_def
      registry_new_def has_subscribers_def Let_def)

lemma demo_append_simps [simp]:
  "a_stream_id demo_append = ''a/b''" "a_branch demo_append = ''main''" "a_payload demo_append = JNull"
  by (simp_all add: demo_append_def append_default_def)

lemma demo_db_events [simp]: "t_events demo_db = []"
  by (simp add: demo_db_def empty_db_def)

lemma demo_store_append:
  "\<exists>st i. store_append demo_libs 5 6 demo_append demo_listening = (st, Inr i)"
proof -
  have "prepare_payload demo_libs [] ''a/b'' (a_event_type demo_append) JNull =
      Inr (JNull, replicate (to_nat JNull) 0)"
    by (simp add: prepare_payload_def demo_libs_def)
  moreover obtain d out where
    "append_impl demo_libs 5 demo_append JNull (replicate (to_nat JNull) 0) demo_db = Inr (d, out)"
    using demo_append_ok unfolding append_impl_ok_iff [symmetric] by (metis append_impl_ok_iff)
  ultimately show ?thesis by (simp add: store_append_def)
qed



end
