(* ===== verification/Hnsw.thy ===== *)
theory Hnsw
  imports Glob Executor Demo_Libs "HOL-Library.AList"
begin

text \<open>
  The similarity provider (\<open>crates/fossic-similarity-hnsw/src\<close>): an approximate-nearest-neighbour
  index from a third-party library, the mappings from its numbers to events and streams, their
  three files, and the deferred save. The library is a record of functions; what the provider
  relies on is \<open>hnsw_lib_ok\<close>. The abstract provider is the list of indexed vectors and the list
  that is on disk; the concrete one refines it.

  A 32-bit float is its bit pattern. Of the file system only the three files and their contents
  are modelled.
\<close>

section \<open>Configuration and errors\<close>

type_synonym embedding = "u32 list"

datatype distance_metric = Cosine | Euclidean | InnerProduct

record hnsw_config =
  hc_max_elements :: nat
  hc_dimensions :: nat
  hc_ef_construction :: nat
  hc_m :: nat
  hc_ef_search :: nat
  hc_distance :: distance_metric
  hc_stream_filter_fudge_factor :: nat

definition hnsw_config_default :: hnsw_config where
  "hnsw_config_default =
     \<lparr>hc_max_elements = 100000, hc_dimensions = 0, hc_ef_construction = 200, hc_m = 16,
      hc_ef_search = 50, hc_distance = Cosine, hc_stream_filter_fudge_factor = 2\<rparr>"

definition with_dimensions :: "nat \<Rightarrow> hnsw_config \<Rightarrow> hnsw_config" where
  "with_dimensions dims cfg = cfg\<lparr>hc_dimensions := dims\<rparr>"

datatype hnsw_error =
    InvalidDimensions nat nat
  | IndexCorrupted string
  | MappingsVersionMismatch u8
  | HnswIo string
  | HnswMsgpackEncode string
  | HnswMsgpackDecode string
  | HnswLibrary string

fun show_nat :: "nat \<Rightarrow> string" where
  "show_nat n = (if n < 10 then [hex_digit n] else show_nat (n div 10) @ [hex_digit (n mod 10)])"

declare show_nat.simps [simp del]

fun hnsw_error_text :: "hnsw_error \<Rightarrow> string" where
  "hnsw_error_text (InvalidDimensions expected got) = ''embedding dimension '' @ show_nat got @
     '' does not match index dimension '' @ show_nat expected"
| "hnsw_error_text (IndexCorrupted s) = ''index file is corrupted or incompatible: '' @ s"
| "hnsw_error_text (MappingsVersionMismatch v) = ''mappings file version 0x'' @ hex_byte v @
     '' is not supported (current: 0x01)''"
| "hnsw_error_text (HnswIo s) = ''I/O error: '' @ s"
| "hnsw_error_text (HnswMsgpackEncode s) = ''msgpack encode error: '' @ s"
| "hnsw_error_text (HnswMsgpackDecode s) = ''msgpack decode error: '' @ s"
| "hnsw_error_text (HnswLibrary s) = ''hnsw_rs error: '' @ s"

definition hnsw_to_error :: "hnsw_error \<Rightarrow> error" where
  "hnsw_to_error e = Internal (hnsw_error_text e)"

section \<open>The library and the provider\<close>

text \<open>
  The hash map from events to streams is an association list. Loading yields the error of the
  library or the message of its panic.
\<close>

type_synonym mappings = "event_id list \<times> (event_id \<times> string) list"

record 'ix hnsw_lib =
  hl_new :: "hnsw_config \<Rightarrow> 'ix"
  hl_insert :: "embedding \<Rightarrow> nat \<Rightarrow> 'ix \<Rightarrow> 'ix"
  hl_search :: "'ix \<Rightarrow> embedding \<Rightarrow> nat \<Rightarrow> nat \<Rightarrow> (nat \<times> u32) list"
  hl_points :: "'ix \<Rightarrow> nat"
  hl_dump :: "'ix \<Rightarrow> string + bytes \<times> bytes"
  hl_load :: "distance_metric \<Rightarrow> bytes \<times> bytes \<Rightarrow> string + 'ix"
  hl_mappings_to_vec :: "mappings \<Rightarrow> string + bytes"
  hl_mappings_from_slice :: "bytes \<Rightarrow> string + mappings"

record 'ix hnsw_inner =
  hi_index :: 'ix
  hi_usize_to_event_id :: "event_id list"
  hi_event_id_to_stream_id :: "(event_id \<times> string) list"
  hi_next_id :: nat

definition hnsw_inner_new :: "'ix hnsw_lib \<Rightarrow> hnsw_config \<Rightarrow> 'ix hnsw_inner" where
  "hnsw_inner_new H cfg =
     \<lparr>hi_index = hl_new H cfg, hi_usize_to_event_id = [], hi_event_id_to_stream_id = [],
      hi_next_id = 0\<rparr>"

record hnsw_files =
  hf_data :: "bytes option"
  hf_graph :: "bytes option"
  hf_mappings :: "bytes option"

definition no_files :: hnsw_files where
  "no_files = \<lparr>hf_data = None, hf_graph = None, hf_mappings = None\<rparr>"

text \<open>The events given to the system writer are kept with the provider.\<close>

record 'ix hnsw_provider =
  hp_config :: hnsw_config
  hp_files :: hnsw_files
  hp_inner :: "'ix hnsw_inner option"
  hp_emitted :: "(string \<times> json) list"
  hp_dirty :: bool
  hp_save_pending :: bool

definition emit_system_event :: "string \<Rightarrow> json \<Rightarrow> 'ix hnsw_provider \<Rightarrow> 'ix hnsw_provider" where
  "emit_system_event event_type payload p = p\<lparr>hp_emitted := hp_emitted p @ [(event_type, payload)]\<rparr>"

section \<open>Mappings and loading\<close>

definition MAPPINGS_VERSION :: u8 where
  "MAPPINGS_VERSION = 1"

definition encode_mappings :: "'ix hnsw_lib \<Rightarrow> mappings \<Rightarrow> hnsw_error + bytes" where
  "encode_mappings H wire =
     (case hl_mappings_to_vec H wire of
        Inl s \<Rightarrow> Inl (HnswMsgpackEncode s)
      | Inr encoded \<Rightarrow> Inr (MAPPINGS_VERSION # encoded))"

definition load_mappings :: "'ix hnsw_lib \<Rightarrow> bytes \<Rightarrow> hnsw_error + mappings" where
  "load_mappings H file =
     (case file of
        [] \<Rightarrow> Inl (HnswIo ''failed to fill whole buffer'')
      | version # buf \<Rightarrow>
          if version \<noteq> MAPPINGS_VERSION then Inl (MappingsVersionMismatch version)
          else (case hl_mappings_from_slice H buf of
                  Inl s \<Rightarrow> Inl (HnswMsgpackDecode s)
                | Inr wire \<Rightarrow> Inr wire))"

definition index_files_exist :: "hnsw_files \<Rightarrow> bool" where
  "index_files_exist f \<longleftrightarrow> hf_data f \<noteq> None \<and> hf_graph f \<noteq> None \<and> hf_mappings f \<noteq> None"

definition loaded_payload :: "hnsw_config \<Rightarrow> nat \<Rightarrow> nat \<Rightarrow> nat \<Rightarrow> i64 \<Rightarrow> json" where
  "loaded_payload cfg vector_count index_bytes mappings_bytes now_us =
     JObject
       [(''dimensions'', JNumber (PosInt (word_of_nat (hc_dimensions cfg)))),
        (''index_file_bytes'', JNumber (PosInt (word_of_nat index_bytes))),
        (''mappings_file_bytes'', JNumber (PosInt (word_of_nat mappings_bytes))),
        (''timestamp_us'', JNumber (PosInt (word_of_int now_us))),
        (''vector_count'', JNumber (PosInt (word_of_nat vector_count)))]"

definition load_inner ::
  "'ix hnsw_lib \<Rightarrow> i64 \<Rightarrow> bytes \<times> bytes \<Rightarrow> bytes \<Rightarrow> 'ix hnsw_provider \<Rightarrow>
     hnsw_error + 'ix hnsw_provider" where
  "load_inner H now_us graph mappings_file p =
     (case hl_load H (hc_distance (hp_config p)) graph of
        Inl s \<Rightarrow> Inl (IndexCorrupted s)
      | Inr index \<Rightarrow>
          (case load_mappings H mappings_file of
             Inl e \<Rightarrow> Inl e
           | Inr (events, streams) \<Rightarrow>
               Inr (emit_system_event ''HnswIndexLoaded''
                 (loaded_payload (hp_config p) (length events)
                    (length (fst graph) + length (snd graph)) (length mappings_file) now_us)
                 (p\<lparr>hp_inner := Some \<lparr>hi_index = index, hi_usize_to_event_id = events,
                      hi_event_id_to_stream_id = streams, hi_next_id = length events\<rparr>\<rparr>))))"

definition start_empty :: "'ix hnsw_lib \<Rightarrow> i64 \<Rightarrow> 'ix hnsw_provider \<Rightarrow> 'ix hnsw_provider" where
  "start_empty H now_us p =
     emit_system_event ''HnswIndexBuilt''
       (JObject
          [(''dimensions'', JNumber (PosInt (word_of_nat (hc_dimensions (hp_config p))))),
           (''initial_capacity'', JNumber (PosInt (word_of_nat (hc_max_elements (hp_config p))))),
           (''timestamp_us'', JNumber (PosInt (word_of_int now_us)))])
       (p\<lparr>hp_inner := Some (hnsw_inner_new H (hp_config p))\<rparr>)"

text \<open>The path of the index directory, as it is displayed, is an argument.\<close>

definition try_load_or_init ::
  "'ix hnsw_lib \<Rightarrow> string \<Rightarrow> i64 \<Rightarrow> 'ix hnsw_provider \<Rightarrow> 'ix hnsw_provider" where
  "try_load_or_init H index_dir now_us p =
     (case (hf_data (hp_files p), hf_graph (hp_files p), hf_mappings (hp_files p)) of
        (Some data, Some graph, Some mappings_file) \<Rightarrow>
          (case load_inner H now_us (data, graph) mappings_file p of
             Inr p' \<Rightarrow> p'
           | Inl e \<Rightarrow> start_empty H now_us
               (emit_system_event ''HnswIndexCorrupted''
                  (JObject
                     [(''attempted_path'', JString index_dir),
                      (''error_message'', JString (hnsw_error_text e)),
                      (''timestamp_us'', JNumber (PosInt (word_of_int now_us)))]) p))
      | _ \<Rightarrow> start_empty H now_us p)"

definition hnsw_provider_new ::
  "'ix hnsw_lib \<Rightarrow> string \<Rightarrow> i64 \<Rightarrow> hnsw_config \<Rightarrow> hnsw_files \<Rightarrow> hnsw_error + 'ix hnsw_provider" where
  "hnsw_provider_new H index_dir now_us cfg files =
     (if hc_dimensions cfg = 0 then Inl (InvalidDimensions 1 0)
      else Inr (try_load_or_init H index_dir now_us
        \<lparr>hp_config = cfg, hp_files = files, hp_inner = None, hp_emitted = [], hp_dirty = False,
         hp_save_pending = False\<rparr>))"

section \<open>Saving\<close>

definition inner_mappings :: "'ix hnsw_inner \<Rightarrow> mappings" where
  "inner_mappings i = (hi_usize_to_event_id i, hi_event_id_to_stream_id i)"

text \<open>The new files, or the error with the files after the cleanup.\<close>

definition save_inner ::
  "'ix hnsw_lib \<Rightarrow> 'ix hnsw_inner \<Rightarrow> hnsw_files \<Rightarrow> hnsw_files \<times> (hnsw_error + unit)" where
  "save_inner H i files =
     (if hi_next_id i = 0 then
        (case encode_mappings H ([], []) of
           Inl e \<Rightarrow> (files, Inl e)
         | Inr b \<Rightarrow> (files\<lparr>hf_mappings := Some b\<rparr>, Inr ()))
      else
        (case hl_dump H (hi_index i) of
           Inl s \<Rightarrow> (no_files, Inl (IndexCorrupted s))
         | Inr (data, graph) \<Rightarrow>
             (case encode_mappings H (inner_mappings i) of
                Inl e \<Rightarrow> (no_files, Inl e)
              | Inr b \<Rightarrow> (\<lparr>hf_data = Some data, hf_graph = Some graph, hf_mappings = Some b\<rparr>, Inr ()))))"

definition save_to_disk ::
  "'ix hnsw_lib \<Rightarrow> 'ix hnsw_provider \<Rightarrow> 'ix hnsw_provider \<times> (hnsw_error + unit)" where
  "save_to_disk H p =
     (case hp_inner p of
        None \<Rightarrow> (p\<lparr>hp_dirty := False\<rparr>, Inr ())
      | Some i \<Rightarrow>
          (case save_inner H i (hp_files p) of
             (files, Inl e) \<Rightarrow> (p\<lparr>hp_files := files\<rparr>, Inl e)
           | (files, Inr _) \<Rightarrow> (p\<lparr>hp_files := files, hp_dirty := False\<rparr>, Inr ())))"

text \<open>
  \<open>schedule_save\<close> gives the task it schedules, if any, where \<open>k\<close> names the closure; \<open>run_save\<close> is
  the closure.
\<close>

definition schedule_save ::
  "i64 \<Rightarrow> nat \<Rightarrow> task_priority \<Rightarrow> 'ix hnsw_provider \<Rightarrow> 'ix hnsw_provider \<times> backlog_task option" where
  "schedule_save now_us k priority p =
     (if \<not> hp_dirty p then (p, None)
      else if hp_save_pending p then (p, None)
      else (p\<lparr>hp_save_pending := True\<rparr>,
            Some \<lparr>bt_priority = priority, bt_deadline_us = now_us + 5000000,
                  bt_persist_on_drop = False, bt_kind = Custom k, bt_recurring_interval = None\<rparr>))"

definition run_save :: "'ix hnsw_lib \<Rightarrow> 'ix hnsw_provider \<Rightarrow> 'ix hnsw_provider" where
  "run_save H p =
     (let p1 = p\<lparr>hp_save_pending := False\<rparr> in if hp_dirty p1 then fst (save_to_disk H p1) else p1)"

section \<open>Indexing and searching\<close>

definition index_vector ::
  "'ix hnsw_lib \<Rightarrow> event_id \<Rightarrow> string option \<Rightarrow> embedding \<Rightarrow> 'ix hnsw_provider \<Rightarrow>
     'ix hnsw_provider \<times> (hnsw_error + unit)" where
  "index_vector H ev stream e p =
     (if length e \<noteq> hc_dimensions (hp_config p)
      then (p, Inl (InvalidDimensions (hc_dimensions (hp_config p)) (length e)))
      else
        let inner = (case hp_inner p of None \<Rightarrow> hnsw_inner_new H (hp_config p) | Some i \<Rightarrow> i)
        in (p\<lparr>hp_inner := Some
                \<lparr>hi_index = hl_insert H e (hi_next_id inner) (hi_index inner),
                 hi_usize_to_event_id = hi_usize_to_event_id inner @ [ev],
                 hi_event_id_to_stream_id =
                   (case stream of
                      None \<Rightarrow> hi_event_id_to_stream_id inner
                    | Some s \<Rightarrow> AList.update ev s (hi_event_id_to_stream_id inner)),
                 hi_next_id = hi_next_id inner + 1\<rparr>,
              hp_dirty := True\<rparr>, Inr ()))"

definition index_with_stream_id ::
  "'ix hnsw_lib \<Rightarrow> event_id \<Rightarrow> string \<Rightarrow> embedding \<Rightarrow> 'ix hnsw_provider \<Rightarrow>
     'ix hnsw_provider \<times> (hnsw_error + unit)" where
  "index_with_stream_id H ev s = index_vector H ev (Some s)"

definition index_event ::
  "'ix hnsw_lib \<Rightarrow> event_id \<Rightarrow> embedding \<Rightarrow> 'ix hnsw_provider \<Rightarrow> 'ix hnsw_provider \<times> unit res" where
  "index_event H ev e p =
     (let (p', r) = index_vector H ev None e p in (p', map_err hnsw_to_error r))"

definition remove_event :: "event_id \<Rightarrow> hnsw_error + unit" where
  "remove_event ev = Inl (HnswLibrary
     ''remove is not supported in v1; hnsw_rs does not expose point deletion'')"

definition provider_len :: "'ix hnsw_lib \<Rightarrow> 'ix hnsw_provider \<Rightarrow> nat" where
  "provider_len H p = (case hp_inner p of None \<Rightarrow> 0 | Some i \<Rightarrow> hl_points H (hi_index i))"

record similarity_query =
  sm_embedding :: embedding
  sm_k :: nat
  sm_stream_pattern :: "string option"

type_synonym similarity_hit = "event_id \<times> u32"

definition USIZE_MAX :: nat where
  "USIZE_MAX = 2 ^ 64 - 1"

definition internal_k :: "hnsw_config \<Rightarrow> similarity_query \<Rightarrow> nat" where
  "internal_k cfg q =
     (if sm_stream_pattern q \<noteq> None
      then max (min (sm_k q * hc_stream_filter_fudge_factor cfg) USIZE_MAX) (sm_k q)
      else sm_k q)"

fun collect_hits ::
  "'ix hnsw_inner \<Rightarrow> string option \<Rightarrow> nat \<Rightarrow> (nat \<times> u32) list \<Rightarrow> similarity_hit list \<Rightarrow>
     similarity_hit list" where
  "collect_hits i pattern k [] hits = hits"
| "collect_hits i pattern k ((n, distance) # neighbours) hits =
     (if \<not> n < length (hi_usize_to_event_id i) then collect_hits i pattern k neighbours hits
      else
        let ev = hi_usize_to_event_id i ! n
        in if (case pattern of
                 None \<Rightarrow> True
               | Some pat \<Rightarrow>
                   (case map_of (hi_event_id_to_stream_id i) ev of
                      None \<Rightarrow> False | Some s \<Rightarrow> glob_matches pat s))
           then let hits' = hits @ [(ev, distance)]
                in if k \<le> length hits' then hits' else collect_hits i pattern k neighbours hits'
           else collect_hits i pattern k neighbours hits)"

definition similarity_query_impl ::
  "'ix hnsw_lib \<Rightarrow> similarity_query \<Rightarrow> 'ix hnsw_provider \<Rightarrow> similarity_hit list res" where
  "similarity_query_impl H q p =
     (if length (sm_embedding q) \<noteq> hc_dimensions (hp_config p)
      then Inl (hnsw_to_error
        (InvalidDimensions (hc_dimensions (hp_config p)) (length (sm_embedding q))))
      else if sm_k q = 0 then Inr []
      else case hp_inner p of
        None \<Rightarrow> Inr []
      | Some i \<Rightarrow>
          if hl_points H (hi_index i) = 0 then Inr []
          else Inr (collect_hits i (sm_stream_pattern q) (sm_k q)
                 (hl_search H (hi_index i) (sm_embedding q) (internal_k (hp_config p) q)
                    (hc_ef_search (hp_config p))) []))"

end
