(* ===== verification/Hnsw_Refinement.thy ===== *)
theory Hnsw_Refinement
  imports Hnsw
begin

text \<open>
  The abstract similarity provider and the refinement: the vectors with their events and streams
  in the order they were indexed, and those that were saved last. Operations on the concrete
  provider simulate the abstract ones, and a query of the one is the query of the other.
\<close>

section \<open>The abstract provider\<close>

type_synonym entry = "event_id \<times> string option \<times> embedding"

record hnsw_spec =
  sp_entries :: "entry list"
  sp_saved :: "entry list"
  sp_dirty :: bool

text \<open>The index and the mappings of a list of entries.\<close>

definition built :: "'ix hnsw_lib \<Rightarrow> hnsw_config \<Rightarrow> entry list \<Rightarrow> 'ix" where
  "built H cfg es =
     fold (\<lambda>(n, ev, s, e). hl_insert H e n) (enumerate 0 es) (hl_new H cfg)"

definition streams_of :: "entry list \<Rightarrow> (event_id \<times> string) list" where
  "streams_of es =
     fold (\<lambda>(ev, s, e) m. case s of None \<Rightarrow> m | Some x \<Rightarrow> AList.update ev x m) es []"

definition inner_of :: "'ix hnsw_lib \<Rightarrow> hnsw_config \<Rightarrow> entry list \<Rightarrow> 'ix hnsw_inner" where
  "inner_of H cfg es =
     \<lparr>hi_index = built H cfg es, hi_usize_to_event_id = map fst es,
      hi_event_id_to_stream_id = streams_of es, hi_next_id = length es\<rparr>"

datatype hnsw_op =
    OpIndex event_id "string option" embedding
  | OpSave
  | OpSchedule i64 nat task_priority
  | OpRunSave
  | OpReopen string i64

text \<open>Saving works for these entries: the library dumps the index and encodes the mappings.\<close>

definition saves :: "'ix hnsw_lib \<Rightarrow> hnsw_config \<Rightarrow> entry list \<Rightarrow> bool" where
  "saves H cfg es \<longleftrightarrow>
     (if es = [] then \<exists>b. hl_mappings_to_vec H ([], []) = Inr b
      else (\<exists>g. hl_dump H (built H cfg es) = Inr g) \<and>
           (\<exists>b. hl_mappings_to_vec H (map fst es, streams_of es) = Inr b))"

definition spec_save :: "'ix hnsw_lib \<Rightarrow> hnsw_config \<Rightarrow> hnsw_spec \<Rightarrow> hnsw_spec" where
  "spec_save H cfg sp =
     (if saves H cfg (sp_entries sp)
      then sp\<lparr>sp_saved := sp_entries sp, sp_dirty := False\<rparr>
      else sp\<lparr>sp_saved := []\<rparr>)"

fun spec_op :: "'ix hnsw_lib \<Rightarrow> hnsw_config \<Rightarrow> hnsw_op \<Rightarrow> hnsw_spec \<Rightarrow> hnsw_spec" where
  "spec_op H cfg (OpIndex ev s e) sp =
     (if length e \<noteq> hc_dimensions cfg then sp
      else sp\<lparr>sp_entries := sp_entries sp @ [(ev, s, e)], sp_dirty := True\<rparr>)"
| "spec_op H cfg OpSave sp = spec_save H cfg sp"
| "spec_op H cfg (OpSchedule now k priority) sp = sp"
| "spec_op H cfg OpRunSave sp = (if sp_dirty sp then spec_save H cfg sp else sp)"
| "spec_op H cfg (OpReopen dir now) sp = sp\<lparr>sp_entries := sp_saved sp, sp_dirty := False\<rparr>"

definition spec_match :: "entry list \<Rightarrow> string option \<Rightarrow> event_id \<Rightarrow> bool" where
  "spec_match es pattern ev =
     (case pattern of None \<Rightarrow> True
      | Some pat \<Rightarrow> (\<exists>s. map_of (streams_of es) ev = Some s \<and> glob_matches pat s))"

text \<open>
  A query: the neighbours the library finds, each as the event it was indexed for, those on a
  matching stream, and of them the first \<open>k\<close>.
\<close>

definition spec_query ::
  "'ix hnsw_lib \<Rightarrow> hnsw_config \<Rightarrow> similarity_query \<Rightarrow> hnsw_spec \<Rightarrow> similarity_hit list res" where
  "spec_query H cfg q sp =
     (let es = sp_entries sp in
      if length (sm_embedding q) \<noteq> hc_dimensions cfg
      then Inl (hnsw_to_error (InvalidDimensions (hc_dimensions cfg) (length (sm_embedding q))))
      else if es = [] then Inr []
      else Inr (take (sm_k q)
        (filter (\<lambda>(ev, d). spec_match es (sm_stream_pattern q) ev)
          (map (\<lambda>(n, d). (fst (es ! n), d))
            (hl_search H (built H cfg es) (sm_embedding q) (internal_k cfg q) (hc_ef_search cfg))))))"

section \<open>The concrete operations\<close>

fun run_op :: "'ix hnsw_lib \<Rightarrow> hnsw_op \<Rightarrow> 'ix hnsw_provider \<Rightarrow> 'ix hnsw_provider" where
  "run_op H (OpIndex ev s e) p = fst (index_vector H ev s e p)"
| "run_op H OpSave p = fst (save_to_disk H p)"
| "run_op H (OpSchedule now k priority) p = fst (schedule_save now k priority p)"
| "run_op H OpRunSave p = run_save H p"
| "run_op H (OpReopen dir now) p =
     (case hnsw_provider_new H dir now (hp_config p) (hp_files p) of Inl _ \<Rightarrow> p | Inr p' \<Rightarrow> p')"

text \<open>What the provider relies on in the library.\<close>

definition hnsw_lib_ok :: "'ix hnsw_lib \<Rightarrow> bool" where
  "hnsw_lib_ok H \<longleftrightarrow>
     (\<forall>cfg es. hl_points H (built H cfg es) = length es) \<and>
     (\<forall>cfg es e k ef. fst ` set (hl_search H (built H cfg es) e k ef) \<subseteq> {..<length es}) \<and>
     (\<forall>cfg es g. hl_dump H (built H cfg es) = Inr g \<longrightarrow>
        hl_load H (hc_distance cfg) g = Inr (built H cfg es)) \<and>
     (\<forall>m b. hl_mappings_to_vec H m = Inr b \<longrightarrow> hl_mappings_from_slice H b = Inr m)"

text \<open>The files hold the saved entries; without saved entries there is no index on disk.\<close>

definition files_hold :: "'ix hnsw_lib \<Rightarrow> hnsw_config \<Rightarrow> entry list \<Rightarrow> hnsw_files \<Rightarrow> bool" where
  "files_hold H cfg es f \<longleftrightarrow>
     (if es = [] then hf_data f = None
      else \<exists>data graph b. hl_dump H (built H cfg es) = Inr (data, graph) \<and>
             hl_mappings_to_vec H (map fst es, streams_of es) = Inr b \<and>
             f = \<lparr>hf_data = Some data, hf_graph = Some graph, hf_mappings = Some (MAPPINGS_VERSION # b)\<rparr>)"

definition simulates :: "'ix hnsw_lib \<Rightarrow> hnsw_config \<Rightarrow> 'ix hnsw_provider \<Rightarrow> hnsw_spec \<Rightarrow> bool" where
  "simulates H cfg p sp \<longleftrightarrow>
     hp_config p = cfg \<and> hp_inner p = Some (inner_of H cfg (sp_entries sp)) \<and>
     hp_dirty p = sp_dirty sp \<and> files_hold H cfg (sp_saved sp) (hp_files p) \<and>
     (sp_entries sp = [] \<longrightarrow> sp_saved sp = [])"

section \<open>The simulation\<close>

lemma built_snoc: "built H cfg (es @ [(ev, s, e)]) = hl_insert H e (length es) (built H cfg es)"
  by (simp add: built_def enumerate_append_eq)

lemma streams_of_snoc:
  "streams_of (es @ [(ev, s, e)]) =
     (case s of None \<Rightarrow> streams_of es | Some x \<Rightarrow> AList.update ev x (streams_of es))"
  by (cases s) (simp_all add: streams_of_def)

lemma inner_of_Nil: "inner_of H cfg [] = hnsw_inner_new H cfg"
  by (simp add: inner_of_def hnsw_inner_new_def built_def streams_of_def)

lemma simulates_index:
  assumes "simulates H cfg p sp"
  shows "simulates H cfg (fst (index_vector H ev s e p)) (spec_op H cfg (OpIndex ev s e) sp)"
proof (cases "length e = hc_dimensions cfg")
  case True
  have "inner_of H cfg (sp_entries sp @ [(ev, s, e)]) =
      (let i = inner_of H cfg (sp_entries sp) in
       \<lparr>hi_index = hl_insert H e (hi_next_id i) (hi_index i),
        hi_usize_to_event_id = hi_usize_to_event_id i @ [ev],
        hi_event_id_to_stream_id =
          (case s of None \<Rightarrow> hi_event_id_to_stream_id i
           | Some x \<Rightarrow> AList.update ev x (hi_event_id_to_stream_id i)),
        hi_next_id = hi_next_id i + 1\<rparr>)"
    by (cases s) (simp_all add: inner_of_def Let_def built_snoc streams_of_snoc)
  with True assms show ?thesis
    by (simp add: simulates_def index_vector_def Let_def)
next
  case False
  with assms show ?thesis by (simp add: simulates_def index_vector_def)
qed

lemma simulates_save:
  assumes "simulates H cfg p sp"
  shows "simulates H cfg (fst (save_to_disk H p)) (spec_save H cfg sp)"
proof (cases "sp_entries sp = []")
  case True
  with assms show ?thesis
    by (auto simp: simulates_def save_to_disk_def save_inner_def spec_save_def saves_def inner_of_def
        encode_mappings_def files_hold_def split: sum.splits)
next
  case False
  with assms show ?thesis
    by (auto simp: simulates_def save_to_disk_def save_inner_def spec_save_def saves_def inner_of_def
        encode_mappings_def inner_mappings_def files_hold_def no_files_def split: sum.splits prod.splits)
qed

lemma simulates_open:
  assumes "hnsw_lib_ok H" "hc_dimensions cfg \<noteq> 0" "files_hold H cfg es f"
  shows "\<exists>p. hnsw_provider_new H dir now cfg f = Inr p \<and>
    simulates H cfg p \<lparr>sp_entries = es, sp_saved = es, sp_dirty = False\<rparr>"
proof (cases "es = []")
  case True
  with assms show ?thesis
    by (auto simp: hnsw_provider_new_def try_load_or_init_def start_empty_def emit_system_event_def
        simulates_def files_hold_def inner_of_Nil split: option.splits)
next
  case False
  with assms(3) obtain data graph b where f: "hl_dump H (built H cfg es) = Inr (data, graph)"
    "hl_mappings_to_vec H (map fst es, streams_of es) = Inr b"
    "f = \<lparr>hf_data = Some data, hf_graph = Some graph, hf_mappings = Some (MAPPINGS_VERSION # b)\<rparr>"
    by (auto simp: files_hold_def)
  with assms(1) have "hl_load H (hc_distance cfg) (data, graph) = Inr (built H cfg es)"
    "hl_mappings_from_slice H b = Inr (map fst es, streams_of es)"
    by (auto simp: hnsw_lib_ok_def)
  with f assms(2,3) show ?thesis
    by (simp add: hnsw_provider_new_def try_load_or_init_def load_inner_def load_mappings_def
        emit_system_event_def simulates_def inner_of_def)
qed

lemma simulates_op:
  assumes "hnsw_lib_ok H" "hc_dimensions cfg \<noteq> 0" "simulates H cfg p sp"
  shows "simulates H cfg (run_op H op p) (spec_op H cfg op sp)"
proof (cases op)
  case (OpIndex ev s e)
  then show ?thesis using simulates_index [OF assms(3)] by simp
next
  case OpSave
  then show ?thesis using simulates_save [OF assms(3)] by simp
next
  case (OpSchedule now k priority)
  with assms(3) show ?thesis by (simp add: simulates_def schedule_save_def)
next
  case OpRunSave
  have "simulates H cfg (p\<lparr>hp_save_pending := False\<rparr>) sp" using assms(3) by (simp add: simulates_def)
  moreover from this have "hp_dirty (p\<lparr>hp_save_pending := False\<rparr>) = sp_dirty sp" by (simp add: simulates_def)
  ultimately show ?thesis
    using simulates_save [of H cfg "p\<lparr>hp_save_pending := False\<rparr>" sp] OpRunSave by (simp add: run_save_def)
next
  case (OpReopen dir now)
  from assms(3) have files: "files_hold H cfg (sp_saved sp) (hp_files p)" "hp_config p = cfg"
    by (simp_all add: simulates_def)
  from simulates_open [OF assms(1,2) files(1), of dir now] OpReopen files(2) show ?thesis
    by (auto simp: simulates_def)
qed

lemma simulates_ops:
  assumes "hnsw_lib_ok H" "hc_dimensions cfg \<noteq> 0"
  shows "simulates H cfg p sp \<Longrightarrow>
    simulates H cfg (fold (run_op H) ops p) (fold (spec_op H cfg) ops sp)"
  by (induction ops arbitrary: p sp) (simp_all add: simulates_op [OF assms])

section \<open>Queries\<close>

lemma collect_hits_spec:
  assumes "fst ` set ns \<subseteq> {..<length es}" "length hits < k"
  shows "collect_hits (inner_of H cfg es) pattern k ns hits =
    hits @ take (k - length hits) (filter (\<lambda>(ev, d). spec_match es pattern ev)
      (map (\<lambda>(n, d). (fst (es ! n), d)) ns))"
  using assms
proof (induction ns arbitrary: hits)
  case (Cons nd ns)
  obtain n d where nd: "nd = (n, d)" by (cases nd)
  let ?i = "inner_of H cfg es" and ?ev = "fst (es ! n)"
  have n: "n < length (hi_usize_to_event_id ?i)" "hi_usize_to_event_id ?i ! n = ?ev"
    and ns: "fst ` set ns \<subseteq> {..<length es}"
    using Cons.prems(1) nd by (auto simp: inner_of_def)
  have match: "(case pattern of None \<Rightarrow> True
      | Some pat \<Rightarrow> (case map_of (hi_event_id_to_stream_id ?i) ?ev of
            None \<Rightarrow> False | Some s \<Rightarrow> glob_matches pat s)) = spec_match es pattern ?ev"
    by (auto simp: spec_match_def inner_of_def split: option.splits)
  obtain m where m: "k - length hits = Suc m" using Cons.prems(2) by (metis Suc_diff_Suc)
  show ?case
  proof (cases "spec_match es pattern ?ev")
    case True
    have step: "collect_hits ?i pattern k (nd # ns) hits =
        (if k \<le> Suc (length hits) then hits @ [(?ev, d)] else collect_hits ?i pattern k ns (hits @ [(?ev, d)]))"
      using True n match nd by (simp add: Let_def)
    show ?thesis
    proof (cases "k \<le> Suc (length hits)")
      case k: True
      with m have "m = 0" by simp
      with step k True m nd show ?thesis by simp
    next
      case k: False
      have "k - Suc (length hits) = m" using m by simp
      with step k True m nd Cons.IH [OF ns, of "hits @ [(?ev, d)]"] show ?thesis by simp
    qed
  next
    case False
    with Cons.IH [OF ns Cons.prems(2)] n match nd show ?thesis by (simp add: Let_def)
  qed
qed simp

lemma simulates_query:
  assumes "hnsw_lib_ok H" "simulates H cfg p sp"
  shows "similarity_query_impl H q p = spec_query H cfg q sp"
proof -
  let ?es = "sp_entries sp"
  let ?ns = "hl_search H (built H cfg ?es) (sm_embedding q) (internal_k cfg q) (hc_ef_search cfg)"
  have sim: "hp_config p = cfg" "hp_inner p = Some (inner_of H cfg ?es)"
    using assms(2) by (simp_all add: simulates_def)
  have lib: "hl_points H (built H cfg ?es) = length ?es" "fst ` set ?ns \<subseteq> {..<length ?es}"
    using assms(1) by (simp_all add: hnsw_lib_ok_def)
  have index: "hi_index (inner_of H cfg ?es) = built H cfg ?es" by (simp add: inner_of_def)
  show ?thesis
  proof (cases "sm_k q = 0 \<or> ?es = []")
    case True
    then show ?thesis
      using sim lib(1) index by (auto simp: similarity_query_impl_def spec_query_def Let_def)
  next
    case False
    then show ?thesis
      using sim lib(1) index collect_hits_spec [OF lib(2), of "[]" "sm_k q" H cfg "sm_stream_pattern q"]
      by (simp add: similarity_query_impl_def spec_query_def Let_def)
  qed
qed


section \<open>An exact index, for the witnesses\<close>

instance event_id :: countable
  by countable_datatype

definition exact_lib :: "(embedding \<times> nat) list hnsw_lib" where
  "exact_lib =
     \<lparr>hl_new = (\<lambda>cfg. []), hl_insert = (\<lambda>e n ix. ix @ [(e, n)]),
      hl_search = (\<lambda>ix e k ef. take k (sort_key snd
         (map (\<lambda>(x, n). (n, if x = e then 0 else 1065353216)) ix))),
      hl_points = length,
      hl_dump = (\<lambda>ix. Inr (replicate (to_nat ix) 0, [])),
      hl_load = (\<lambda>metric g. Inr (from_nat (length (fst g)))),
      hl_mappings_to_vec = (\<lambda>m. Inr (replicate (to_nat m) 0)),
      hl_mappings_from_slice = (\<lambda>b. Inr (from_nat (length b)))\<rparr>"

lemma exact_built: "built exact_lib cfg es = zip (map (snd \<circ> snd) es) [0..<length es]"
proof (induction es rule: rev_induct)
  case (snoc x es)
  obtain ev s e where "x = (ev, s, e)" by (cases x) auto
  with snoc show ?case by (simp add: built_snoc exact_lib_def)
qed (simp add: built_def exact_lib_def)

lemma exact_lib_ok: "hnsw_lib_ok exact_lib"
proof -
  have "fst ` set (hl_search exact_lib (built exact_lib cfg es) e k ef) \<subseteq> {..<length es}" for cfg es e k ef
    by (auto simp: exact_lib_def exact_built [unfolded exact_lib_def] dest!: in_set_takeD set_zip_rightD)
  then show ?thesis
    by (simp add: hnsw_lib_ok_def exact_built) (simp add: exact_lib_def)
qed


text \<open>
  Saving an empty provider rewrites the mappings only. When an index is still in the directory,
  because its mappings could not be read, the next opening combines the old index with the empty
  mappings: the old vectors keep their numbers, the new ones get the same numbers again, and a
  query for an old vector returns a new event, at the distance of the old vector.
\<close>

theorem empty_save_revives_old_index:
  "\<exists>p0. hnsw_provider_new exact_lib ''hnsw'' 0 (with_dimensions 1 hnsw_config_default)
       \<lparr>hf_data = Some (replicate (to_nat [([7 :: u32], 0 :: nat)]) 0), hf_graph = Some [], hf_mappings = Some [2]\<rparr> =
       Inr p0 \<and>
     similarity_query_impl exact_lib \<lparr>sm_embedding = [7], sm_k = 1, sm_stream_pattern = None\<rparr>
       (fold (run_op exact_lib)
          [OpSave, OpReopen ''hnsw'' 1, OpIndex (EventId [2]) None [5]] p0) = Inr [(EventId [2], 0)]"
  by (simp add: hnsw_provider_new_def try_load_or_init_def load_inner_def load_mappings_def
      start_empty_def emit_system_event_def save_to_disk_def save_inner_def encode_mappings_def
      hnsw_inner_new_def index_vector_def similarity_query_impl_def internal_k_def Let_def
      MAPPINGS_VERSION_def exact_lib_def with_dimensions_def hnsw_config_default_def no_files_def)

end
