(* ===== verification/Store_Iters.thy ===== *)
theory Store_Iters
  imports Store_Reads Walk_Pages
begin

text \<open>
  The public iterators of the store (\<open>RangeIter\<close>, \<open>CorrelationIter\<close> and \<open>CausationIter\<close> in
  \<open>src/store.rs\<close>) over its own bounded reads, upcasters included. The locale \<open>upcast_paging\<close> takes a
  paged read and a registry of upcasters and gives the paged read of the upcasted events, so that
  the loop over an iterator follows from the contract of pages.
\<close>

section \<open>The iterators\<close>

definition ITER_BATCH_SIZE :: nat where
  "ITER_BATCH_SIZE = 100"

text \<open>A page as the store reads it; it may not return, as an upcaster may loop.\<close>

type_synonym page_reader = "truncation_cursor option \<Rightarrow> stored_event list read_outcome res option"

definition range_iter_page :: "libs \<Rightarrow> open_options \<Rightarrow> db \<Rightarrow> upcaster_registry \<Rightarrow> read_query \<Rightarrow> page_reader" where
  "range_iter_page L opts d reg q resume =
     store_read_range_bounded L opts d reg q (Some ITER_BATCH_SIZE) None resume"

definition correlation_iter_page ::
  "libs \<Rightarrow> open_options \<Rightarrow> db \<Rightarrow> upcaster_registry \<Rightarrow> event_id \<Rightarrow> page_reader" where
  "correlation_iter_page L opts d reg i resume =
     store_read_by_correlation_bounded L opts d reg i (Some ITER_BATCH_SIZE) None resume"

definition causation_iter_page ::
  "libs \<Rightarrow> open_options \<Rightarrow> db \<Rightarrow> upcaster_registry \<Rightarrow> event_id \<Rightarrow> walk_direction \<Rightarrow> nat \<Rightarrow>
     sampling_mode \<Rightarrow> page_reader" where
  "causation_iter_page L opts d reg start direction max_depth sampling resume =
     store_walk_causation_bounded L opts d reg start
       \<lparr>wp_direction = direction, wp_max_depth = max_depth, wp_sampling = sampling,
        wp_max_results = Some ITER_BATCH_SIZE, wp_max_bytes = None\<rparr> resume"

text \<open>
  One step: it reads a page only when the buffer is empty and the last page has not been seen.
\<close>

definition page_fetcher :: "page_reader \<Rightarrow> fetcher" where
  "page_fetcher pages resume = (case pages resume of None \<Rightarrow> Inl (Internal []) | Some r \<Rightarrow> r)"

definition store_iter_next :: "page_reader \<Rightarrow> iter \<Rightarrow> (stored_event res option \<times> iter) option" where
  "store_iter_next pages it =
     (if it_buffer it = [] \<and> \<not> it_exhausted it \<and> pages (it_resume it) = None then None
      else Some (iter_next (page_fetcher pages) it))"

definition range_iter_next ::
  "libs \<Rightarrow> open_options \<Rightarrow> db \<Rightarrow> upcaster_registry \<Rightarrow> read_query \<Rightarrow> iter \<Rightarrow>
     (stored_event res option \<times> iter) option" where
  "range_iter_next L opts d reg q = store_iter_next (range_iter_page L opts d reg q)"

definition correlation_iter_next ::
  "libs \<Rightarrow> open_options \<Rightarrow> db \<Rightarrow> upcaster_registry \<Rightarrow> event_id \<Rightarrow> iter \<Rightarrow>
     (stored_event res option \<times> iter) option" where
  "correlation_iter_next L opts d reg i = store_iter_next (correlation_iter_page L opts d reg i)"

definition causation_iter_next ::
  "libs \<Rightarrow> open_options \<Rightarrow> db \<Rightarrow> upcaster_registry \<Rightarrow> event_id \<Rightarrow> walk_direction \<Rightarrow> nat \<Rightarrow>
     sampling_mode \<Rightarrow> iter \<Rightarrow> (stored_event res option \<times> iter) option" where
  "causation_iter_next L opts d reg start direction max_depth sampling =
     store_iter_next (causation_iter_page L opts d reg start direction max_depth sampling)"

text \<open>A \<open>for\<close> loop.\<close>

fun store_iter_collect :: "page_reader \<Rightarrow> nat \<Rightarrow> iter \<Rightarrow> stored_event res list option" where
  "store_iter_collect pages 0 it = None"
| "store_iter_collect pages (Suc n) it =
     (case store_iter_next pages it of
        None \<Rightarrow> None
      | Some (None, _) \<Rightarrow> Some []
      | Some (Some x, it') \<Rightarrow> map_option ((#) x) (store_iter_collect pages n it'))"

section \<open>Fused\<close>

lemma iter_next_None:
  "iter_next fetch it = (None, it') \<Longrightarrow> it_exhausted it' \<and> it_buffer it' = []"
  by (auto simp: iter_next_def pop_front_def split: if_splits sum.splits list.splits)

lemma iter_next_err:
  "iter_next fetch it = (Some (Inl e), it') \<Longrightarrow> it_exhausted it' \<and> it_buffer it' = []"
  by (auto simp: iter_next_def pop_front_def split: if_splits sum.splits list.splits)

text \<open>
  An iterator that has returned \<open>None\<close> or an error returns \<open>None\<close> from then on, whatever the file
  has become.
\<close>

theorem store_iterator_fused:
  assumes "store_iter_next pages it = Some (x, it')" and "x = None \<or> x = Some (Inl e)"
  shows "store_iter_next pages' it' = Some (None, it')"
proof -
  from assms have "it_exhausted it' \<and> it_buffer it' = []"
    using iter_next_None iter_next_err by (auto simp: store_iter_next_def split: if_splits)
  then show ?thesis by (simp add: store_iter_next_def iter_next_def)
qed

section \<open>Pages of upcasted events\<close>

lemma collect_of_fetcher:
  "iter_collect (page_fetcher pages) n it = Some (map Inr es) \<Longrightarrow>
     store_iter_collect pages n it = Some (map Inr es)"
proof (induction n arbitrary: it es)
  case (Suc n)
  obtain x it' where step: "iter_next (page_fetcher pages) it = (x, it')" by fastforce
  have runs: "pages (it_resume it) \<noteq> None" if "it_buffer it = []" "\<not> it_exhausted it"
  proof
    assume "pages (it_resume it) = None"
    with that have "fst (iter_next (page_fetcher pages) it) = Some (Inl (Internal []))"
      by (simp add: iter_next_def fetch_batch_def page_fetcher_def)
    with Suc.prems step show False by (auto simp: Cons_eq_map_conv)
  qed
  then have next0: "store_iter_next pages it = Some (x, it')"
    using step by (auto simp: store_iter_next_def)
  show ?case
  proof (cases x)
    case None
    with Suc.prems step next0 show ?thesis by simp
  next
    case (Some y)
    with Suc.prems step obtain e es' where "y = Inr e" "es = e # es'"
      "iter_collect (page_fetcher pages) n it' = Some (map Inr es')"
      by (auto simp: Cons_eq_map_conv)
    with Suc.IH [of it' es'] Some next0 show ?thesis by simp
  qed
qed simp

locale upcast_paging = paged_read fetch remaining valid
  for fetch remaining valid +
  fixes reg :: upcaster_registry and pages :: page_reader
  assumes pages: "pages c = bind_run (Some (fetch c)) (upcast_outcome reg)"
begin

definition upcasted :: "truncation_cursor option \<Rightarrow> stored_event list" where
  "upcasted c = (case upcast_events reg (remaining c) of Some (Inr evs) \<Rightarrow> evs | _ \<Rightarrow> [])"

definition upcast_valid :: "truncation_cursor option \<Rightarrow> bool" where
  "upcast_valid c \<longleftrightarrow> valid c \<and> (\<exists>evs. upcast_events reg (remaining c) = Some (Inr evs))"

end

sublocale upcast_paging \<subseteq> up: paged_read "page_fetcher pages" upcasted upcast_valid
proof
  fix c
  assume "upcast_valid c"
  then obtain evs where v: "valid c" and evs: "upcast_events reg (remaining c) = Some (Inr evs)"
    by (auto simp: upcast_valid_def)
  have up: "upcasted c = evs" by (simp add: upcasted_def evs)
  from page [OF v] show "page_fetcher pages c = Inr (Complete (upcasted c)) \<or>
    (\<exists>es c' r. page_fetcher pages c = Inr (Truncated es (Some c') r) \<and> es \<noteq> [] \<and>
       upcasted c = es @ upcasted (Some c') \<and> upcast_valid (Some c'))"
  proof (elim disjE exE conjE)
    assume "fetch c = Inr (Complete (remaining c))"
    then show ?thesis by (simp add: page_fetcher_def pages upcast_outcome_def evs up)
  next
    fix es c' r
    assume f: "fetch c = Inr (Truncated es (Some c') r)" and "es \<noteq> []"
      and rem: "remaining c = es @ remaining (Some c')" and v': "valid (Some c')"
    from evs obtain as bs where split: "evs = as @ bs"
      and as: "upcast_events reg es = Some (Inr as)"
      and bs: "upcast_events reg (remaining (Some c')) = Some (Inr bs)"
      unfolding rem upcast_events_append by blast
    have "as \<noteq> []" using upcast_events_length [OF as] \<open>es \<noteq> []\<close> by auto
    moreover have "page_fetcher pages c = Inr (Truncated as (Some c') r)"
      by (simp add: page_fetcher_def pages upcast_outcome_def f as)
    moreover have "upcasted (Some c') = bs" "upcast_valid (Some c')"
      using v' bs by (simp_all add: upcasted_def upcast_valid_def)
    ultimately show ?thesis unfolding up split by blast
  qed
qed

context upcast_paging
begin

lemma store_collect_all:
  assumes "valid None" and "upcast_events reg (remaining None) = Some (Inr evs)" and "length evs < n"
  shows "store_iter_collect pages n iter_start = Some (map Inr evs)"
proof -
  have "upcasted None = evs" "upcast_valid None"
    using assms by (simp_all add: upcasted_def upcast_valid_def)
  then show ?thesis using collect_of_fetcher [OF up.collect_all [of n]] assms(3) by simp
qed

end

interpretation range_iter: upcast_paging
    "fetch_range L d q (Some ITER_BATCH_SIZE) (opt_default_max_bytes opts)" "range_remaining L d q"
    "range_valid L d (Some ITER_BATCH_SIZE)" reg "range_iter_page L opts d reg q"
  for L opts d reg q
  by unfold_locales (simp add: range_iter_page_def store_read_range_bounded_def effective_def)

interpretation correlation_iter: upcast_paging
    "fetch_correlation L d i (Some ITER_BATCH_SIZE) (opt_default_max_bytes opts)"
    "correlation_remaining L d i" "correlation_valid L d (Some ITER_BATCH_SIZE)" reg
    "correlation_iter_page L opts d reg i"
  for L opts d reg i
  by unfold_locales
    (simp add: correlation_iter_page_def store_read_by_correlation_bounded_def effective_def)

abbreviation iter_walk :: "open_options \<Rightarrow> walk_direction \<Rightarrow> nat \<Rightarrow> sampling_mode \<Rightarrow> walk_params" where
  "iter_walk opts direction max_depth sampling \<equiv>
     \<lparr>wp_direction = direction, wp_max_depth = max_depth, wp_sampling = sampling,
      wp_max_results = Some ITER_BATCH_SIZE, wp_max_bytes = opt_default_max_bytes opts\<rparr>"

interpretation causation_iter: upcast_paging
    "fetch_causation L d start (iter_walk opts direction max_depth sampling)"
    "causation_remaining L d start (iter_walk opts direction max_depth sampling)"
    "causation_valid L d start (iter_walk opts direction max_depth sampling)" reg
    "causation_iter_page L opts d reg start direction max_depth sampling"
  for L opts d reg start direction max_depth sampling
  by unfold_locales (simp add: causation_iter_page_def store_walk_causation_bounded_def effective_def)

section \<open>What the loops yield\<close>

text \<open>
  C8. A loop over \<open>read_range_iter\<close> ends and yields, without an error, exactly what one unbounded
  \<open>read_range\<close> of the store returns, upcasters included, whatever the default budgets of the store
  are; it takes one step per event and one more.
\<close>

theorem store_range_iterator_complete:
  assumes "cursor_codec_ok L" and "log_wf L d" and "q_limit q = None"
    and "store_read_range L d reg q = Some (Inr evs)" and "length evs < n"
  shows "store_iter_collect (range_iter_page L opts d reg q) n iter_start = Some (map Inr evs)"
proof -
  have "range_remaining L d q None = map (event_of L) (range_rows d q None)"
    by (simp add: range_remaining_def range_resume_def)
  moreover have "rows_readable L (range_rows d q None)"
    by (simp add: range_rows_def log_wf_range(1) [OF assms(2)])
  then have "read_range_impl L d q = Inr (map (event_of L) (range_rows d q None))"
    using no_limit [OF assms(2)] assms(3)
    by (simp add: read_range_impl_def range_rows_def rows_to_events_readable)
  ultimately have up: "upcast_events reg (range_remaining L d q None) = Some (Inr evs)"
    using assms(4) by (simp add: store_read_range_def)
  have "range_valid L d (Some ITER_BATCH_SIZE) None"
    using assms(1,2) by (simp add: range_valid_def range_resume_def ITER_BATCH_SIZE_def)
  from range_iter.store_collect_all [OF this up assms(5)] show ?thesis .
qed

lemma upcast_events_none: "upcast_events (\<lambda>_. None) es = Some (Inr es)"
  by (induction es) (simp_all add: upcast_events_def apply_upcaster_def upcast_apply_def)

theorem store_range_iterator_complete_witness:
  "store_iter_collect
     (range_iter_page demo_libs open_options_default demo_log (\<lambda>_. None) (read_query_stream ''a/b''))
     3 iter_start =
   Some (map Inr [event_of demo_libs (demo_row 0), event_of demo_libs (demo_row 1)])"
proof -
  let ?q = "read_query_stream ''a/b''"
  have limit: "q_limit ?q = None" by (simp add: read_query_stream_def)
  have "rows_readable demo_libs (range_rows demo_log ?q None)"
    by (simp add: range_rows_def log_wf_range(1) [OF demo_log_wf])
  then have "read_range_impl demo_libs demo_log ?q =
      Inr [event_of demo_libs (demo_row 0), event_of demo_libs (demo_row 1)]"
    using no_limit [OF demo_log_wf] limit demo_range_rows
    by (simp add: read_range_impl_def range_rows_def rows_to_events_readable)
  then have "store_read_range demo_libs demo_log (\<lambda>_. None) ?q =
      Some (Inr [event_of demo_libs (demo_row 0), event_of demo_libs (demo_row 1)])"
    by (simp add: store_read_range_def upcast_events_none)
  from store_range_iterator_complete [OF demo_cursor_codec_ok demo_log_wf limit this, of 3]
  show ?thesis by simp
qed

text \<open>The same for the two other iterators.\<close>

theorem store_correlation_iterator_complete:
  assumes "cursor_codec_ok L" and "log_wf L d"
    and "upcast_events reg (correlation_remaining L d i None) = Some (Inr evs)" and "length evs < n"
  shows "store_iter_collect (correlation_iter_page L opts d reg i) n iter_start = Some (map Inr evs)"
  by (rule correlation_iter.store_collect_all [OF _ assms(3,4)])
    (use assms(1,2) in \<open>simp add: correlation_valid_def correlation_resume_def ITER_BATCH_SIZE_def\<close>)

theorem store_causation_iterator_complete:
  assumes "walk_ok L d (iter_walk opts direction max_depth sampling)"
    and "upcast_events reg
      (causation_remaining L d start (iter_walk opts direction max_depth sampling) None) = Some (Inr evs)"
    and "length evs < n"
  shows "store_iter_collect (causation_iter_page L opts d reg start direction max_depth sampling) n
    iter_start = Some (map Inr evs)"
  by (rule causation_iter.store_collect_all [OF _ assms(2,3)])
    (use assms(1) in \<open>simp add: causation_valid_def\<close>)

end
