(* ===== verification/Tauri_Types.thy ===== *)
theory Tauri_Types
  imports Store
begin

text \<open>
  What crosses the IPC boundary of the Tauri plugin (\<open>crates/fossic-tauri/src/serialization.rs\<close> and
  the error type of \<open>commands.rs\<close>): serialized events, streams, branches and read outcomes, typed
  errors, and the parsers of cursors, directions and sampling modes.

  Base64 is a parameter of the model. A message is represented by the text of the library error it
  prints or by a constructor of its own, like the errors of the core.
\<close>

section \<open>Serialized values\<close>

record b64_lib =
  b64_encode :: "bytes \<Rightarrow> string"
  b64_decode :: "string \<Rightarrow> string + bytes"

definition b64_ok :: "b64_lib \<Rightarrow> bool" where
  "b64_ok B \<longleftrightarrow> (\<forall>b. b64_decode B (b64_encode B b) = Inr b)"

record serialized_event =
  sv_id :: string
  sv_stream_id :: string
  sv_branch :: string
  sv_version :: u64
  sv_timestamp_us :: i64
  sv_causation_id :: "string option"
  sv_correlation_id :: "string option"
  sv_event_type :: string
  sv_type_version :: u32
  sv_payload :: json
  sv_external_id :: "string option"
  sv_indexed_tags :: "json option"

definition deserialize_payload_json :: "libs \<Rightarrow> stored_event \<Rightarrow> json res" where
  "deserialize_payload_json L e = map_err MsgpackDecode (mp_from_slice L (ev_payload e))"

text \<open>A payload that cannot be decoded becomes \<open>null\<close>.\<close>

definition from_stored :: "libs \<Rightarrow> stored_event \<Rightarrow> serialized_event" where
  "from_stored L e =
     \<lparr>sv_id = to_hex (ev_id e), sv_stream_id = ev_stream_id e, sv_branch = ev_branch e,
      sv_version = ev_version e, sv_timestamp_us = ev_timestamp_us e,
      sv_causation_id = map_option to_hex (ev_causation_id e),
      sv_correlation_id = map_option to_hex (ev_correlation_id e),
      sv_event_type = ev_event_type e, sv_type_version = ev_type_version e,
      sv_payload = (case deserialize_payload_json L e of Inl _ \<Rightarrow> JNull | Inr j \<Rightarrow> j),
      sv_external_id = ev_external_id e, sv_indexed_tags = ev_indexed_tags e\<rparr>"

record serialized_stream_info =
  ssi_id :: string
  ssi_declared_by :: string
  ssi_declared_at :: i64
  ssi_description :: "string option"

definition from_stream_info :: "stream_info \<Rightarrow> serialized_stream_info" where
  "from_stream_info s =
     \<lparr>ssi_id = si_id s, ssi_declared_by = si_declared_by s, ssi_declared_at = si_declared_at s,
      ssi_description = si_description s\<rparr>"

record serialized_branch_info =
  sbi_id :: string
  sbi_stream_id :: string
  sbi_parent_id :: string
  sbi_parent_version :: u64
  sbi_description :: "string option"
  sbi_created_at :: i64
  sbi_lifecycle :: string
  sbi_closed_at :: "i64 option"
  sbi_closed_reason :: "string option"

definition from_branch_info :: "branch_info \<Rightarrow> serialized_branch_info" where
  "from_branch_info b =
     \<lparr>sbi_id = bi_id b, sbi_stream_id = bi_stream_id b, sbi_parent_id = bi_parent_id b,
      sbi_parent_version = bi_parent_version b, sbi_description = bi_description b,
      sbi_created_at = bi_created_at b, sbi_lifecycle = bi_lifecycle b,
      sbi_closed_at = bi_closed_at b, sbi_closed_reason = bi_closed_reason b\<rparr>"

definition reason_text :: "truncation_reason \<Rightarrow> string" where
  "reason_text r = (case r of ResultCount \<Rightarrow> ''result_count'' | ByteSize \<Rightarrow> ''byte_size'')"

record serialized_read_outcome =
  sro_kind :: string
  sro_results :: "serialized_event list"
  sro_reason :: "string option"
  sro_next_cursor :: "string option"

definition from_outcome ::
  "libs \<Rightarrow> b64_lib \<Rightarrow> stored_event list read_outcome \<Rightarrow> serialized_read_outcome" where
  "from_outcome L B outcome =
     (case outcome of
        Complete events \<Rightarrow>
          \<lparr>sro_kind = ''complete'', sro_results = map (from_stored L) events,
           sro_reason = None, sro_next_cursor = None\<rparr>
      | Truncated data cursor reason \<Rightarrow>
          \<lparr>sro_kind = ''truncated'', sro_results = map (from_stored L) data,
           sro_reason = Some (reason_text reason),
           sro_next_cursor = map_option (\<lambda>c. b64_encode B (cursor_bytes c)) cursor\<rparr>)"

section \<open>Errors\<close>

datatype tauri_message =
    ErrorText error
  | InvalidCursor string
  | UnknownDirection string
  | UnknownSampling string

record tauri_error =
  te_code :: string
  te_message :: tauri_message

fun tauri_code :: "error \<Rightarrow> string" where
  "tauri_code (StreamNotDeclared _) = ''StreamNotDeclared''"
| "tauri_code (ReducerNotFound _) = ''ReducerNotFound''"
| "tauri_code (ReducerNotFoundByName _) = ''ReducerNotFoundByName''"
| "tauri_code (ReducerError _) = ''ReducerError''"
| "tauri_code (BranchNotFound _ _) = ''BranchNotFound''"
| "tauri_code (NotImplemented _) = ''NotImplemented''"
| "tauri_code (SchemaMismatch _ _) = ''SchemaMismatch''"
| "tauri_code _ = ''StorageError''"

definition tauri_error_of :: "error \<Rightarrow> tauri_error" where
  "tauri_error_of e = \<lparr>te_code = tauri_code e, te_message = ErrorText e\<rparr>"

text \<open>\<open>direction_err\<close>, \<open>sampling_err\<close> and \<open>cursor_err\<close>.\<close>

definition argument_err :: "tauri_message \<Rightarrow> tauri_error" where
  "argument_err msg = \<lparr>te_code = ''StorageError'', te_message = msg\<rparr>"

section \<open>Parsers of arguments\<close>

definition parse_cursor :: "b64_lib \<Rightarrow> string \<Rightarrow> tauri_message + truncation_cursor" where
  "parse_cursor B s =
     (case b64_decode B s of Inl e \<Rightarrow> Inl (InvalidCursor e) | Inr b \<Rightarrow> Inr (TruncationCursor b))"

definition parse_direction :: "string \<Rightarrow> tauri_message + walk_direction" where
  "parse_direction s =
     (if s = ''forward'' \<or> s = ''Forward'' then Inr Forward
      else if s = ''backward'' \<or> s = ''Backward'' then Inr Backward
      else if s = ''both'' \<or> s = ''Both'' then Inr Both
      else Inl (UnknownDirection s))"

text \<open>\<open>Value::get\<close>, \<open>as_str\<close> and \<open>as_u64\<close>.\<close>

fun json_get :: "json \<Rightarrow> string \<Rightarrow> json option" where
  "json_get (JObject m) key = map_of m key"
| "json_get _ key = None"

fun json_as_str :: "json \<Rightarrow> string option" where
  "json_as_str (JString s) = Some s"
| "json_as_str _ = None"

fun json_as_u64 :: "json \<Rightarrow> u64 option" where
  "json_as_u64 (JNumber n) = number_as_u64 n"
| "json_as_u64 _ = None"

definition or_else :: "'a option \<Rightarrow> 'a option \<Rightarrow> 'a option" where
  "or_else x y = (case x of None \<Rightarrow> y | Some _ \<Rightarrow> x)"

definition size_field :: "json \<Rightarrow> string \<Rightarrow> string \<Rightarrow> nat" where
  "size_field v camel snake =
     (case Option.bind (or_else (json_get v camel) (json_get v snake)) json_as_u64 of
        None \<Rightarrow> 100 | Some n \<Rightarrow> unat n)"

definition parse_sampling_mode :: "json option \<Rightarrow> tauri_message + sampling_mode" where
  "parse_sampling_mode v0 =
     (case v0 of
        None \<Rightarrow> Inr Exhaustive
      | Some v \<Rightarrow>
          let kind = (case Option.bind (json_get v ''kind'') json_as_str of
                        None \<Rightarrow> ''exhaustive'' | Some k \<Rightarrow> k)
          in if kind = ''exhaustive'' then Inr Exhaustive
             else if kind = ''breadthFirst'' \<or> kind = ''breadth_first''
             then Inr (BreadthFirst (size_field v ''maxPerLevel'' ''max_per_level''))
             else if kind = ''adaptive''
             then Inr (Adaptive (size_field v ''targetCount'' ''target_count''))
             else Inl (UnknownSampling kind))"

section \<open>Serialization loses nothing but the bytes of the payload\<close>

lemma to_hex_inj: "to_hex i = to_hex j \<longleftrightarrow> i = j"
proof -
  have "to_hex (EventId bs) = to_hex (EventId cs) \<Longrightarrow> bs = cs" for bs cs
  proof (induction bs arbitrary: cs)
    case Nil
    then show ?case by (cases cs) simp_all
  next
    case (Cons b bs)
    then obtain c cs' where cs: "cs = c # cs'" by (cases cs) simp_all
    with Cons.prems have "drop_bit 4 b = drop_bit 4 c" "take_bit 4 b = take_bit 4 c"
      by (auto simp: word_unat_eq_iff dest!: hex_digit_inj [rotated 2] intro: nibble_lt)
    then have "b = c" by (metis nibbles_byte)
    with Cons cs show ?case by simp
  qed
  then show ?thesis by (cases i; cases j) auto
qed

lemma from_hex_to_hex:
  assumes "length (id_bytes i) = 32"
  shows "from_hex (to_hex i) = Inr i"
proof -
  have digit: "ascii_lower (hex_digit n) = hex_digit n" if "n < 16" for n
  proof -
    have "(of_char (ascii_lower (hex_digit n)) :: nat) = of_char (hex_digit n)"
      unfolding ascii_lower_code using hex_digit_code [OF that] that by (auto simp: Let_def)
    then show ?thesis by (simp only: of_char_eq_iff)
  qed
  have "map ascii_lower (to_hex (EventId bs)) = to_hex (EventId bs)" for bs
    by (induction bs) (auto simp: digit nibble_lt)
  then have "hex_chunks (str_bytes (to_hex i)) = Inr (id_bytes i)"
    using hex_chunks_Inr by (metis event_id.collapse)
  with assms show ?thesis by (simp add: from_hex_def length_to_hex)
qed

end
