(* ===== verification/Tauri_Commands.thy ===== *)
theory Tauri_Commands
  imports Tauri_Types
begin

text \<open>
  The commands of the Tauri plugin (\<open>crates/fossic-tauri/src/commands.rs\<close>) and its map of
  subscriptions (\<open>lib.rs\<close>). A command parses its arguments, calls the store and serializes the
  result; the front end sees a typed error or the serialized value. What cannot return because
  of upcasters is \<open>None\<close>, as in the reads of the store.
\<close>

section \<open>State\<close>

record subscription_entry =
  sm_handle :: u64
  sm_stream_pattern :: string
  sm_branch :: string

text \<open>The states the plugin manages: the store and the map of subscriptions.\<close>

record tauri_app =
  ta_store :: store
  ta_subs :: "(string \<times> subscription_entry) list"

definition plugin :: "store \<Rightarrow> tauri_app" where
  "plugin st = \<lparr>ta_store = st, ta_subs = []\<rparr>"

section \<open>Results\<close>

definition ipc :: "('a \<Rightarrow> 'b) \<Rightarrow> 'a res \<Rightarrow> tauri_error + 'b" where
  "ipc f r = (case r of Inl e \<Rightarrow> Inl (tauri_error_of e) | Inr a \<Rightarrow> Inr (f a))"

definition ipc_run :: "('a \<Rightarrow> 'b) \<Rightarrow> 'a res option \<Rightarrow> (tauri_error + 'b) option" where
  "ipc_run f r = map_option (ipc f) r"

lemma ipc_simps [simp]:
  "ipc f (Inl e) = Inl (tauri_error_of e)"
  "ipc f (Inr a) = Inr (f a)"
  "ipc_run f None = None"
  "ipc_run f (Some r) = Some (ipc f r)"
  by (simp_all add: ipc_def ipc_run_def)

lemma ipc_run_Inr_iff: "ipc_run f r = Some (Inr y) \<longleftrightarrow> (\<exists>x. r = Some (Inr x) \<and> y = f x)"
proof (cases r)
  case (Some x)
  then show ?thesis by (cases x) auto
qed simp

abbreviation events_of :: "libs \<Rightarrow> stored_event list \<Rightarrow> serialized_event list" where
  "events_of L \<equiv> map (from_stored L)"

section \<open>Reads\<close>

definition fossic_list_streams :: "tauri_app \<Rightarrow> tauri_error + serialized_stream_info list" where
  "fossic_list_streams app =
     ipc (map from_stream_info) (Inr (streams_impl (so_db (ta_store app))))"

definition fossic_list_branches ::
  "libs \<Rightarrow> tauri_app \<Rightarrow> string \<Rightarrow> tauri_error + serialized_branch_info list" where
  "fossic_list_branches L app stream_id =
     ipc (map from_branch_info) (Inr (list_branches_impl L (so_db (ta_store app)) stream_id))"

text \<open>The query the range commands build from their optional arguments.\<close>

definition range_query ::
  "string \<Rightarrow> string option \<Rightarrow> u64 option \<Rightarrow> u64 option \<Rightarrow> string option \<Rightarrow> read_query" where
  "range_query stream_id branch from_version to_version event_type_filter =
     (let q = read_query_stream stream_id;
          q = (case branch of None \<Rightarrow> q | Some b \<Rightarrow> q\<lparr>q_branch := b\<rparr>);
          q = (case from_version of None \<Rightarrow> q | Some v \<Rightarrow> q\<lparr>q_from_version := Some v\<rparr>);
          q = (case to_version of None \<Rightarrow> q | Some v \<Rightarrow> q\<lparr>q_to_version := Some v\<rparr>)
      in (case event_type_filter of None \<Rightarrow> q | Some f \<Rightarrow> q\<lparr>q_event_type_filter := Some f\<rparr>))"

definition fossic_read_range ::
  "libs \<Rightarrow> tauri_app \<Rightarrow> string \<Rightarrow> string option \<Rightarrow> u64 option \<Rightarrow> u64 option \<Rightarrow> u64 option \<Rightarrow>
     string option \<Rightarrow> (tauri_error + serialized_event list) option" where
  "fossic_read_range L app stream_id branch from_version to_version limit event_type_filter =
     (let q = range_query stream_id branch from_version to_version event_type_filter;
          q = (case limit of None \<Rightarrow> q | Some n \<Rightarrow> q\<lparr>q_limit := Some n\<rparr>);
          st = ta_store app
      in ipc_run (events_of L) (store_read_range L (so_db st) (so_upcasters st) q))"

definition hex_arg :: "string \<Rightarrow> (tauri_error + event_id) option" where
  "hex_arg s = Some (ipc id (from_hex s))"

definition fossic_read_one ::
  "libs \<Rightarrow> tauri_app \<Rightarrow> string \<Rightarrow> (tauri_error + serialized_event option) option" where
  "fossic_read_one L app event_id =
     bind_run (hex_arg event_id) (\<lambda>i.
       ipc_run (map_option (from_stored L))
         (store_read_one L (so_db (ta_store app)) (so_upcasters (ta_store app)) i))"

definition fossic_read_by_external_id ::
  "libs \<Rightarrow> tauri_app \<Rightarrow> string \<Rightarrow> string \<Rightarrow> (tauri_error + serialized_event option) option" where
  "fossic_read_by_external_id L app stream_id external_id =
     ipc_run (map_option (from_stored L))
       (store_read_by_external_id L (so_db (ta_store app)) (so_upcasters (ta_store app))
          stream_id external_id)"

definition fossic_read_batch ::
  "libs \<Rightarrow> tauri_app \<Rightarrow> string list \<Rightarrow> (tauri_error + serialized_event list) option" where
  "fossic_read_batch L app event_ids =
     bind_run (Some (ipc id (collect_res from_hex event_ids))) (\<lambda>ids.
       ipc_run (events_of L)
         (store_read_batch L (so_db (ta_store app)) (so_upcasters (ta_store app)) ids))"

definition fossic_read_by_correlation ::
  "libs \<Rightarrow> tauri_app \<Rightarrow> string \<Rightarrow> (tauri_error + serialized_event list) option" where
  "fossic_read_by_correlation L app correlation_id =
     bind_run (hex_arg correlation_id) (\<lambda>i.
       ipc_run (events_of L)
         (store_read_by_correlation L (so_db (ta_store app)) (so_upcasters (ta_store app)) i))"

definition depth_arg :: "nat option \<Rightarrow> nat" where
  "depth_arg max_depth = (case max_depth of None \<Rightarrow> nat i64_max | Some n \<Rightarrow> n)"

definition text_arg :: "tauri_message + 'a \<Rightarrow> (tauri_error + 'a) option" where
  "text_arg r = Some (map_err argument_err r)"

definition fossic_walk_causation ::
  "libs \<Rightarrow> tauri_app \<Rightarrow> string \<Rightarrow> string \<Rightarrow> nat option \<Rightarrow>
     (tauri_error + serialized_event list) option" where
  "fossic_walk_causation L app start direction max_depth =
     bind_run (hex_arg start) (\<lambda>start_id.
     bind_run (text_arg (parse_direction direction)) (\<lambda>dir.
       ipc_run (events_of L)
         (store_walk_causation L (so_db (ta_store app)) (so_upcasters (ta_store app))
            start_id dir (depth_arg max_depth))))"

section \<open>Bounded reads\<close>

abbreviation store_options :: "store \<Rightarrow> open_options" where
  "store_options st \<equiv> ss_options (so_state st)"

text \<open>The call both range commands end in.\<close>

definition range_outcome ::
  "libs \<Rightarrow> b64_lib \<Rightarrow> tauri_app \<Rightarrow> read_query \<Rightarrow> nat option \<Rightarrow> nat option \<Rightarrow>
     truncation_cursor option \<Rightarrow> (tauri_error + serialized_read_outcome) option" where
  "range_outcome L B app q max_results max_bytes resume =
     (let st = ta_store app
      in ipc_run (from_outcome L B)
           (store_read_range_bounded L (store_options st) (so_db st) (so_upcasters st) q
              max_results max_bytes resume))"

definition fossic_read_range_bounded ::
  "libs \<Rightarrow> b64_lib \<Rightarrow> tauri_app \<Rightarrow> string \<Rightarrow> string option \<Rightarrow> u64 option \<Rightarrow> u64 option \<Rightarrow>
     string option \<Rightarrow> nat option \<Rightarrow> nat option \<Rightarrow> (tauri_error + serialized_read_outcome) option" where
  "fossic_read_range_bounded L B app stream_id branch from_version to_version event_type_filter
       max_results max_bytes =
     range_outcome L B app (range_query stream_id branch from_version to_version event_type_filter)
       max_results max_bytes None"

definition fossic_read_range_from_cursor ::
  "libs \<Rightarrow> b64_lib \<Rightarrow> tauri_app \<Rightarrow> string \<Rightarrow> string option \<Rightarrow> u64 option \<Rightarrow> u64 option \<Rightarrow>
     string option \<Rightarrow> nat option \<Rightarrow> nat option \<Rightarrow> string \<Rightarrow>
     (tauri_error + serialized_read_outcome) option" where
  "fossic_read_range_from_cursor L B app stream_id branch from_version to_version event_type_filter
       max_results max_bytes cursor =
     (let q = range_query stream_id branch from_version to_version event_type_filter
      in bind_run (text_arg (parse_cursor B cursor)) (\<lambda>c.
           range_outcome L B app q max_results max_bytes (Some c)))"

definition correlation_outcome ::
  "libs \<Rightarrow> b64_lib \<Rightarrow> tauri_app \<Rightarrow> event_id \<Rightarrow> nat option \<Rightarrow> nat option \<Rightarrow>
     truncation_cursor option \<Rightarrow> (tauri_error + serialized_read_outcome) option" where
  "correlation_outcome L B app i max_results max_bytes resume =
     (let st = ta_store app
      in ipc_run (from_outcome L B)
           (store_read_by_correlation_bounded L (store_options st) (so_db st) (so_upcasters st) i
              max_results max_bytes resume))"

definition fossic_read_by_correlation_bounded ::
  "libs \<Rightarrow> b64_lib \<Rightarrow> tauri_app \<Rightarrow> string \<Rightarrow> nat option \<Rightarrow> nat option \<Rightarrow>
     (tauri_error + serialized_read_outcome) option" where
  "fossic_read_by_correlation_bounded L B app correlation_id max_results max_bytes =
     bind_run (hex_arg correlation_id) (\<lambda>i.
       correlation_outcome L B app i max_results max_bytes None)"

definition fossic_read_by_correlation_from_cursor ::
  "libs \<Rightarrow> b64_lib \<Rightarrow> tauri_app \<Rightarrow> string \<Rightarrow> nat option \<Rightarrow> nat option \<Rightarrow> string \<Rightarrow>
     (tauri_error + serialized_read_outcome) option" where
  "fossic_read_by_correlation_from_cursor L B app correlation_id max_results max_bytes cursor =
     bind_run (hex_arg correlation_id) (\<lambda>i.
     bind_run (text_arg (parse_cursor B cursor)) (\<lambda>c.
       correlation_outcome L B app i max_results max_bytes (Some c)))"

text \<open>The arguments of a walk are parsed in this order: start, direction, sampling.\<close>

definition walk_args ::
  "string \<Rightarrow> string \<Rightarrow> nat option \<Rightarrow> json option \<Rightarrow> nat option \<Rightarrow> nat option \<Rightarrow>
     (tauri_error + event_id \<times> walk_params) option" where
  "walk_args start direction max_depth sampling max_results max_bytes =
     bind_run (hex_arg start) (\<lambda>start_id.
     bind_run (text_arg (parse_direction direction)) (\<lambda>dir.
     bind_run (text_arg (parse_sampling_mode sampling)) (\<lambda>samp.
       Some (Inr (start_id,
         \<lparr>wp_direction = dir, wp_max_depth = depth_arg max_depth, wp_sampling = samp,
          wp_max_results = max_results, wp_max_bytes = max_bytes\<rparr>)))))"

definition walk_outcome ::
  "libs \<Rightarrow> b64_lib \<Rightarrow> tauri_app \<Rightarrow> event_id \<Rightarrow> walk_params \<Rightarrow> truncation_cursor option \<Rightarrow>
     (tauri_error + serialized_read_outcome) option" where
  "walk_outcome L B app start w resume =
     (let st = ta_store app
      in ipc_run (from_outcome L B)
           (store_walk_causation_bounded L (store_options st) (so_db st) (so_upcasters st)
              start w resume))"

definition fossic_walk_causation_bounded ::
  "libs \<Rightarrow> b64_lib \<Rightarrow> tauri_app \<Rightarrow> string \<Rightarrow> string \<Rightarrow> nat option \<Rightarrow> json option \<Rightarrow>
     nat option \<Rightarrow> nat option \<Rightarrow> (tauri_error + serialized_read_outcome) option" where
  "fossic_walk_causation_bounded L B app start direction max_depth sampling max_results max_bytes =
     bind_run (walk_args start direction max_depth sampling max_results max_bytes) (\<lambda>(i, w).
       walk_outcome L B app i w None)"

definition fossic_walk_causation_from_cursor ::
  "libs \<Rightarrow> b64_lib \<Rightarrow> tauri_app \<Rightarrow> string \<Rightarrow> string \<Rightarrow> nat option \<Rightarrow> json option \<Rightarrow>
     nat option \<Rightarrow> nat option \<Rightarrow> string \<Rightarrow> (tauri_error + serialized_read_outcome) option" where
  "fossic_walk_causation_from_cursor L B app start direction max_depth sampling max_results
       max_bytes cursor =
     bind_run (walk_args start direction max_depth sampling max_results max_bytes) (\<lambda>(i, w).
     bind_run (text_arg (parse_cursor B cursor)) (\<lambda>c.
       walk_outcome L B app i w (Some c)))"

section \<open>Aggregation and states\<close>

definition collect_aggregate ::
  "libs \<Rightarrow> (serialized_event list, serialized_event list) aggregator" where
  "collect_aggregate L =
     \<lparr>agg_fold = (\<lambda>events event. events @ [from_stored L event]), agg_finalize = (\<lambda>events. events)\<rparr>"

record serialized_aggregate_outcome =
  sao_kind :: string
  sao_results :: "serialized_event list"
  sao_reason :: "string option"

definition from_aggregate_outcome ::
  "serialized_event list read_outcome \<Rightarrow> serialized_aggregate_outcome" where
  "from_aggregate_outcome outcome =
     (case outcome of
        Complete events \<Rightarrow> \<lparr>sao_kind = ''complete'', sao_results = events, sao_reason = None\<rparr>
      | Truncated data cursor reason \<Rightarrow>
          \<lparr>sao_kind = ''truncated'', sao_results = data, sao_reason = Some (reason_text reason)\<rparr>)"

definition main_unless :: "string option \<Rightarrow> string" where
  "main_unless branch = (case branch of None \<Rightarrow> ''main'' | Some b \<Rightarrow> b)"

definition fossic_aggregate_bounded ::
  "libs \<Rightarrow> tauri_app \<Rightarrow> string \<Rightarrow> string option \<Rightarrow> string option \<Rightarrow> i64 option \<Rightarrow> i64 option \<Rightarrow>
     json option \<Rightarrow> nat option \<Rightarrow> nat option \<Rightarrow> (tauri_error + serialized_aggregate_outcome) option" where
  "fossic_aggregate_bounded L app stream_pattern branch event_type_filter from_timestamp_us
       to_timestamp_us indexed_tags_filter max_events_scanned max_bytes =
     (let q = \<lparr>aq_stream_pattern = stream_pattern, aq_branch = main_unless branch,
               aq_event_type_filter = event_type_filter, aq_from_timestamp_us = from_timestamp_us,
               aq_to_timestamp_us = to_timestamp_us, aq_indexed_tags_filter = indexed_tags_filter\<rparr>;
          st = ta_store app
      in ipc_run from_aggregate_outcome
           (store_aggregate_bounded L (store_options st) (so_db st) (so_upcasters st) q
              (collect_aggregate L) [] max_events_scanned max_bytes))"

definition fossic_read_state_at_version ::
  "libs \<Rightarrow> tauri_app \<Rightarrow> string \<Rightarrow> string \<Rightarrow> u64 \<Rightarrow> string option \<Rightarrow> tauri_error + json" where
  "fossic_read_state_at_version L app stream_id branch version reducer_name =
     (let st = ta_store app; reg = ss_reducers (so_state st)
      in case reducer_name of
           Some name \<Rightarrow>
             ipc id (read_state_at_version_with_reducer (mp_from_slice L) L (so_db st) reg
                       stream_id branch version name)
         | None \<Rightarrow>
             ipc id (read_state_at_version (mp_from_slice L) L (so_db st) reg
                       stream_id branch version))"

section \<open>Subscriptions\<close>

text \<open>
  The handler emits a Tauri event for every stored event and does not panic; what it has emitted
  is a function of the calls the registry records.
\<close>

definition emit_handler :: handler where
  "emit_handler = (\<lambda>calls event. False)"

definition emission :: "libs \<Rightarrow> string \<Rightarrow> stored_event \<Rightarrow> string \<times> serialized_event" where
  "emission L sub_id event = (sub_id, from_stored L event)"

text \<open>\<open>SubscriptionMap::insert\<close>; a replaced entry drops its handle, as \<open>remove\<close> does.\<close>

definition drop_entry :: "string \<Rightarrow> tauri_app \<Rightarrow> tauri_app" where
  "drop_entry i app =
     (case map_of (ta_subs app) i of
        None \<Rightarrow> app
      | Some entry \<Rightarrow> app\<lparr>ta_store := store_unsubscribe (sm_handle entry) (ta_store app)\<rparr>)"

definition map_insert :: "string \<Rightarrow> subscription_entry \<Rightarrow> tauri_app \<Rightarrow> tauri_app" where
  "map_insert i entry app = (drop_entry i app)\<lparr>ta_subs := AList.update i entry (ta_subs app)\<rparr>"

definition map_remove :: "string \<Rightarrow> tauri_app \<Rightarrow> tauri_app" where
  "map_remove i app = (drop_entry i app)\<lparr>ta_subs := AList.delete i (ta_subs app)\<rparr>"

record subscriber_snapshot =
  sp_subscription_id :: string
  sp_stream_pattern :: string
  sp_branch :: string
  sp_degraded :: bool
  sp_queue_depth :: "nat option"
  sp_queue_capacity :: "nat option"

text \<open>The handle: its flag, which starts unset, and the registry entry.\<close>

definition handle_is_degraded :: "u64 \<Rightarrow> registry \<Rightarrow> bool" where
  "handle_is_degraded i rg =
     (case map_of (rg_entries rg) i of None \<Rightarrow> False | Some entry \<Rightarrow> se_degraded entry)"

definition handle_queue_depth :: "u64 \<Rightarrow> registry \<Rightarrow> nat option" where
  "handle_queue_depth i rg = map_option fst (queue_info i rg)"

definition handle_queue_capacity :: "u64 \<Rightarrow> registry \<Rightarrow> nat option" where
  "handle_queue_capacity i rg = Option.bind (queue_info i rg) snd"

definition subscriber_snapshot_of ::
  "registry \<Rightarrow> string \<Rightarrow> subscription_entry \<Rightarrow> subscriber_snapshot" where
  "subscriber_snapshot_of rg i entry =
     \<lparr>sp_subscription_id = i, sp_stream_pattern = sm_stream_pattern entry,
      sp_branch = sm_branch entry, sp_degraded = handle_is_degraded (sm_handle entry) rg,
      sp_queue_depth = handle_queue_depth (sm_handle entry) rg,
      sp_queue_capacity = handle_queue_capacity (sm_handle entry) rg\<rparr>"

definition snapshot_all :: "tauri_app \<Rightarrow> subscriber_snapshot list" where
  "snapshot_all app =
     map (\<lambda>(i, entry). subscriber_snapshot_of (so_registry (ta_store app)) i entry) (ta_subs app)"

definition snapshot_one :: "tauri_app \<Rightarrow> string \<Rightarrow> subscriber_snapshot option" where
  "snapshot_one app i =
     map_option (subscriber_snapshot_of (so_registry (ta_store app)) i) (map_of (ta_subs app) i)"

text \<open>The UUID of a new subscription is an argument.\<close>

definition fossic_subscribe ::
  "string \<Rightarrow> string \<Rightarrow> string option \<Rightarrow> bool option \<Rightarrow> nat option \<Rightarrow> tauri_app \<Rightarrow>
     tauri_app \<times> (tauri_error + string)" where
  "fossic_subscribe sub_id stream_pattern branch include_system queue_size app =
     (let q = \<lparr>sq_stream_pattern = stream_pattern, sq_branch = main_unless branch,
               sq_include_system = (case include_system of None \<Rightarrow> False | Some b \<Rightarrow> b)\<rparr>;
          mode = ModePostCommit (case queue_size of None \<Rightarrow> 1024 | Some n \<Rightarrow> n);
          (st', handle) = store_subscribe q mode emit_handler (ta_store app)
      in (map_insert sub_id
            \<lparr>sm_handle = handle, sm_stream_pattern = sq_stream_pattern q, sm_branch = sq_branch q\<rparr>
            (app\<lparr>ta_store := st'\<rparr>),
          Inr sub_id))"

definition fossic_list_subscribers :: "tauri_app \<Rightarrow> subscriber_snapshot list" where
  "fossic_list_subscribers app = snapshot_all app"

definition size_json :: "nat option \<Rightarrow> json" where
  "size_json n = (case n of None \<Rightarrow> JNull | Some k \<Rightarrow> JNumber (PosInt (word_of_nat k)))"

definition fossic_subscription_status :: "tauri_app \<Rightarrow> string \<Rightarrow> json" where
  "fossic_subscription_status app i =
     (case snapshot_one app i of
        Some snap \<Rightarrow> JObject
          [(''active'', JBool True), (''degraded'', JBool (sp_degraded snap)),
           (''queue_capacity'', size_json (sp_queue_capacity snap)),
           (''queue_depth'', size_json (sp_queue_depth snap))]
      | None \<Rightarrow> JObject
          [(''active'', JBool False), (''degraded'', JBool False),
           (''queue_capacity'', JNull), (''queue_depth'', JNull)])"

definition fossic_unsubscribe :: "string \<Rightarrow> tauri_app \<Rightarrow> tauri_app" where
  "fossic_unsubscribe i app = map_remove i app"

definition fossic_dispatch_test_event ::
  "libs \<Rightarrow> i64 \<Rightarrow> i64 \<Rightarrow> string \<Rightarrow> string \<Rightarrow> json \<Rightarrow> tauri_app \<Rightarrow>
     tauri_app \<times> (tauri_error + string)" where
  "fossic_dispatch_test_event L now now2 stream_id event_type payload app =
     (let (st', r) = store_append L now now2
            (append_default\<lparr>a_stream_id := stream_id, a_event_type := event_type,
               a_payload := payload\<rparr>) (ta_store app)
      in (app\<lparr>ta_store := st'\<rparr>, ipc to_hex r))"

end
