(* ===== verification/Tauri_Ipc.thy ===== *)
theory Tauri_Ipc
  imports Tauri_Commands Walk_Pages
begin

text \<open>
  What a front end can rely on: following the cursors of the bounded commands yields the whole
  result (\<open>ipc_paging\<close>, for the three bounded queries), identities it was given can be sent back,
  and the map of subscriptions agrees with the registry of the store.
\<close>

section \<open>A front end that follows cursors\<close>

text \<open>
  The loop of a client: ask for a page, and go on with \<open>next_cursor\<close> until there is none. Fuel
  bounds the number of pages; \<open>None\<close> stands for an error as well.
\<close>

fun follow ::
  "(string option \<Rightarrow> (tauri_error + serialized_read_outcome) option) \<Rightarrow> nat \<Rightarrow> string option \<Rightarrow>
     serialized_event list option" where
  "follow page 0 cursor = None"
| "follow page (Suc n) cursor =
     (case page cursor of
        Some (Inr out) \<Rightarrow>
          (case sro_next_cursor out of
             None \<Rightarrow> Some (sro_results out)
           | Some c \<Rightarrow> map_option ((@) (sro_results out)) (follow page n (Some c)))
      | _ \<Rightarrow> None)"

locale ipc_paging = paged_read fetch remaining valid
  for fetch remaining valid +
  fixes L :: libs and B :: b64_lib and reg :: upcaster_registry
    and page :: "string option \<Rightarrow> (tauri_error + serialized_read_outcome) option"
  assumes first_page: "page None =
      ipc_run (from_outcome L B) (bind_run (Some (fetch None)) (upcast_outcome reg))"
    and next_page: "b64_ok B \<Longrightarrow> page (Some (b64_encode B (cursor_bytes c))) =
      ipc_run (from_outcome L B) (bind_run (Some (fetch (Some c))) (upcast_outcome reg))"
begin

definition cursor_text :: "truncation_cursor \<Rightarrow> string" where
  "cursor_text c = b64_encode B (cursor_bytes c)"

lemma page_of:
  "b64_ok B \<Longrightarrow> page (map_option cursor_text c) =
     ipc_run (from_outcome L B) (bind_run (Some (fetch c)) (upcast_outcome reg))"
  by (cases c) (simp_all add: first_page next_page cursor_text_def)

lemma follow_all:
  assumes b64: "b64_ok B"
  shows "valid c \<Longrightarrow> upcast_events reg (remaining c) = Some (Inr evs) \<Longrightarrow> length evs < n \<Longrightarrow>
    follow page n (map_option cursor_text c) = Some (events_of L evs)"
proof (induction n arbitrary: c evs)
  case (Suc n)
  from page [OF Suc.prems(1)] show ?case
  proof (elim disjE exE conjE)
    assume "fetch c = Inr (Complete (remaining c))"
    then show ?thesis
      using Suc.prems(2) by (simp add: page_of [OF b64] upcast_outcome_def from_outcome_def)
  next
    fix es c' r
    assume f: "fetch c = Inr (Truncated es (Some c') r)" and "es \<noteq> []"
      and rem: "remaining c = es @ remaining (Some c')" and v: "valid (Some c')"
    from Suc.prems(2) obtain as bs where split: "evs = as @ bs"
      and as: "upcast_events reg es = Some (Inr as)"
      and bs: "upcast_events reg (remaining (Some c')) = Some (Inr bs)"
      unfolding rem upcast_events_append by blast
    have "as \<noteq> []" using upcast_events_length [OF as] \<open>es \<noteq> []\<close> by auto
    then have "length bs < n" using Suc.prems(3) split by (cases as) simp_all
    from Suc.IH [OF v bs this] show ?thesis
      using f as split
      by (simp add: page_of [OF b64] upcast_outcome_def from_outcome_def, simp add: cursor_text_def)
  qed
qed simp

lemma follow_first:
  assumes "b64_ok B" and "valid None" and "upcast_events reg (remaining None) = Some (Inr evs)"
    and "length evs < n"
  shows "follow page n None = Some (events_of L evs)"
  using follow_all [OF assms] by simp

end

text \<open>The commands as functions of the cursor.\<close>

definition range_pages ::
  "libs \<Rightarrow> b64_lib \<Rightarrow> tauri_app \<Rightarrow> string \<Rightarrow> string option \<Rightarrow> u64 option \<Rightarrow> u64 option \<Rightarrow>
     string option \<Rightarrow> nat option \<Rightarrow> nat option \<Rightarrow> string option \<Rightarrow>
     (tauri_error + serialized_read_outcome) option" where
  "range_pages L B app s b lo hi f max_results max_bytes cursor =
     (case cursor of
        None \<Rightarrow> fossic_read_range_bounded L B app s b lo hi f max_results max_bytes
      | Some c \<Rightarrow> fossic_read_range_from_cursor L B app s b lo hi f max_results max_bytes c)"

text \<open>The two commands on a correlation or a walk differ in the cursor only.\<close>

definition cursor_pages ::
  "b64_lib \<Rightarrow> (truncation_cursor option \<Rightarrow> (tauri_error + serialized_read_outcome) option) \<Rightarrow>
     string option \<Rightarrow> (tauri_error + serialized_read_outcome) option" where
  "cursor_pages B outcome cursor =
     (case cursor of
        None \<Rightarrow> outcome None
      | Some s \<Rightarrow> bind_run (text_arg (parse_cursor B s)) (\<lambda>c. outcome (Some c)))"

abbreviation page_limit :: "store \<Rightarrow> nat option \<Rightarrow> nat option" where
  "page_limit st given \<equiv> effective given (opt_default_max_results (store_options st))"

abbreviation page_bytes :: "store \<Rightarrow> nat option \<Rightarrow> nat option" where
  "page_bytes st given \<equiv> effective given (opt_default_max_bytes (store_options st))"

interpretation ipc_range: ipc_paging
    "fetch_range L (so_db (ta_store app)) (range_query s b lo hi f)
       (page_limit (ta_store app) max_results) (page_bytes (ta_store app) max_bytes)"
    "range_remaining L (so_db (ta_store app)) (range_query s b lo hi f)"
    "range_valid L (so_db (ta_store app)) (page_limit (ta_store app) max_results)"
    L B "so_upcasters (ta_store app)" "range_pages L B app s b lo hi f max_results max_bytes"
  for L B app s b lo hi f max_results max_bytes
  by unfold_locales
    (simp_all add: range_pages_def fossic_read_range_bounded_def fossic_read_range_from_cursor_def
      range_outcome_def store_read_range_bounded_def text_arg_def parse_cursor_def b64_ok_def Let_def)

interpretation ipc_correlation: ipc_paging
    "fetch_correlation L (so_db (ta_store app)) i
       (page_limit (ta_store app) max_results) (page_bytes (ta_store app) max_bytes)"
    "correlation_remaining L (so_db (ta_store app)) i"
    "correlation_valid L (so_db (ta_store app)) (page_limit (ta_store app) max_results)"
    L B "so_upcasters (ta_store app)"
    "cursor_pages B (correlation_outcome L B app i max_results max_bytes)"
  for L B app i max_results max_bytes
  by unfold_locales
    (simp_all add: cursor_pages_def correlation_outcome_def store_read_by_correlation_bounded_def
      text_arg_def parse_cursor_def b64_ok_def Let_def)

abbreviation with_budget :: "store \<Rightarrow> walk_params \<Rightarrow> walk_params" where
  "with_budget st w \<equiv> w\<lparr>wp_max_results := page_limit st (wp_max_results w),
     wp_max_bytes := page_bytes st (wp_max_bytes w)\<rparr>"

interpretation ipc_walk: ipc_paging
    "fetch_causation L (so_db (ta_store app)) start (with_budget (ta_store app) w)"
    "causation_remaining L (so_db (ta_store app)) start (with_budget (ta_store app) w)"
    "causation_valid L (so_db (ta_store app)) start (with_budget (ta_store app) w)"
    L B "so_upcasters (ta_store app)" "cursor_pages B (walk_outcome L B app start w)"
  for L B app start w
  by unfold_locales
    (simp_all add: cursor_pages_def walk_outcome_def store_walk_causation_bounded_def
      text_arg_def parse_cursor_def b64_ok_def Let_def)

section \<open>Whole results\<close>

lemma range_query_limit: "q_limit (range_query s b lo hi f) = None"
  by (simp add: range_query_def read_query_stream_def Let_def split: option.splits)

text \<open>
  C9. A front end that reads a range page by page over IPC, sending each \<open>next_cursor\<close> back, gets
  page after page exactly what one unbounded command returns, upcasters included, for every page
  size but zero; it needs no more requests than there are events, plus one.
\<close>

theorem ipc_range_paging_complete:
  assumes "cursor_codec_ok L" and "b64_ok B" and "log_wf L (so_db (ta_store app))"
    and "page_limit (ta_store app) max_results \<noteq> Some 0"
    and "fossic_read_range L app s b lo hi None f = Some (Inr evs)" and "length evs < n"
  shows "follow (range_pages L B app s b lo hi f max_results max_bytes) n None = Some evs"
proof -
  let ?d = "so_db (ta_store app)" and ?q = "range_query s b lo hi f"
  have "range_remaining L ?d ?q None = map (event_of L) (range_rows ?d ?q None)"
    by (simp add: range_remaining_def range_resume_def)
  moreover have "rows_readable L (range_rows ?d ?q None)"
    by (simp add: range_rows_def log_wf_range(1) [OF assms(3)])
  then have "read_range_impl L ?d ?q = Inr (map (event_of L) (range_rows ?d ?q None))"
    using no_limit [OF assms(3)]
    by (simp add: read_range_impl_def range_rows_def rows_to_events_readable range_query_limit)
  ultimately have "fossic_read_range L app s b lo hi None f =
      ipc_run (events_of L) (upcast_events (so_upcasters (ta_store app)) (range_remaining L ?d ?q None))"
    by (simp add: fossic_read_range_def Let_def store_read_range_def)
  with assms(5) obtain es where
    up: "upcast_events (so_upcasters (ta_store app)) (range_remaining L ?d ?q None) = Some (Inr es)"
    and evs: "evs = events_of L es"
    by (auto simp: ipc_run_Inr_iff)
  have "range_valid L ?d (page_limit (ta_store app) max_results) None"
    using assms(1,3,4) by (simp add: range_valid_def range_resume_def)
  from ipc_range.follow_first [OF assms(2) this up, of n] assms(6) evs show ?thesis by simp
qed

text \<open>A file with 32-byte identities, for the witnesses.\<close>

definition demo_id :: "u8 \<Rightarrow> event_id" where
  "demo_id b = EventId (replicate 32 b)"

definition demo_app :: tauri_app where
  "demo_app = plugin
     \<lparr>so_state = \<lparr>ss_db = demo_db\<lparr>t_events :=
          [(demo_row 0)\<lparr>r_id := demo_id 0\<rparr>, (demo_row 1)\<lparr>r_id := demo_id 1\<rparr>]\<rparr>,
        ss_options = open_options_default, ss_reducers = [], ss_snapshot_counters = (\<lambda>_. None),
        ss_state_monitors = (\<lambda>_. None), ss_last_snapshot_us = (\<lambda>_. None), ss_store_open_us = 0,
        ss_scheduled = []\<rparr>,
      so_transforms = [], so_upcasters = (\<lambda>_. None), so_branch_cache = (\<lambda>_. None),
      so_registry = registry_new, so_channel = [], so_sync_degraded = [], so_high_water = 0,
      so_quiescence = quiescence_new 0\<rparr>"

definition demo_b64 :: b64_lib where
  "demo_b64 = \<lparr>b64_encode = map (\<lambda>b. char_of (unat b)), b64_decode = (\<lambda>s. Inr (map of_char s))\<rparr>"

lemma demo_b64_ok: "b64_ok demo_b64"
proof -
  have "(of_char (char_of (unat b)) :: byte) = b" for b :: byte
  proof -
    have "unat b < 256" using unsigned_less [of b] by simp
    then show ?thesis by (simp add: word_unat_eq_iff unat_of_char)
  qed
  then show ?thesis by (simp add: b64_ok_def demo_b64_def o_def)
qed

lemma demo_app_db:
  "so_db (ta_store demo_app) = demo_db\<lparr>t_events :=
     [(demo_row 0)\<lparr>r_id := demo_id 0\<rparr>, (demo_row 1)\<lparr>r_id := demo_id 1\<rparr>]\<rparr>"
  by (simp add: demo_app_def plugin_def)

lemma demo_app_wf: "log_wf demo_libs (so_db (ta_store demo_app))"
  by (simp add: log_wf_def demo_app_db events_wf_def demo_row_def row_key_def rows_readable_def
      row_readable_tags i64_max_def demo_id_def)

lemma demo_app_range: "\<exists>evs. fossic_read_range demo_libs demo_app ''a/b'' None None None None None =
    Some (Inr evs) \<and> length evs = 2"
proof -
  have "rows_readable demo_libs [(demo_row 0)\<lparr>r_id := demo_id 0\<rparr>, (demo_row 1)\<lparr>r_id := demo_id 1\<rparr>]"
    using demo_app_wf by (simp add: log_wf_def demo_app_db)
  then show ?thesis
    by (simp add: fossic_read_range_def range_query_def read_query_stream_def store_read_range_def
        demo_app_db read_range_impl_def or_zero_def as_i64_def upper_version_def sql_limit_def
        select_range_def demo_row_def type_filter_ok_def i64_max_def rows_to_events_readable
        upcast_events_def apply_upcaster_def upcast_apply_def demo_app_def plugin_def)
qed

theorem ipc_range_paging_complete_witness:
  "\<exists>evs. length evs = 2 \<and>
     follow (range_pages demo_libs demo_b64 demo_app ''a/b'' None None None None (Some 1) None) 3 None =
       Some evs"
proof -
  obtain evs where evs: "fossic_read_range demo_libs demo_app ''a/b'' None None None None None =
      Some (Inr evs)" "length evs = 2"
    using demo_app_range by blast
  have "page_limit (ta_store demo_app) (Some 1) \<noteq> Some 0" by (simp add: effective_def)
  from ipc_range_paging_complete [OF demo_cursor_codec_ok demo_b64_ok demo_app_wf this evs(1)] evs(2)
  show ?thesis by simp
qed

text \<open>The same for the two other bounded queries.\<close>

theorem ipc_correlation_paging_complete:
  assumes "cursor_codec_ok L" and "b64_ok B" and "log_wf L (so_db (ta_store app))"
    and "page_limit (ta_store app) max_results \<noteq> Some 0"
    and "upcast_events (so_upcasters (ta_store app))
      (correlation_remaining L (so_db (ta_store app)) i None) = Some (Inr evs)"
    and "length evs < n"
  shows "follow (cursor_pages B (correlation_outcome L B app i max_results max_bytes)) n None =
    Some (events_of L evs)"
  by (rule ipc_correlation.follow_first [OF assms(2) _ assms(5,6)])
    (use assms in \<open>simp add: correlation_valid_def correlation_resume_def\<close>)

theorem ipc_walk_paging_complete:
  assumes "walk_ok L (so_db (ta_store app)) (with_budget (ta_store app) w)" and "b64_ok B"
    and "upcast_events (so_upcasters (ta_store app))
      (causation_remaining L (so_db (ta_store app)) start (with_budget (ta_store app) w) None) =
        Some (Inr evs)"
    and "length evs < n"
  shows "follow (cursor_pages B (walk_outcome L B app start w)) n None = Some (events_of L evs)"
  by (rule ipc_walk.follow_first [OF assms(2) _ assms(3,4)])
    (use assms(1) in \<open>simp add: causation_valid_def\<close>)

section \<open>Identities sent back\<close>

lemma apply_upcaster_id: "apply_upcaster reg e = Some (Inr e') \<Longrightarrow> ev_id e' = ev_id e"
  by (auto simp: apply_upcaster_def bind_res_Inr_iff)

lemma filter_unique:
  "distinct (map f xs) \<Longrightarrow> x \<in> set xs \<Longrightarrow> filter (\<lambda>y. f y = f x) xs = [x]"
proof (induction xs)
  case (Cons y ys)
  then have "f z \<noteq> f y" if "z \<in> set ys" for z using that by (simp add: image_iff) metis
  with Cons show ?case by (auto simp: filter_empty_conv)
qed simp

lemma read_range_rows:
  assumes "read_range_impl L d q = Inr raw"
  obtains rows where "rows_to_events L rows = Inr raw" and "set rows \<subseteq> set (t_events d)"
proof -
  have sub: "set (sql_limit n xs) \<subseteq> set xs" for n and xs :: "event_row list"
    by (auto simp: sql_limit_def dest: in_set_takeD)
  show ?thesis
    using assms that sub unfolding read_range_impl_def Let_def
    by (meson order_trans select_range_subset)
qed

text \<open>
  C18. An event that a range read returned over IPC can be asked for by the identity it carries: the
  hexadecimal text is parsed back and \<open>fossic_read_one\<close> returns the same serialized event, payload
  and upcasters included.
\<close>

theorem ipc_id_roundtrip:
  assumes "log_wf L (so_db (ta_store app))"
    and "\<forall>r \<in> set (t_events (so_db (ta_store app))). length (id_bytes (r_id r)) = 32"
    and "fossic_read_range L app s b lo hi limit f = Some (Inr evs)" and "ev \<in> set evs"
  shows "fossic_read_one L app (sv_id ev) = Some (Inr (Some ev))"
proof -
  let ?d = "so_db (ta_store app)" and ?reg = "so_upcasters (ta_store app)"
  have wf: "events_wf (t_events ?d)" and rd: "rows_readable L (t_events ?d)"
    using assms(1) by (simp_all add: log_wf_def)
  from assms(3) obtain q es where q: "store_read_range L ?d ?reg q = Some (Inr es)"
    and evs: "evs = events_of L es"
    by (auto simp: fossic_read_range_def Let_def ipc_run_Inr_iff)
  from q obtain raw where raw: "read_range_impl L ?d q = Inr raw"
    and up: "list_all2 (\<lambda>x y. apply_upcaster ?reg x = Some (Inr y)) raw es"
    by (cases "read_range_impl L ?d q") (auto simp: store_read_range_def upcast_events_def collect_run_Inr_iff)
  from assms(4) evs obtain e where e: "e \<in> set es" "ev = from_stored L e" by auto
  then obtain k where "k < length es" "es ! k = e" by (auto simp: in_set_conv_nth)
  with up have "raw ! k \<in> set raw" "apply_upcaster ?reg (raw ! k) = Some (Inr e)"
    by (auto simp: list_all2_conv_all_nth)
  then obtain e0 where e0: "e0 \<in> set raw" "apply_upcaster ?reg e0 = Some (Inr e)" by blast
  obtain rows where "rows_to_events L rows = Inr raw" and rows: "set rows \<subseteq> set (t_events ?d)"
    by (rule read_range_rows [OF raw])
  with rd have "raw = map (event_of L) rows"
    by (subst (asm) rows_to_events_readable) (auto simp: rows_readable_def)
  with e0 rows obtain r where r: "r \<in> set (t_events ?d)" "e0 = event_of L r" by auto
  have readable: "row_readable L r" using rd r(1) by (simp add: rows_readable_def)
  have id: "ev_id e = r_id r"
    using apply_upcaster_id [OF e0(2)] r(2) event_of_simps(1) [OF readable] by simp
  have "read_one_impl L ?d (r_id r) = Inr (Some e0)"
    using filter_unique [OF _ r(1), of r_id] wf r(2)
    by (simp add: events_wf_def read_one_impl_def query_row_def row_to_event_readable [OF readable])
  moreover have "from_hex (sv_id ev) = Inr (r_id r)"
    using from_hex_to_hex assms(2) r(1) id e(2) by (simp add: from_stored_def)
  ultimately show ?thesis
    using e0(2) e(2) by (simp add: fossic_read_one_def hex_arg_def store_read_one_def upcast_option_def)
qed

theorem ipc_id_roundtrip_witness:
  "\<exists>ev. fossic_read_one demo_libs demo_app (sv_id ev) = Some (Inr (Some ev))"
proof -
  obtain evs where evs: "fossic_read_range demo_libs demo_app ''a/b'' None None None None None =
      Some (Inr evs)" "length evs = 2"
    using demo_app_range by blast
  then obtain ev where "ev \<in> set evs" by (cases evs) auto
  moreover have "\<forall>r \<in> set (t_events (so_db (ta_store demo_app))). length (id_bytes (r_id r)) = 32"
    by (simp add: demo_app_db demo_id_def)
  ultimately show ?thesis using ipc_id_roundtrip [OF demo_app_wf _ evs(1)] by blast
qed

end
