(* ===== verification/Tauri_Subscriptions.thy ===== *)
theory Tauri_Subscriptions
  imports Tauri_Commands Store_Invariant
begin

text \<open>
  The map of subscriptions of the Tauri plugin and the registry of the store: whatever the front
  end, the application and the threads of the store do, a listed subscription is registered under
  its handle, with the pattern and branch the list shows, and the queue it shows is within bounds.
\<close>

section \<open>What the store does to its registry\<close>

definition within_capacity :: "post_commit \<Rightarrow> bool" where
  "within_capacity pc \<longleftrightarrow> length (pc_queue pc) \<le> max 1 (pc_capacity pc)"

definition same_shape :: "subscriber_entry \<Rightarrow> subscriber_entry \<Rightarrow> bool" where
  "same_shape e e' \<longleftrightarrow> se_stream_pattern e' = se_stream_pattern e \<and> se_branch e' = se_branch e \<and>
     (\<forall>pc. se_kind e = PostCommit pc \<longrightarrow>
        (\<exists>pc'. se_kind e' = PostCommit pc' \<and> pc_capacity pc' = pc_capacity pc \<and>
           (within_capacity pc \<longrightarrow> within_capacity pc')))"

lemma same_shape_refl [simp]: "same_shape e e"
  by (simp add: same_shape_def)

lemma same_shape_trans: "same_shape e e' \<Longrightarrow> same_shape e' e'' \<Longrightarrow> same_shape e e''"
  by (auto simp: same_shape_def)

lemma send_to_shape: "same_shape e (fst (send_to event e))"
  by (auto simp: same_shape_def send_to_def try_send_def within_capacity_def Let_def
      split: subscriber_kind.splits)

lemma advance_cursor_shape: "same_shape e (advance_cursor event e)"
  by (auto simp: same_shape_def advance_cursor_def within_capacity_def Let_def
      split: subscriber_kind.splits)

lemma post_commit_call_shape: "same_shape e (post_commit_call event e)"
proof -
  obtain e' r where "send_to event e = (e', r)" by fastforce
  with send_to_shape [of e event] have "same_shape e e'" "post_commit_call event e =
      (if r = Some Sent then advance_cursor event e' else e')"
    by (simp_all add: post_commit_call_def)
  then show ?thesis using same_shape_trans advance_cursor_shape by simp
qed

lemma sync_call_shape: "same_shape e (fst (sync_call event e))"
  by (auto simp: same_shape_def sync_call_def Let_def)

lemma handler_shapes: "same_shape e (handler_take e)" "same_shape e (handler_wait e)"
  by (auto simp: same_shape_def handler_take_def handler_wait_def within_capacity_def Let_def
      split: subscriber_kind.splits list.splits)

text \<open>The registry keeps its entries and their shape.\<close>

definition registry_evolves :: "registry \<Rightarrow> registry \<Rightarrow> bool" where
  "registry_evolves rg rg' \<longleftrightarrow> rg_next_id rg' = rg_next_id rg \<and>
     map fst (rg_entries rg') = map fst (rg_entries rg) \<and>
     (\<forall>k e. map_of (rg_entries rg) k = Some e \<longrightarrow>
        (\<exists>e'. map_of (rg_entries rg') k = Some e' \<and> same_shape e e'))"

lemma registry_evolves_refl [simp]: "registry_evolves rg rg"
  by (simp add: registry_evolves_def)

lemma registry_evolves_trans:
  "registry_evolves rg rg' \<Longrightarrow> registry_evolves rg' rg'' \<Longrightarrow> registry_evolves rg rg''"
  unfolding registry_evolves_def using same_shape_trans by fastforce

lemma map_of_map_entries: "map_of (map (\<lambda>(i, e). (i, g i e)) xs) k = map_option (g k) (map_of xs k)"
  by (induction xs) auto

lemma map_entries_evolves:
  assumes "\<And>i e. same_shape e (g i e)"
  shows "registry_evolves rg (rg\<lparr>rg_entries := map (\<lambda>(i, e). (i, g i e)) (rg_entries rg)\<rparr>)"
  using assms by (auto simp: registry_evolves_def map_of_map_entries o_def split_beta)

lemma dispatches_evolve:
  "registry_evolves rg (fst (dispatch_sync event rg))"
  "registry_evolves rg (fst (dispatch_post_commit event rg))"
  "registry_evolves rg (update_entry handler_take k rg)"
  "registry_evolves rg (update_entry handler_wait k rg)"
  by (simp_all add: dispatch_sync_def dispatch_post_commit_def update_entry_def map_entries_evolves
      sync_call_shape post_commit_call_shape handler_shapes)

lemma dispatch_outcome_evolves: "registry_evolves rg (fst (dispatch_outcome has a out rg))"
  using dispatches_evolve(1) [of rg "build_stored_event out a"]
  by (cases "dispatch_sync (build_stored_event out a) rg") (simp add: dispatch_outcome_def Let_def)

lemma dispatch_outcomes_evolve: "registry_evolves rg (fst (dispatch_outcomes has outs rg))"
proof (induction outs arbitrary: rg)
  case (Cons x outs)
  obtain out a where x: "x = (out, a)" by fastforce
  obtain rg1 es ds where 1: "dispatch_outcome has a out rg = (rg1, es, ds)" by (rule prod_cases3)
  obtain rg2 es' ds' where 2: "dispatch_outcomes has outs rg1 = (rg2, es', ds')" by (rule prod_cases3)
  show ?case
    using dispatch_outcome_evolves [of rg has a out] Cons.IH [of rg1] registry_evolves_trans
    by (simp add: x 1 2)
qed simp

lemma after_commit_registry:
  "so_registry (after_commit d' x (noting_write now) st) = fst x"
  "so_registry (after_commit d' x id st) = fst x"
  by (cases x; simp add: after_commit_def set_db_def)+

lemma appends_evolve:
  "registry_evolves (so_registry st) (so_registry (fst (store_append L now now2 a st)))"
  "registry_evolves (so_registry st) (so_registry (fst (store_append_batch L now2 appends st)))"
  by (auto simp: store_append_def store_append_batch_def after_commit_registry Let_def
      dispatch_outcome_evolves dispatch_outcomes_evolve split: sum.splits prod.splits)

lemma dispatcher_evolves:
  "registry_evolves (so_registry st) (so_registry (dispatcher_turn L clock st))"
proof (cases "so_channel st")
  case (Cons event channel)
  then show ?thesis
    using dispatches_evolve(2) [of "so_registry st" event]
    by (cases "dispatch_post_commit event (so_registry st)")
      (simp add: dispatcher_turn_def set_db_def)
qed (simp add: dispatcher_turn_def)

section \<open>The runs of an application\<close>

text \<open>
  The store may have subscribers of the application besides; the application drops its own
  handles only. Fewer than \<open>2 ^ 64\<close> subscriptions are made, so the counter does not wrap around.
\<close>

definition registry_sound :: "registry \<Rightarrow> bool" where
  "registry_sound rg \<longleftrightarrow> distinct (map fst (rg_entries rg)) \<and>
     (\<forall>k \<in> fst ` set (rg_entries rg). k < rg_next_id rg)"

definition app_handles :: "tauri_app \<Rightarrow> u64 set" where
  "app_handles app = sm_handle ` ran (map_of (ta_subs app))"

abbreviation with_store :: "(store \<Rightarrow> store) \<Rightarrow> tauri_app \<Rightarrow> tauri_app" where
  "with_store f app \<equiv> app\<lparr>ta_store := f (ta_store app)\<rparr>"

abbreviation counter_left :: "tauri_app \<Rightarrow> bool" where
  "counter_left app \<equiv> rg_next_id (so_registry (ta_store app)) < - 1"

inductive app_run :: "libs \<Rightarrow> tauri_app \<Rightarrow> bool" for L where
  run_start: "registry_sound (so_registry st) \<Longrightarrow> app_run L (plugin st)"
| run_subscribe: "app_run L app \<Longrightarrow> counter_left app \<Longrightarrow>
    app_run L (fst (fossic_subscribe i pattern branch sys size0 app))"
| run_unsubscribe: "app_run L app \<Longrightarrow> app_run L (fossic_unsubscribe i app)"
| run_own_subscribe: "app_run L app \<Longrightarrow> counter_left app \<Longrightarrow>
    app_run L (with_store (fst \<circ> store_subscribe q mode h) app)"
| run_own_unsubscribe: "app_run L app \<Longrightarrow> k \<notin> app_handles app \<Longrightarrow>
    app_run L (with_store (store_unsubscribe k) app)"
| run_append: "app_run L app \<Longrightarrow> app_run L (with_store (fst \<circ> store_append L now now2 a) app)"
| run_append_batch: "app_run L app \<Longrightarrow>
    app_run L (with_store (fst \<circ> store_append_batch L now2 appends) app)"
| run_dispatch: "app_run L app \<Longrightarrow> app_run L (with_store (dispatcher_turn L clock) app)"
| run_take: "app_run L app \<Longrightarrow>
    app_run L (with_store (\<lambda>st. st\<lparr>so_registry := update_entry handler_take k (so_registry st)\<rparr>) app)"
| run_wait: "app_run L app \<Longrightarrow>
    app_run L (with_store (\<lambda>st. st\<lparr>so_registry := update_entry handler_wait k (so_registry st)\<rparr>) app)"

section \<open>The invariant\<close>

definition tracked :: "registry \<Rightarrow> subscription_entry \<Rightarrow> bool" where
  "tracked rg s \<longleftrightarrow> (\<exists>e pc. map_of (rg_entries rg) (sm_handle s) = Some e \<and>
     se_stream_pattern e = sm_stream_pattern s \<and> se_branch e = sm_branch s \<and>
     se_kind e = PostCommit pc \<and> within_capacity pc)"

definition subs_ok :: "tauri_app \<Rightarrow> bool" where
  "subs_ok app \<longleftrightarrow> registry_sound (so_registry (ta_store app)) \<and> distinct (map fst (ta_subs app)) \<and>
     (\<forall>i s. map_of (ta_subs app) i = Some s \<longrightarrow> tracked (so_registry (ta_store app)) s) \<and>
     (\<forall>i j s s'. map_of (ta_subs app) i = Some s \<longrightarrow> map_of (ta_subs app) j = Some s' \<longrightarrow>
        sm_handle s = sm_handle s' \<longrightarrow> i = j)"

lemma tracked_evolves: "registry_evolves rg rg' \<Longrightarrow> tracked rg s \<Longrightarrow> tracked rg' s"
  unfolding tracked_def registry_evolves_def same_shape_def by metis

lemma registry_sound_evolves: "registry_evolves rg rg' \<Longrightarrow> registry_sound rg \<Longrightarrow> registry_sound rg'"
  unfolding registry_sound_def registry_evolves_def by (metis list.set_map)

lemma subs_ok_evolves:
  assumes "subs_ok app" and "registry_evolves (so_registry (ta_store app)) (so_registry (f (ta_store app)))"
  shows "subs_ok (with_store f app)"
  using assms tracked_evolves registry_sound_evolves unfolding subs_ok_def by fastforce


text \<open>A new entry of the registry, and a dropped one.\<close>

lemma update_fresh: "k \<notin> fst ` set xs \<Longrightarrow> AList.update k v xs = xs @ [(k, v)]"
  by (induction xs) auto

lemma subscribe_registry:
  assumes "registry_sound (so_registry st)" and "rg_next_id (so_registry st) < - 1"
    and "store_subscribe q mode h st = (st', k)"
  obtains c cs where "k = rg_next_id (so_registry st)"
    and "rg_next_id (so_registry st') = k + 1"
    and "rg_entries (so_registry st') = rg_entries (so_registry st) @ [(k, new_entry q mode c cs h)]"
    and "k \<notin> fst ` set (rg_entries (so_registry st))"
    and "registry_sound (so_registry st')"
proof -
  let ?rg = "so_registry st"
  let ?k = "rg_next_id ?rg"
  have fresh: "?k \<notin> fst ` set (rg_entries ?rg)" using assms(1) by (auto simp: registry_sound_def)
  with assms(3) obtain c cs where new: "k = ?k" "rg_next_id (so_registry st') = k + 1"
    "rg_entries (so_registry st') = rg_entries ?rg @ [(k, new_entry q mode c cs h)]"
    by (auto simp: store_subscribe_def registry_subscribe_def update_fresh Let_def split: if_splits)
  have lt: "x < ?k + 1 \<longleftrightarrow> x \<le> ?k" for x
    using assms(2) by unat_arith
  have "registry_sound (so_registry st')"
    using assms(1) fresh new lt by (auto simp: registry_sound_def)
  with that new fresh show ?thesis by blast
qed


lemma tracked_grow:
  "tracked rg s \<Longrightarrow> rg_entries rg' = rg_entries rg @ xs \<Longrightarrow> tracked rg' s"
  by (auto simp: tracked_def map_add_def)

lemma tracked_unsubscribe:
  "tracked rg s \<Longrightarrow> sm_handle s \<noteq> k \<Longrightarrow> tracked (registry_unsubscribe k rg) s"
  by (auto simp: tracked_def registry_unsubscribe_def AList.delete_conv')

lemma registry_sound_unsubscribe: "registry_sound rg \<Longrightarrow> registry_sound (registry_unsubscribe k rg)"
  by (auto simp: registry_sound_def registry_unsubscribe_def AList.delete_eq distinct_map_filter)

lemma subs_okD:
  assumes "subs_ok app"
  shows "registry_sound (so_registry (ta_store app))"
    and "map_of (ta_subs app) i = Some s \<Longrightarrow> tracked (so_registry (ta_store app)) s"
    and "map_of (ta_subs app) i = Some s \<Longrightarrow> map_of (ta_subs app) j = Some s' \<Longrightarrow>
      sm_handle s = sm_handle s' \<Longrightarrow> i = j"
    and "distinct (map fst (ta_subs app))"
  using assms unfolding subs_ok_def by blast+

lemma in_app_handles: "map_of (ta_subs app) i = Some s \<Longrightarrow> sm_handle s \<in> app_handles app"
  by (auto simp: app_handles_def ran_def)

lemma app_handles_registered:
  assumes "subs_ok app" and "k \<in> app_handles app"
  shows "k \<in> fst ` set (rg_entries (so_registry (ta_store app)))"
proof -
  from assms(2) obtain i s where "map_of (ta_subs app) i = Some s" "k = sm_handle s"
    by (auto simp: app_handles_def ran_def)
  with subs_okD(2) [OF assms(1)] obtain e where "map_of (rg_entries (so_registry (ta_store app))) k = Some e"
    unfolding tracked_def by blast
  then show ?thesis by (metis domI dom_map_of_conv_image_fst)
qed

lemma subs_okI:
  assumes "registry_sound (so_registry (ta_store app))" and "distinct (map fst (ta_subs app))"
    and "\<And>i s. map_of (ta_subs app) i = Some s \<Longrightarrow> tracked (so_registry (ta_store app)) s"
    and "\<And>i j s s'. map_of (ta_subs app) i = Some s \<Longrightarrow> map_of (ta_subs app) j = Some s' \<Longrightarrow>
      sm_handle s = sm_handle s' \<Longrightarrow> i = j"
  shows "subs_ok app"
  using assms unfolding subs_ok_def by blast

lemma unsubscribe_other_ok:
  assumes "subs_ok app" and "k \<notin> app_handles app"
  shows "subs_ok (with_store (store_unsubscribe k) app)"
proof (rule subs_okI)
  fix i s
  assume "map_of (ta_subs (with_store (store_unsubscribe k) app)) i = Some s"
  then have s: "map_of (ta_subs app) i = Some s" by simp
  then have "sm_handle s \<noteq> k" using in_app_handles assms(2) by blast
  then show "tracked (so_registry (ta_store (with_store (store_unsubscribe k) app))) s"
    using subs_okD(2) [OF assms(1) s] by (simp add: store_unsubscribe_def tracked_unsubscribe)
qed (use subs_okD [OF assms(1)] registry_sound_unsubscribe in \<open>auto simp: store_unsubscribe_def\<close>)

text \<open>Removing an entry, and the store without its handle.\<close>

lemma map_remove_simps:
  "map_of (ta_subs (map_remove i app)) = (map_of (ta_subs app))(i := None)"
  "ta_store (map_remove i app) = (case map_of (ta_subs app) i of
     None \<Rightarrow> ta_store app | Some s \<Rightarrow> store_unsubscribe (sm_handle s) (ta_store app))"
  by (auto simp: map_remove_def drop_entry_def AList.delete_conv' split: option.splits)

lemma map_remove_ok:
  assumes ok: "subs_ok app"
  shows "subs_ok (map_remove i app)"
proof (rule subs_okI)
  show "registry_sound (so_registry (ta_store (map_remove i app)))"
    using subs_okD(1) [OF ok]
    by (simp add: map_remove_simps store_unsubscribe_def registry_sound_unsubscribe split: option.split)
  show "distinct (map fst (ta_subs (map_remove i app)))"
    using subs_okD(4) [OF ok] by (simp add: map_remove_def distinct_delete)
next
  fix j s
  assume s: "map_of (ta_subs (map_remove i app)) j = Some s"
  then have j: "map_of (ta_subs app) j = Some s" "j \<noteq> i"
    by (simp_all add: map_remove_simps split: if_splits)
  then have "sm_handle s \<noteq> sm_handle s'" if "map_of (ta_subs app) i = Some s'" for s'
    using subs_okD(3) [OF ok j(1) that] by blast
  then show "tracked (so_registry (ta_store (map_remove i app))) s"
    using subs_okD(2) [OF ok j(1)]
    by (simp add: map_remove_simps store_unsubscribe_def tracked_unsubscribe split: option.split)
next
  fix j l s s'
  assume "map_of (ta_subs (map_remove i app)) j = Some s"
    and "map_of (ta_subs (map_remove i app)) l = Some s'" and "sm_handle s = sm_handle s'"
  then show "j = l"
    using subs_okD(3) [OF ok] by (simp add: map_remove_simps split: if_splits)
qed

text \<open>Inserting one drops what was there under its key.\<close>

lemma map_insert_simps:
  "map_of (ta_subs (map_insert i entry app)) = (map_of (ta_subs app))(i \<mapsto> entry)"
  "ta_store (map_insert i entry app) = ta_store (map_remove i app)"
  by (simp_all add: map_insert_def map_remove_def AList.update_conv')

lemma map_insert_ok:
  assumes ok: "subs_ok app" and new: "tracked (so_registry (ta_store app)) entry"
    and fresh: "sm_handle entry \<notin> app_handles app"
  shows "subs_ok (map_insert i entry app)"
proof (rule subs_okI)
  have ok': "subs_ok (map_remove i app)" by (rule map_remove_ok [OF ok])
  show "registry_sound (so_registry (ta_store (map_insert i entry app)))"
    using subs_okD(1) [OF ok'] by (simp only: map_insert_simps)
  show "distinct (map fst (ta_subs (map_insert i entry app)))"
    using subs_okD(4) [OF ok] by (simp add: map_insert_def distinct_update)
  fix j s
  assume s: "map_of (ta_subs (map_insert i entry app)) j = Some s"
  show "tracked (so_registry (ta_store (map_insert i entry app))) s"
  proof (cases "j = i")
    case True
    then have "s = entry" using s by (simp add: map_insert_simps)
    moreover have "sm_handle entry \<noteq> sm_handle s'" if "map_of (ta_subs app) i = Some s'" for s'
      using fresh in_app_handles [OF that] by auto
    ultimately show ?thesis
      using new
      by (simp add: map_insert_simps map_remove_simps store_unsubscribe_def tracked_unsubscribe
          split: option.split)
  next
    case False
    then have "map_of (ta_subs (map_remove i app)) j = Some s"
      using s by (simp add: map_insert_simps map_remove_simps)
    from subs_okD(2) [OF ok' this] show ?thesis by (simp only: map_insert_simps)
  qed
next
  fix j l s s'
  assume "map_of (ta_subs (map_insert i entry app)) j = Some s"
    and "map_of (ta_subs (map_insert i entry app)) l = Some s'" and "sm_handle s = sm_handle s'"
  then show "j = l"
    using subs_okD(3) [OF ok, of j s l s'] in_app_handles [of app j s] in_app_handles [of app l s'] fresh
    by (simp add: map_insert_simps split: if_splits)
qed

lemma own_subscribe_ok:
  assumes ok: "subs_ok app" and "counter_left app" and sub: "store_subscribe q mode h (ta_store app) = (st', k)"
  shows "subs_ok (app\<lparr>ta_store := st'\<rparr>) \<and> k \<notin> app_handles app \<and>
    (\<exists>c cs. map_of (rg_entries (so_registry st')) k = Some (new_entry q mode c cs h))"
proof -
  obtain c cs where new: "rg_entries (so_registry st') = rg_entries (so_registry (ta_store app)) @
      [(k, new_entry q mode c cs h)]" "k \<notin> fst ` set (rg_entries (so_registry (ta_store app)))"
      "registry_sound (so_registry st')"
    by (rule subscribe_registry [OF subs_okD(1) [OF ok] assms(2) sub])
  have "subs_ok (app\<lparr>ta_store := st'\<rparr>)"
    by (rule subs_okI) (use subs_okD [OF ok] new(3) tracked_grow [OF _ new(1)] in auto)
  moreover have "map_of (rg_entries (so_registry (ta_store app))) k = None"
    using new(2) by (simp add: map_of_eq_None_iff)
  ultimately show ?thesis
    using new app_handles_registered [OF ok] by (auto simp: map_add_def)
qed


lemma fossic_subscribe_ok:
  assumes ok: "subs_ok app" and "counter_left app"
  shows "subs_ok (fst (fossic_subscribe i pattern branch sys size0 app))"
proof -
  let ?q = "\<lparr>sq_stream_pattern = pattern, sq_branch = main_unless branch,
    sq_include_system = (case sys of None \<Rightarrow> False | Some b \<Rightarrow> b)\<rparr>"
  and ?mode = "ModePostCommit (case size0 of None \<Rightarrow> 1024 | Some n \<Rightarrow> n)"
  obtain st' k where sub: "store_subscribe ?q ?mode emit_handler (ta_store app) = (st', k)" by fastforce
  note own = own_subscribe_ok [OF ok assms(2) sub]
  let ?entry = "\<lparr>sm_handle = k, sm_stream_pattern = pattern, sm_branch = main_unless branch\<rparr>"
  have "tracked (so_registry st') ?entry"
    using own by (auto simp: tracked_def new_entry_def within_capacity_def)
  with own have "subs_ok (map_insert i ?entry (app\<lparr>ta_store := st'\<rparr>))"
    by (intro map_insert_ok) (simp_all add: app_handles_def)
  then show ?thesis by (simp add: fossic_subscribe_def Let_def sub)
qed

lemma app_run_ok: "app_run L app \<Longrightarrow> subs_ok app"
proof (induction rule: app_run.induct)
  case (run_start st)
  then show ?case by (simp add: subs_ok_def plugin_def)
next
  case (run_subscribe app i pattern branch sys size0)
  then show ?case by (intro fossic_subscribe_ok)
next
  case (run_unsubscribe app i)
  then show ?case by (simp add: fossic_unsubscribe_def map_remove_ok)
next
  case (run_own_subscribe app q mode h)
  obtain st' k where "store_subscribe q mode h (ta_store app) = (st', k)" by fastforce
  from own_subscribe_ok [OF run_own_subscribe.IH run_own_subscribe.hyps(2) this] this
  show ?case by simp
qed (auto intro!: subs_ok_evolves unsubscribe_other_ok simp: appends_evolve dispatcher_evolves
    dispatches_evolve)

section \<open>What the front end sees\<close>

text \<open>
  C16. Whatever the front end, the application and the threads of the store do, every subscription
  that \<open>fossic_list_subscribers\<close> lists is registered in the store with the pattern and the branch
  shown, and the degradation, queue depth and capacity shown are those of its queue, which never
  holds more than its capacity (one event in hand-over for capacity zero).
\<close>

theorem listed_subscriptions_registered:
  assumes "app_run L app" and "snap \<in> set (fossic_list_subscribers app)"
  shows "\<exists>k e pc. map_of (rg_entries (so_registry (ta_store app))) k = Some e \<and>
    se_stream_pattern e = sp_stream_pattern snap \<and> se_branch e = sp_branch snap \<and>
    se_kind e = PostCommit pc \<and> sp_degraded snap = se_degraded e \<and>
    sp_queue_depth snap = Some (length (pc_queue pc)) \<and> sp_queue_capacity snap = Some (pc_capacity pc) \<and>
    length (pc_queue pc) \<le> max 1 (pc_capacity pc)"
proof -
  have ok: "subs_ok app" by (rule app_run_ok [OF assms(1)])
  from assms(2) obtain i s where "(i, s) \<in> set (ta_subs app)"
    and snap: "snap = subscriber_snapshot_of (so_registry (ta_store app)) i s"
    by (auto simp: fossic_list_subscribers_def snapshot_all_def)
  then have "map_of (ta_subs app) i = Some s" using subs_okD(4) [OF ok] by simp
  from subs_okD(2) [OF ok this] obtain e pc
    where e: "map_of (rg_entries (so_registry (ta_store app))) (sm_handle s) = Some e"
      "se_stream_pattern e = sm_stream_pattern s" "se_branch e = sm_branch s"
      "se_kind e = PostCommit pc" "within_capacity pc"
    unfolding tracked_def by blast
  then show ?thesis
    by (intro exI [of _ "sm_handle s"] exI [of _ e] exI [of _ pc])
      (simp add: snap subscriber_snapshot_of_def handle_is_degraded_def handle_queue_depth_def
        handle_queue_capacity_def queue_info_def within_capacity_def)
qed

definition demo_subscribed :: tauri_app where
  "demo_subscribed = fst (fossic_subscribe ''u'' ''a/b'' None None (Some 8) (plugin
     \<lparr>so_state = demo_store, so_transforms = [], so_upcasters = (\<lambda>_. None),
      so_branch_cache = (\<lambda>_. None), so_registry = registry_new, so_channel = [],
      so_sync_degraded = [], so_high_water = 0, so_quiescence = quiescence_new 0\<rparr>))"

theorem listed_subscriptions_registered_witness:
  "\<exists>snap k e. fossic_list_subscribers demo_subscribed = [snap] \<and>
     map_of (rg_entries (so_registry (ta_store demo_subscribed))) k = Some e \<and>
     se_stream_pattern e = sp_stream_pattern snap"
proof -
  have "(1 :: u64) < - 1" by code_simp
  then have "app_run demo_libs demo_subscribed"
    unfolding demo_subscribed_def
    by (intro run_subscribe run_start) (simp_all add: registry_sound_def registry_new_def plugin_def)
  note listed = listed_subscriptions_registered [OF this]
  have "length (fossic_list_subscribers demo_subscribed) = 1"
    by (simp add: demo_subscribed_def fossic_list_subscribers_def snapshot_all_def
        fossic_subscribe_def map_insert_def drop_entry_def plugin_def split_beta Let_def)
  then obtain snap where "fossic_list_subscribers demo_subscribed = [snap]"
    by (auto simp: length_Suc_conv)
  with listed [of snap] show ?thesis by auto
qed

text \<open>After it is unsubscribed, nothing is registered under its handle and its status is inactive.\<close>

theorem unsubscribed_is_gone:
  assumes "map_of (ta_subs app) i = Some s"
  shows "sm_handle s \<notin> fst ` set (rg_entries (so_registry (ta_store (fossic_unsubscribe i app)))) \<and>
    snapshot_one (fossic_unsubscribe i app) i = None"
  using assms
  by (auto simp: fossic_unsubscribe_def map_remove_simps snapshot_one_def store_unsubscribe_def
      registry_unsubscribe_def AList.delete_eq)

end
