(* ===== verification/Node_Types.thy ===== *)
theory Node_Types
  imports Tauri_Types
begin

text \<open>
  The values of the Node binding (\<open>fossic-node/src/types.rs\<close>): identities, events, appends,
  queries, options and outcomes as JavaScript sees them, and their conversions.

  A JavaScript \<open>BigInt\<close> is an integer. Its conversion \<open>get_u64\<close> is a function of the napi library
  and a parameter of the model: it gives the sign, the low 64 bits of the absolute value and
  whether nothing was lost.
\<close>

section \<open>Library and errors\<close>

record napi_lib =
  get_u64 :: "int \<Rightarrow> bool \<times> u64 \<times> bool"

definition napi_ok :: "napi_lib \<Rightarrow> bool" where
  "napi_ok N \<longleftrightarrow> (\<forall>v. get_u64 N v = (v < 0, word_of_int \<bar>v\<bar>, \<bar>v\<bar> < 2 ^ 64))"

datatype node_status = InvalidArg | GenericFailure

datatype node_message =
    NodeErrorText error
  | IdLength nat
  | UnknownEncryption string
  | UnknownFirstOpen string
  | NodeUnknownDirection string

datatype node_error = NodeError node_status node_message

definition generic_failure :: "error \<Rightarrow> node_error" where
  "generic_failure e = NodeError GenericFailure (NodeErrorText e)"

definition invalid_arg :: "error \<Rightarrow> node_error" where
  "invalid_arg e = NodeError InvalidArg (NodeErrorText e)"

section \<open>Identities\<close>

text \<open>The class \<open>EventId\<close> wraps an identity.\<close>

definition node_event_id_new :: "bytes \<Rightarrow> node_error + event_id" where
  "node_event_id_new bytes =
     (if length bytes \<noteq> 32 then Inl (NodeError InvalidArg (IdLength (length bytes)))
      else Inr (EventId bytes))"

definition node_event_id_from_hex :: "string \<Rightarrow> node_error + event_id" where
  "node_event_id_from_hex s = map_err invalid_arg (from_hex s)"

definition node_event_id_to_hex :: "event_id \<Rightarrow> string" where
  "node_event_id_to_hex i = to_hex i"

definition node_event_id_to_bytes :: "event_id \<Rightarrow> bytes" where
  "node_event_id_to_bytes i = id_bytes i"

section \<open>Events and appends\<close>

record stored_event_js =
  ej_id :: string
  ej_stream_id :: string
  ej_branch :: string
  ej_version :: int
  ej_timestamp_us :: i64
  ej_causation_id :: "string option"
  ej_correlation_id :: "string option"
  ej_event_type :: string
  ej_type_version :: u32
  ej_payload :: json
  ej_external_id :: "string option"
  ej_indexed_tags :: "json option"

definition stored_event_to_js :: "libs \<Rightarrow> stored_event \<Rightarrow> stored_event_js" where
  "stored_event_to_js L e =
     \<lparr>ej_id = to_hex (ev_id e), ej_stream_id = ev_stream_id e, ej_branch = ev_branch e,
      ej_version = uint (ev_version e), ej_timestamp_us = ev_timestamp_us e,
      ej_causation_id = map_option to_hex (ev_causation_id e),
      ej_correlation_id = map_option to_hex (ev_correlation_id e),
      ej_event_type = ev_event_type e, ej_type_version = ev_type_version e,
      ej_payload = (case deserialize_payload_json L e of Inl _ \<Rightarrow> JNull | Inr j \<Rightarrow> j),
      ej_external_id = ev_external_id e, ej_indexed_tags = ev_indexed_tags e\<rparr>"

record append_js =
  aj_stream_id :: string
  aj_event_type :: string
  aj_payload :: json
  aj_type_version :: "u32 option"
  aj_causation_id :: "string option"
  aj_correlation_id :: "string option"
  aj_external_id :: "string option"
  aj_indexed_tags :: "json option"

text \<open>\<open>Option::map\<close> followed by \<open>transpose\<close>.\<close>

definition hex_option :: "string option \<Rightarrow> node_error + event_id option" where
  "hex_option h =
     (case h of None \<Rightarrow> Inr None
      | Some s \<Rightarrow> map_err invalid_arg (bind_res (from_hex s) (\<lambda>i. Inr (Some i))))"

definition append_from_js :: "append_js \<Rightarrow> node_error + append_req" where
  "append_from_js js =
     bind_res (hex_option (aj_causation_id js)) (\<lambda>causation_id.
     bind_res (hex_option (aj_correlation_id js)) (\<lambda>correlation_id.
       Inr (append_default
         \<lparr>a_stream_id := aj_stream_id js, a_event_type := aj_event_type js,
          a_payload := aj_payload js,
          a_type_version := (case aj_type_version js of None \<Rightarrow> 1 | Some v \<Rightarrow> v),
          a_causation_id := causation_id, a_correlation_id := correlation_id,
          a_external_id := aj_external_id js, a_indexed_tags := aj_indexed_tags js\<rparr>)))"

section \<open>Queries and information\<close>

record read_query_js =
  qj_stream_id :: string
  qj_branch :: "string option"
  qj_from_version :: "int option"
  qj_to_version :: "int option"
  qj_limit :: "u32 option"
  qj_event_type_filter :: "string option"

text \<open>\<open>v.get_u64().1\<close>: the sign and the flag are not looked at.\<close>

definition big_u64 :: "napi_lib \<Rightarrow> int \<Rightarrow> u64" where
  "big_u64 N v = fst (snd (get_u64 N v))"

definition read_query_from_js :: "napi_lib \<Rightarrow> read_query_js \<Rightarrow> read_query" where
  "read_query_from_js N js =
     (let q = read_query_stream (qj_stream_id js);
          q = (case qj_branch js of None \<Rightarrow> q | Some b \<Rightarrow> q\<lparr>q_branch := b\<rparr>);
          q = (case qj_from_version js of None \<Rightarrow> q
               | Some v \<Rightarrow> q\<lparr>q_from_version := Some (big_u64 N v)\<rparr>);
          q = (case qj_to_version js of None \<Rightarrow> q
               | Some v \<Rightarrow> q\<lparr>q_to_version := Some (big_u64 N v)\<rparr>);
          q = (case qj_limit js of None \<Rightarrow> q | Some n \<Rightarrow> q\<lparr>q_limit := Some (ucast n)\<rparr>)
      in (case qj_event_type_filter js of None \<Rightarrow> q | Some f \<Rightarrow> q\<lparr>q_event_type_filter := Some f\<rparr>))"

record stream_info_js =
  sij_id :: string
  sij_declared_by :: string
  sij_declared_at :: i64
  sij_description :: "string option"

definition stream_info_to_js :: "stream_info \<Rightarrow> stream_info_js" where
  "stream_info_to_js s =
     \<lparr>sij_id = si_id s, sij_declared_by = si_declared_by s, sij_declared_at = si_declared_at s,
      sij_description = si_description s\<rparr>"

record branch_info_js =
  bij_id :: string
  bij_stream_id :: string
  bij_parent_id :: string
  bij_parent_version :: int
  bij_description :: "string option"
  bij_created_at :: i64
  bij_lifecycle :: string
  bij_closed_at :: "i64 option"
  bij_closed_reason :: "string option"

definition branch_info_to_js :: "branch_info \<Rightarrow> branch_info_js" where
  "branch_info_to_js b =
     \<lparr>bij_id = bi_id b, bij_stream_id = bi_stream_id b, bij_parent_id = bi_parent_id b,
      bij_parent_version = uint (bi_parent_version b), bij_description = bi_description b,
      bij_created_at = bi_created_at b, bij_lifecycle = bi_lifecycle b,
      bij_closed_at = bi_closed_at b, bij_closed_reason = bi_closed_reason b\<rparr>"

record snapshot_info_js =
  snj_stream_id :: string
  snj_branch :: string
  snj_version :: int
  snj_reducer_name :: string
  snj_reducer_version :: u32
  snj_state_schema_version :: u32
  snj_created_at :: i64

definition snapshot_info_to_js :: "snapshot_info \<Rightarrow> snapshot_info_js" where
  "snapshot_info_to_js s =
     \<lparr>snj_stream_id = sn_stream_id s, snj_branch = sn_branch s, snj_version = uint (sn_version s),
      snj_reducer_name = sn_reducer_name s, snj_reducer_version = sn_reducer_version s,
      snj_state_schema_version = sn_state_schema_version s, snj_created_at = sn_created_at s\<rparr>"

record create_branch_js =
  cj_stream_id :: string
  cj_branch_id :: string
  cj_parent_id :: "string option"
  cj_parent_version :: int
  cj_description :: "string option"

definition create_branch_from_js :: "napi_lib \<Rightarrow> create_branch_js \<Rightarrow> create_branch_req" where
  "create_branch_from_js N js =
     \<lparr>cb_stream_id = cj_stream_id js, cb_branch_id = cj_branch_id js,
      cb_parent_id = (case cj_parent_id js of None \<Rightarrow> ''main'' | Some p \<Rightarrow> p),
      cb_parent_version = big_u64 N (cj_parent_version js),
      cb_description = cj_description js, cb_alternatives = None\<rparr>"

section \<open>Options, sampling and outcomes\<close>

record open_options_js =
  oj_encryption :: "string option"
  oj_checkpoint_mode :: "string option"
  oj_on_first_open :: "string option"
  oj_default_max_results :: "u32 option"
  oj_default_max_bytes :: "u32 option"

definition parse_open_options :: "open_options_js option \<Rightarrow> node_error + open_options" where
  "parse_open_options js0 =
     (case js0 of
        None \<Rightarrow> Inr open_options_default
      | Some js \<Rightarrow>
          bind_res
            (case oj_encryption js of
               None \<Rightarrow> Inr open_options_default
             | Some enc \<Rightarrow>
                 if enc = ''plaintext'' then Inr (open_options_default\<lparr>opt_encryption := Plaintext\<rparr>)
                 else Inl (NodeError InvalidArg (UnknownEncryption enc))) (\<lambda>opts.
          bind_res
            (case oj_on_first_open js of
               None \<Rightarrow> Inr opts
             | Some policy \<Rightarrow>
                 if policy = ''create_if_missing'' then Inr (opts\<lparr>opt_on_first_open := CreateIfMissing\<rparr>)
                 else if policy = ''fail_if_not_found'' then Inr (opts\<lparr>opt_on_first_open := RequireExisting\<rparr>)
                 else Inl (NodeError InvalidArg (UnknownFirstOpen policy))) (\<lambda>opts.
          let opts = (case oj_default_max_results js of None \<Rightarrow> opts
                      | Some n \<Rightarrow> opts\<lparr>opt_default_max_results := Some (unat n)\<rparr>)
          in Inr (case oj_default_max_bytes js of None \<Rightarrow> opts
                  | Some n \<Rightarrow> opts\<lparr>opt_default_max_bytes := Some (unat n)\<rparr>))))"

record sampling_mode_js =
  mj_kind :: string
  mj_max_per_level :: "u32 option"
  mj_target_count :: "u32 option"

definition or_hundred :: "u32 option \<Rightarrow> nat" where
  "or_hundred n = (case n of None \<Rightarrow> 100 | Some k \<Rightarrow> unat k)"

definition sampling_mode_from_js :: "sampling_mode_js option \<Rightarrow> sampling_mode" where
  "sampling_mode_from_js js =
     (case js of
        None \<Rightarrow> Exhaustive
      | Some s \<Rightarrow>
          if mj_kind s = ''breadthFirst'' then BreadthFirst (or_hundred (mj_max_per_level s))
          else if mj_kind s = ''adaptive'' then Adaptive (or_hundred (mj_target_count s))
          else Exhaustive)"

definition node_parse_direction :: "string \<Rightarrow> node_error + walk_direction" where
  "node_parse_direction s =
     (if s = ''forward'' \<or> s = ''Forward'' then Inr Forward
      else if s = ''backward'' \<or> s = ''Backward'' then Inr Backward
      else if s = ''both'' \<or> s = ''Both'' then Inr Both
      else Inl (NodeError InvalidArg (NodeUnknownDirection s)))"

record read_outcome_js =
  roj_kind :: string
  roj_results :: "stored_event_js list"
  roj_reason :: "string option"
  roj_next_cursor :: "bytes option"

definition outcome_to_js :: "libs \<Rightarrow> stored_event list read_outcome \<Rightarrow> read_outcome_js" where
  "outcome_to_js L outcome =
     (case outcome of
        Complete events \<Rightarrow>
          \<lparr>roj_kind = ''complete'', roj_results = map (stored_event_to_js L) events,
           roj_reason = None, roj_next_cursor = None\<rparr>
      | Truncated data cursor reason \<Rightarrow>
          \<lparr>roj_kind = ''truncated'', roj_results = map (stored_event_to_js L) data,
           roj_reason = Some (reason_text reason),
           roj_next_cursor = map_option cursor_bytes cursor\<rparr>)"

record subscribe_query_js =
  uj_stream_pattern :: string
  uj_branch :: "string option"
  uj_include_system :: "bool option"
  uj_queue_size :: "u32 option"

text \<open>The class \<open>TruncationCursor\<close> is the bytes of a cursor.\<close>

definition node_cursor_to_bytes :: "truncation_cursor \<Rightarrow> bytes" where
  "node_cursor_to_bytes c = cursor_bytes c"

definition node_cursor_from_bytes :: "bytes \<Rightarrow> truncation_cursor" where
  "node_cursor_from_bytes buf = TruncationCursor buf"

section \<open>Versions and cursors cross the boundary unchanged\<close>

text \<open>A version that was returned can be sent back; a negative \<open>BigInt\<close> is read without its sign.\<close>

lemma big_u64_version:
  "napi_ok N \<Longrightarrow> big_u64 N (ej_version (stored_event_to_js L e)) = ev_version e"
  by (simp add: big_u64_def napi_ok_def stored_event_to_js_def)

lemma big_u64_ignores_sign: "napi_ok N \<Longrightarrow> big_u64 N (- v) = big_u64 N v"
  by (simp add: big_u64_def napi_ok_def)

lemma node_cursor_roundtrip: "node_cursor_from_bytes (node_cursor_to_bytes c) = c"
  by (simp add: node_cursor_from_bytes_def node_cursor_to_bytes_def)

text \<open>
  An option the binding accepts and does not read: the manual checkpoint mode, which the store
  refuses to open with.
\<close>

lemma checkpoint_mode_ignored:
  "parse_open_options (Some (js\<lparr>oj_checkpoint_mode := mode\<rparr>)) = parse_open_options (Some js)"
  by (simp add: parse_open_options_def)

end
