(* ===== verification/Node_Store.thy ===== *)
theory Node_Store
  imports Node_Types
begin

text \<open>
  The class \<open>Store\<close> of the Node binding (\<open>fossic-node/src/store.rs\<close>) and its iterators
  (\<open>iters.rs\<close>). A method converts its arguments, calls the store on a blocking thread and converts
  the result; an error becomes a rejection with the text of the error. The failure of the blocking
  thread itself (a panic) is outside the model.
\<close>

section \<open>Results\<close>

definition node_res :: "('a \<Rightarrow> 'b) \<Rightarrow> 'a res \<Rightarrow> node_error + 'b" where
  "node_res f r = (case r of Inl e \<Rightarrow> Inl (generic_failure e) | Inr a \<Rightarrow> Inr (f a))"

definition node_run :: "('a \<Rightarrow> 'b) \<Rightarrow> 'a res option \<Rightarrow> (node_error + 'b) option" where
  "node_run f r = map_option (node_res f) r"

definition node_change :: "('a \<Rightarrow> 'b) \<Rightarrow> store \<times> 'a res \<Rightarrow> store \<times> (node_error + 'b)" where
  "node_change f x = (case x of (st, r) \<Rightarrow> (st, node_res f r))"

abbreviation events_to_js :: "libs \<Rightarrow> stored_event list \<Rightarrow> stored_event_js list" where
  "events_to_js L \<equiv> map (stored_event_to_js L)"

section \<open>Opening and streams\<close>

text \<open>\<open>expand\<close> is \<open>shellexpand::tilde\<close>.\<close>

definition node_open ::
  "(string \<Rightarrow> string) \<Rightarrow> string \<Rightarrow> string \<Rightarrow> (nat \<Rightarrow> i64) \<Rightarrow> string \<Rightarrow> open_options_js option \<Rightarrow>
     (string \<Rightarrow> db option) \<Rightarrow> node_error + store" where
  "node_open expand crate_version now_text clock path options files =
     bind_res (parse_open_options options) (\<lambda>opts.
       node_res id (store_open crate_version now_text clock (expand path) opts (files (expand path))))"

definition node_declare_stream ::
  "libs \<Rightarrow> i64 \<Rightarrow> string \<Rightarrow> string \<Rightarrow> string option \<Rightarrow> store \<Rightarrow> store \<times> (node_error + unit)" where
  "node_declare_stream L now stream_id declared_by description st =
     node_change id (store_declare_stream L now stream_id declared_by description st)"

definition node_streams :: "store \<Rightarrow> node_error + stream_info_js list" where
  "node_streams st = node_res (map stream_info_to_js) (Inr (streams_impl (so_db st)))"

definition node_stream_exists :: "store \<Rightarrow> string \<Rightarrow> node_error + bool" where
  "node_stream_exists st stream_id = node_res id (Inr (stream_exists_impl (so_db st) stream_id))"

section \<open>Appending\<close>

definition node_append ::
  "libs \<Rightarrow> i64 \<Rightarrow> i64 \<Rightarrow> append_js \<Rightarrow> store \<Rightarrow> store \<times> (node_error + event_id)" where
  "node_append L now now2 js st =
     (case append_from_js js of
        Inl e \<Rightarrow> (st, Inl e)
      | Inr a \<Rightarrow> node_change id (store_append L now now2 a st))"

text \<open>The appends come with the readings of the clock.\<close>

definition node_append_batch ::
  "libs \<Rightarrow> i64 \<Rightarrow> (append_js \<times> i64) list \<Rightarrow> store \<Rightarrow> store \<times> (node_error + event_id list)" where
  "node_append_batch L now2 appends st =
     (case collect_res (\<lambda>(js, now). bind_res (append_from_js js) (\<lambda>a. Inr (a, now))) appends of
        Inl e \<Rightarrow> (st, Inl e)
      | Inr as \<Rightarrow> node_change id (store_append_batch L now2 as st))"

section \<open>Reads\<close>

definition node_read_range ::
  "libs \<Rightarrow> napi_lib \<Rightarrow> store \<Rightarrow> read_query_js \<Rightarrow> (node_error + stored_event_js list) option" where
  "node_read_range L N st query =
     node_run (events_to_js L)
       (store_read_range L (so_db st) (so_upcasters st) (read_query_from_js N query))"

definition node_read_one ::
  "libs \<Rightarrow> store \<Rightarrow> event_id \<Rightarrow> (node_error + stored_event_js option) option" where
  "node_read_one L st i =
     node_run (map_option (stored_event_to_js L)) (store_read_one L (so_db st) (so_upcasters st) i)"

definition node_read_by_external_id ::
  "libs \<Rightarrow> store \<Rightarrow> string \<Rightarrow> string \<Rightarrow> (node_error + stored_event_js option) option" where
  "node_read_by_external_id L st stream_id external_id =
     node_run (map_option (stored_event_to_js L))
       (store_read_by_external_id L (so_db st) (so_upcasters st) stream_id external_id)"

definition node_read_by_correlation ::
  "libs \<Rightarrow> store \<Rightarrow> event_id \<Rightarrow> (node_error + stored_event_js list) option" where
  "node_read_by_correlation L st i =
     node_run (events_to_js L) (store_read_by_correlation L (so_db st) (so_upcasters st) i)"

definition node_depth :: "u32 option \<Rightarrow> nat" where
  "node_depth max_depth = (case max_depth of None \<Rightarrow> nat i64_max | Some d \<Rightarrow> unat d)"

definition node_walk_causation ::
  "libs \<Rightarrow> store \<Rightarrow> event_id \<Rightarrow> string \<Rightarrow> u32 option \<Rightarrow> (node_error + stored_event_js list) option" where
  "node_walk_causation L st start direction max_depth =
     bind_run (Some (node_parse_direction direction)) (\<lambda>dir.
       node_run (events_to_js L)
         (store_walk_causation L (so_db st) (so_upcasters st) start dir (node_depth max_depth)))"

section \<open>Bounded reads\<close>

abbreviation node_size :: "u32 option \<Rightarrow> nat option" where
  "node_size n \<equiv> map_option unat n"

definition node_read_range_bounded ::
  "libs \<Rightarrow> napi_lib \<Rightarrow> store \<Rightarrow> read_query_js \<Rightarrow> u32 option \<Rightarrow> u32 option \<Rightarrow> bytes option \<Rightarrow>
     (node_error + read_outcome_js) option" where
  "node_read_range_bounded L N st query max_results max_bytes cursor =
     node_run (outcome_to_js L)
       (store_read_range_bounded L (ss_options (so_state st)) (so_db st) (so_upcasters st)
          (read_query_from_js N query) (node_size max_results) (node_size max_bytes)
          (map_option node_cursor_from_bytes cursor))"

definition node_read_by_correlation_bounded ::
  "libs \<Rightarrow> store \<Rightarrow> event_id \<Rightarrow> u32 option \<Rightarrow> u32 option \<Rightarrow> bytes option \<Rightarrow>
     (node_error + read_outcome_js) option" where
  "node_read_by_correlation_bounded L st i max_results max_bytes cursor =
     node_run (outcome_to_js L)
       (store_read_by_correlation_bounded L (ss_options (so_state st)) (so_db st) (so_upcasters st) i
          (node_size max_results) (node_size max_bytes) (map_option node_cursor_from_bytes cursor))"

definition node_walk_causation_bounded ::
  "libs \<Rightarrow> store \<Rightarrow> event_id \<Rightarrow> string \<Rightarrow> u32 option \<Rightarrow> sampling_mode_js option \<Rightarrow> u32 option \<Rightarrow>
     u32 option \<Rightarrow> bytes option \<Rightarrow> (node_error + read_outcome_js) option" where
  "node_walk_causation_bounded L st start direction max_depth sampling max_results max_bytes cursor =
     bind_run (Some (node_parse_direction direction)) (\<lambda>dir.
       node_run (outcome_to_js L)
         (store_walk_causation_bounded L (ss_options (so_state st)) (so_db st) (so_upcasters st) start
            \<lparr>wp_direction = dir, wp_max_depth = node_depth max_depth,
             wp_sampling = sampling_mode_from_js sampling,
             wp_max_results = node_size max_results, wp_max_bytes = node_size max_bytes\<rparr>
            (map_option node_cursor_from_bytes cursor)))"

section \<open>Branches, cursors and snapshots\<close>

definition node_list_branches :: "libs \<Rightarrow> store \<Rightarrow> string \<Rightarrow> node_error + branch_info_js list" where
  "node_list_branches L st stream_id =
     node_res (map branch_info_to_js) (Inr (list_branches_impl L (so_db st) stream_id))"

definition node_create_branch ::
  "libs \<Rightarrow> napi_lib \<Rightarrow> i64 \<Rightarrow> create_branch_js \<Rightarrow> store \<Rightarrow> store \<times> (node_error + unit)" where
  "node_create_branch L N now b st =
     node_change id (store_create_branch_op L now (create_branch_from_js N b) st)"

definition node_promote_branch ::
  "i64 \<Rightarrow> string \<Rightarrow> string \<Rightarrow> store \<Rightarrow> store \<times> (node_error + unit)" where
  "node_promote_branch now stream_id branch_id st =
     node_change id (store_promote_branch now stream_id branch_id None st)"

definition node_mark_branch_dead_end ::
  "i64 \<Rightarrow> string \<Rightarrow> string \<Rightarrow> store \<Rightarrow> store \<times> (node_error + unit)" where
  "node_mark_branch_dead_end now stream_id branch_id st =
     node_change id (store_mark_branch_dead_end now stream_id branch_id None st)"

definition node_get_cursor :: "store \<Rightarrow> string \<Rightarrow> string \<Rightarrow> string \<Rightarrow> node_error + int option" where
  "node_get_cursor st consumer_id stream_id branch =
     node_res (map_option uint) (Inr (get_cursor_impl (so_db st) consumer_id stream_id branch))"

definition node_set_cursor ::
  "napi_lib \<Rightarrow> i64 \<Rightarrow> string \<Rightarrow> string \<Rightarrow> string \<Rightarrow> int \<Rightarrow> store \<Rightarrow> store \<times> (node_error + unit)" where
  "node_set_cursor N now consumer_id stream_id branch version st =
     node_change id (store_set_cursor now consumer_id stream_id branch (big_u64 N version) st)"

record snapshot_state_js =
  ssj_version :: int
  ssj_state_bytes :: bytes

definition node_get_snapshot_state ::
  "store \<Rightarrow> string \<Rightarrow> string \<Rightarrow> string \<Rightarrow> u32 \<Rightarrow> node_error + snapshot_state_js option" where
  "node_get_snapshot_state st stream_id branch reducer_name state_schema_version =
     node_res
       (map_option (\<lambda>(version, bytes). \<lparr>ssj_version = uint version, ssj_state_bytes = bytes\<rparr>))
       (Inr (store_get_snapshot_state stream_id branch reducer_name state_schema_version st))"

definition node_write_snapshot_state ::
  "napi_lib \<Rightarrow> i64 \<Rightarrow> string \<Rightarrow> string \<Rightarrow> int \<Rightarrow> string \<Rightarrow> u32 \<Rightarrow> u32 \<Rightarrow> bytes \<Rightarrow> store \<Rightarrow>
     store \<times> (node_error + snapshot_info_js)" where
  "node_write_snapshot_state N now stream_id branch version reducer_name reducer_version
       state_schema_version bytes st =
     node_change snapshot_info_to_js
       (store_write_snapshot_state now stream_id branch (big_u64 N version) reducer_name
          reducer_version state_schema_version bytes st)"

definition node_close :: "store \<Rightarrow> node_error + unit" where
  "node_close st = Inr ()"

section \<open>Iterators\<close>

text \<open>
  The three classes share their step; \<open>fetch\<close> is the bounded read of their iterator. The iterator
  is dropped when it ends or fails, so that later calls give \<open>null\<close>.
\<close>

definition iter_raw_next ::
  "libs \<Rightarrow> fetcher \<Rightarrow> iter option \<Rightarrow> (node_error + stored_event_js option) \<times> iter option" where
  "iter_raw_next L fetch guard =
     (case guard of
        None \<Rightarrow> (Inr None, None)
      | Some it \<Rightarrow>
          (case iter_next fetch it of
             (None, _) \<Rightarrow> (Inr None, None)
           | (Some (Inr ev), it') \<Rightarrow> (Inr (Some (stored_event_to_js L ev)), Some it')
           | (Some (Inl e), _) \<Rightarrow> (Inl (generic_failure e), None)))"

text \<open>A \<open>for await\<close> loop: it ends at \<open>null\<close> or at a rejection.\<close>

fun for_await ::
  "libs \<Rightarrow> fetcher \<Rightarrow> nat \<Rightarrow> iter option \<Rightarrow> (stored_event_js list \<times> node_error option) option" where
  "for_await L fetch 0 guard = None"
| "for_await L fetch (Suc n) guard =
     (case iter_raw_next L fetch guard of
        (Inr None, _) \<Rightarrow> Some ([], None)
      | (Inl e, _) \<Rightarrow> Some ([], Some e)
      | (Inr (Some ev), guard') \<Rightarrow>
          map_option (\<lambda>(evs, err). (ev # evs, err)) (for_await L fetch n guard'))"

text \<open>It yields what the iterator of the core yields.\<close>

lemma for_await_all:
  "iter_collect fetch n it = Some (map Inr es) \<Longrightarrow>
     for_await L fetch n (Some it) = Some (events_to_js L es, None)"
proof (induction n arbitrary: it es)
  case (Suc n)
  obtain x it' where step: "iter_next fetch it = (x, it')" by fastforce
  show ?case
  proof (cases x)
    case None
    then show ?thesis using Suc.prems step by (simp add: iter_raw_next_def)
  next
    case (Some y)
    with Suc.prems step obtain e es' where "y = Inr e" "es = e # es'"
      "iter_collect fetch n it' = Some (map Inr es')"
      by (auto simp: Cons_eq_map_conv)
    with Suc.IH [of it' es'] step Some show ?thesis by (simp add: iter_raw_next_def)
  qed
qed simp

lemma for_await_dropped: "for_await L fetch (Suc n) None = Some ([], None)"
  by (simp add: iter_raw_next_def)

section \<open>Consumer cursors across the boundary\<close>

text \<open>
  A cursor that was set with a version, as a \<open>BigInt\<close> in the range of a version, is read back as
  that \<open>BigInt\<close>.
\<close>

theorem node_cursor_set_get:
  assumes "napi_ok N" and "0 \<le> v" and "v < 2 ^ 64"
  shows "node_get_cursor (fst (node_set_cursor N now c s b v st)) c s b = Inr (Some v)"
proof -
  have "get_cursor_impl (set_cursor_impl now c s b w d) c s b = Some w" for w d
    by (simp add: consumer_cursor_roundtrip)
  moreover have "uint (word_of_int v :: u64) = v"
    using assms by (simp add: unsigned_of_int take_bit_int_eq_self)
  ultimately show ?thesis
    using assms
    by (simp add: node_get_cursor_def node_set_cursor_def node_res_def node_change_def
        store_set_cursor_def on_db_def set_db_def big_u64_def napi_ok_def split_beta)
qed

end
