(* ===== verification/Node_Subscription.thy ===== *)
theory Node_Subscription
  imports Node_Store Delivery Demo_Libs "HOL-Library.Multiset" "HOL-Library.Sublist"
begin

text \<open>
  Subscriptions of the Node binding (\<open>fossic-node/src/subscriptions.rs\<close> and \<open>Store::subscribe\<close> of
  \<open>fossic-node/src/store.rs\<close>): the handler that forwards events into a bounded channel, the object
  JavaScript holds, and the dispatcher thread that hands events to the callbacks JavaScript
  registers. The handler, the JavaScript thread, the asynchronous \<open>raw_dispose\<close> and the dispatcher
  interleave, so a run is a list of actions.
\<close>

section \<open>Subscribing\<close>

definition node_queue_size :: "subscribe_query_js \<Rightarrow> nat" where
  "node_queue_size q = (case uj_queue_size q of None \<Rightarrow> 1024 | Some n \<Rightarrow> unat n)"

text \<open>
  Where the dispatcher thread is: at \<open>pending_rx.recv\<close>, holding a callback before the first look at
  \<open>closed\<close>, at the top of the inner loop, in \<open>recv_timeout\<close>, before the call, in the final loop,
  after it, and gone.
\<close>

datatype dispatcher_at =
    AtRecv
  | Took nat
  | Polling nat
  | Receiving nat
  | Calling nat "stored_event option"
  | Draining
  | Leaving
  | Exited

text \<open>
  The event channel with its capacity and whether its sender (the handler) is alive, the channel of
  callbacks and whether its sender (the object) is alive, the flag, whether the handle is still
  there, the callback of a \<open>raw_next\<close> that has read the flag and not yet sent, the thread, and the
  calls it has made. Callbacks are numbers.
\<close>

record node_sub =
  nb_rx :: "stored_event list"
  nb_capacity :: nat
  nb_tx :: bool
  nb_pending :: "nat list"
  nb_object :: bool
  nb_closed :: bool
  nb_handle :: bool
  nb_sending :: "nat option"
  nb_at :: dispatcher_at
  nb_calls :: "(nat \<times> stored_event_js option) list"

definition node_sub_new :: "nat \<Rightarrow> node_sub" where
  "node_sub_new capacity =
     \<lparr>nb_rx = [], nb_capacity = capacity, nb_tx = True, nb_pending = [], nb_object = True,
      nb_closed = False, nb_handle = True, nb_sending = None, nb_at = AtRecv, nb_calls = []\<rparr>"

text \<open>The handler does not panic, whatever happens to the event.\<close>

definition channel_handler :: handler where
  "channel_handler = (\<lambda>calls event. False)"

definition node_subscribe :: "subscribe_query_js \<Rightarrow> store \<Rightarrow> store \<times> u64 \<times> node_sub" where
  "node_subscribe query st =
     (let q = \<lparr>sq_stream_pattern = uj_stream_pattern query,
               sq_branch = (case uj_branch query of None \<Rightarrow> ''main'' | Some b \<Rightarrow> b),
               sq_include_system = (case uj_include_system query of None \<Rightarrow> False | Some b \<Rightarrow> b)\<rparr>;
          (st', handle) = store_subscribe q (ModePostCommit (node_queue_size query)) channel_handler st
      in (st', handle, node_sub_new (node_queue_size query)))"

section \<open>The actions\<close>

definition call_js :: "libs \<Rightarrow> nat \<Rightarrow> stored_event option \<Rightarrow> node_sub \<Rightarrow> node_sub" where
  "call_js L t v st = st\<lparr>nb_calls := nb_calls st @ [(t, map_option (stored_event_to_js L) v)]\<rparr>"

text \<open>\<open>try_send\<close> into the bounded channel; without capacity it needs a waiting receiver.\<close>

definition can_send :: "node_sub \<Rightarrow> bool" where
  "can_send st \<longleftrightarrow>
     nb_tx st \<and> nb_at st \<noteq> Exited \<and>
     (if nb_capacity st = 0
      then nb_rx st = [] \<and> (case nb_at st of Receiving _ \<Rightarrow> True | _ \<Rightarrow> False)
      else length (nb_rx st) < nb_capacity st)"

definition on_event :: "stored_event \<Rightarrow> node_sub \<Rightarrow> node_sub" where
  "on_event e st = (if can_send st then st\<lparr>nb_rx := nb_rx st @ [e]\<rparr> else st)"

text \<open>\<open>raw_next\<close> reads the flag, and then sends the callback.\<close>

definition can_call_next :: "node_sub \<Rightarrow> bool" where
  "can_call_next st \<longleftrightarrow> nb_object st \<and> nb_sending st = None"

definition raw_next :: "libs \<Rightarrow> nat \<Rightarrow> node_sub \<Rightarrow> node_sub" where
  "raw_next L t st =
     (if \<not> can_call_next st then st
      else if nb_closed st then call_js L t None st
      else st\<lparr>nb_sending := Some t\<rparr>)"

definition raw_next_send :: "node_sub \<Rightarrow> node_sub" where
  "raw_next_send st =
     (case nb_sending st of
        None \<Rightarrow> st
      | Some t \<Rightarrow>
          if nb_at st = Exited then st\<lparr>nb_sending := None\<rparr>
          else st\<lparr>nb_sending := None, nb_pending := nb_pending st @ [t]\<rparr>)"

definition raw_dispose :: "node_sub \<Rightarrow> node_sub" where
  "raw_dispose st = st\<lparr>nb_closed := True, nb_handle := False\<rparr>"

text \<open>\<open>unsubscribe\<close> is the same, on the thread that also calls \<open>raw_next\<close>.\<close>

definition node_unsubscribe :: "node_sub \<Rightarrow> node_sub" where
  "node_unsubscribe st = (if nb_sending st = None then raw_dispose st else st)"

text \<open>
  The store drops the handler some time after the handle; the object is dropped with its handle and
  its sender when JavaScript has no reference to it.
\<close>

definition sender_dropped :: "node_sub \<Rightarrow> node_sub" where
  "sender_dropped st = (if nb_handle st then st else st\<lparr>nb_tx := False\<rparr>)"

definition collected :: "node_sub \<Rightarrow> node_sub" where
  "collected st =
     (if nb_sending st = None then st\<lparr>nb_object := False, nb_handle := False\<rparr> else st)"

definition dispatcher_loop_step :: "libs \<Rightarrow> node_sub \<Rightarrow> node_sub" where
  "dispatcher_loop_step L st =
     (case nb_at st of
        AtRecv \<Rightarrow>
          (case nb_pending st of
             t # ts \<Rightarrow> st\<lparr>nb_pending := ts, nb_at := Took t\<rparr>
           | [] \<Rightarrow> if nb_object st then st else st\<lparr>nb_at := Leaving\<rparr>)
      | Took t \<Rightarrow>
          if nb_closed st then call_js L t None (st\<lparr>nb_at := AtRecv\<rparr>) else st\<lparr>nb_at := Polling t\<rparr>
      | Polling t \<Rightarrow>
          if nb_closed st then st\<lparr>nb_at := Calling t None\<rparr> else st\<lparr>nb_at := Receiving t\<rparr>
      | Receiving t \<Rightarrow>
          (case nb_rx st of
             e # es \<Rightarrow> st\<lparr>nb_rx := es, nb_at := Calling t (Some e)\<rparr>
           | [] \<Rightarrow> if nb_tx st then st\<lparr>nb_at := Polling t\<rparr> else st\<lparr>nb_at := Calling t None\<rparr>)
      | Calling t v \<Rightarrow>
          call_js L t v (st\<lparr>nb_at := (if v = None then Draining else AtRecv)\<rparr>)
      | Draining \<Rightarrow>
          (case nb_pending st of
             t # ts \<Rightarrow> call_js L t None (st\<lparr>nb_pending := ts\<rparr>)
           | [] \<Rightarrow> st\<lparr>nb_at := Leaving\<rparr>)
      | Leaving \<Rightarrow> st\<lparr>nb_at := Exited, nb_pending := [], nb_rx := []\<rparr>
      | Exited \<Rightarrow> st)"

datatype node_action =
    OnEvent stored_event
  | SenderDropped
  | RawNext nat
  | RawNextSend
  | Unsubscribe
  | RawDispose
  | Collected
  | DispatcherStep

fun node_act :: "libs \<Rightarrow> node_action \<Rightarrow> node_sub \<Rightarrow> node_sub" where
  "node_act L (OnEvent e) st = on_event e st"
| "node_act L SenderDropped st = sender_dropped st"
| "node_act L (RawNext t) st = raw_next L t st"
| "node_act L RawNextSend st = raw_next_send st"
| "node_act L Unsubscribe st = node_unsubscribe st"
| "node_act L RawDispose st = raw_dispose st"
| "node_act L Collected st = collected st"
| "node_act L DispatcherStep st = dispatcher_loop_step L st"

abbreviation node_acts :: "libs \<Rightarrow> node_action list \<Rightarrow> node_sub \<Rightarrow> node_sub" where
  "node_acts L \<equiv> fold (node_act L)"

lemmas node_act_defs =
  on_event_def sender_dropped_def raw_next_def raw_next_send_def node_unsubscribe_def
  raw_dispose_def collected_def dispatcher_loop_step_def call_js_def can_call_next_def

section \<open>What was sent and what was registered\<close>

text \<open>The events offered to the handler, and those among them the channel took.\<close>

definition offered :: "node_action list \<Rightarrow> stored_event list" where
  "offered as = concat (map (\<lambda>a. case a of OnEvent e \<Rightarrow> [e] | _ \<Rightarrow> []) as)"

fun sent :: "libs \<Rightarrow> node_action list \<Rightarrow> node_sub \<Rightarrow> stored_event list" where
  "sent L [] st = []"
| "sent L (a # as) st =
     (case a of OnEvent e \<Rightarrow> if can_send st then [e] else [] | _ \<Rightarrow> []) @ sent L as (node_act L a st)"

text \<open>The callbacks \<open>raw_next\<close> was called with.\<close>

fun registered :: "libs \<Rightarrow> node_action list \<Rightarrow> node_sub \<Rightarrow> nat list" where
  "registered L [] st = []"
| "registered L (a # as) st =
     (case a of RawNext t \<Rightarrow> if can_call_next st then [t] else [] | _ \<Rightarrow> []) @
     registered L as (node_act L a st)"

text \<open>The events the callbacks were called with, the one about to be, and the queued ones.\<close>

definition delivered :: "node_sub \<Rightarrow> stored_event_js list" where
  "delivered st = List.map_filter snd (nb_calls st)"

definition in_hand :: "node_sub \<Rightarrow> stored_event list" where
  "in_hand st = (case nb_at st of Calling _ (Some e) \<Rightarrow> [e] | _ \<Rightarrow> [])"

definition fifo :: "libs \<Rightarrow> node_sub \<Rightarrow> stored_event_js list" where
  "fifo L st = delivered st @ map (stored_event_to_js L) (in_hand st @ nb_rx st)"

lemma delivered_simps [simp]:
  "delivered (call_js L t v st) =
     delivered st @ (case v of None \<Rightarrow> [] | Some e \<Rightarrow> [stored_event_to_js L e])"
  "delivered (st\<lparr>nb_at := w\<rparr>) = delivered st"
  "delivered (st\<lparr>nb_pending := p\<rparr>) = delivered st"
  "delivered (st\<lparr>nb_rx := es\<rparr>) = delivered st"
  "delivered (st\<lparr>nb_closed := b\<rparr>) = delivered st"
  "delivered (st\<lparr>nb_handle := b\<rparr>) = delivered st"
  "delivered (st\<lparr>nb_tx := b\<rparr>) = delivered st"
  "delivered (st\<lparr>nb_object := b\<rparr>) = delivered st"
  "delivered (st\<lparr>nb_sending := s\<rparr>) = delivered st"
  by (auto simp: delivered_def call_js_def map_filter_def split: option.splits)

text \<open>
  The queue loses something only when the thread ends: until then the delivered events with the
  held and the queued ones are all that was sent.
\<close>

definition delivers :: "libs \<Rightarrow> stored_event list \<Rightarrow> node_sub \<Rightarrow> bool" where
  "delivers L es st \<longleftrightarrow>
     prefix (delivered st) (map (stored_event_to_js L) es) \<and>
     (nb_at st \<noteq> Exited \<longrightarrow> fifo L st = map (stored_event_to_js L) es)"

lemma quiet_act:
  "delivered st' = delivered st \<Longrightarrow> nb_at st' = nb_at st \<Longrightarrow> nb_rx st' = nb_rx st \<Longrightarrow>
     delivers L es st' = delivers L es st"
  by (simp add: delivers_def fifo_def in_hand_def)

lemma call_js_sel [simp]:
  "nb_at (call_js L t v st) = nb_at st" "nb_rx (call_js L t v st) = nb_rx st"
  "nb_pending (call_js L t v st) = nb_pending st" "nb_object (call_js L t v st) = nb_object st"
  "nb_closed (call_js L t v st) = nb_closed st" "nb_sending (call_js L t v st) = nb_sending st"
  "nb_tx (call_js L t v st) = nb_tx st" "nb_handle (call_js L t v st) = nb_handle st"
  "nb_calls (call_js L t v st) = nb_calls st @ [(t, map_option (stored_event_to_js L) v)]"
  by (simp_all add: call_js_def)

lemma delivers_quiet [simp]:
  "delivers L es (sender_dropped st) = delivers L es st"
  "delivers L es (raw_next L t st) = delivers L es st"
  "delivers L es (raw_next_send st) = delivers L es st"
  "delivers L es (raw_dispose st) = delivers L es st"
  "delivers L es (node_unsubscribe st) = delivers L es st"
  "delivers L es (collected st) = delivers L es st"
  by (rule quiet_act; simp add: sender_dropped_def raw_next_def raw_next_send_def raw_dispose_def
      node_unsubscribe_def collected_def split: option.split)+

lemma delivers_on_event:
  "delivers L es st \<Longrightarrow> delivers L (es @ (if can_send st then [e] else [])) (on_event e st)"
  by (auto simp: delivers_def on_event_def can_send_def fifo_def in_hand_def)

lemma delivers_dispatcher: "delivers L es st \<Longrightarrow> delivers L es (dispatcher_loop_step L st)"
  by (cases "nb_at st")
    (auto simp: delivers_def fifo_def in_hand_def dispatcher_loop_step_def prefix_def
      split: list.split option.split)

lemma delivers_act: "delivers L es st \<Longrightarrow> delivers L (es @ sent L [a] st) (node_act L a st)"
  by (cases a) (simp_all add: delivers_on_event delivers_dispatcher)

lemma delivers_acts:
  "delivers L es st \<Longrightarrow> delivers L (es @ sent L as st) (node_acts L as st)"
proof (induction as arbitrary: es st)
  case (Cons a as)
  from Cons.IH [OF delivers_act [OF Cons.prems, of a]] show ?case by simp
qed simp

lemma sent_subseq: "subseq (sent L as st) (offered as)"
proof (induction as arbitrary: st)
  case (Cons a as)
  then show ?case
    by (cases a) (auto simp: offered_def intro: list_emb_append_mono)
qed (simp add: offered_def)

section \<open>Every callback is accounted for\<close>

definition held :: "node_sub \<Rightarrow> nat list" where
  "held st =
     (case nb_at st of Took t \<Rightarrow> [t] | Polling t \<Rightarrow> [t] | Receiving t \<Rightarrow> [t] | Calling t _ \<Rightarrow> [t] | _ \<Rightarrow> [])"

definition callbacks :: "node_sub \<Rightarrow> nat multiset" where
  "callbacks st =
     mset (map fst (nb_calls st)) + mset (nb_pending st) + mset (held st) +
     mset (case nb_sending st of None \<Rightarrow> [] | Some t \<Rightarrow> [t])"

text \<open>
  The thread ends only when the subscription is closed or the object is gone, and from then on
  \<open>raw_next\<close> sends nothing. This needs that the flag does not change while \<open>raw_next\<close> runs.
\<close>

definition ending :: "dispatcher_at \<Rightarrow> bool" where
  "ending w \<longleftrightarrow>
     (case w of Calling _ None \<Rightarrow> True | Draining \<Rightarrow> True | Leaving \<Rightarrow> True | Exited \<Rightarrow> True | _ \<Rightarrow> False)"

definition node_sub_ok :: "node_sub \<Rightarrow> bool" where
  "node_sub_ok st \<longleftrightarrow>
     (nb_sending st \<noteq> None \<longrightarrow> nb_object st \<and> \<not> nb_closed st) \<and>
     (\<not> nb_tx st \<longrightarrow> \<not> nb_handle st) \<and>
     (\<not> nb_handle st \<longrightarrow> nb_closed st \<or> \<not> nb_object st) \<and>
     (ending (nb_at st) \<longrightarrow> nb_closed st \<or> \<not> nb_object st) \<and>
     (nb_at st = Leaving \<or> nb_at st = Exited \<longrightarrow> nb_pending st = [])"

lemma node_sub_ok_new: "node_sub_ok (node_sub_new n)"
  by (simp add: node_sub_ok_def node_sub_new_def ending_def)

lemma node_sub_ok_act:
  assumes "a \<noteq> RawDispose" and "node_sub_ok st"
  shows "node_sub_ok (node_act L a st)"
proof (cases a)
  case DispatcherStep
  with assms show ?thesis
    by (cases "nb_at st")
      (auto simp: node_sub_ok_def ending_def dispatcher_loop_step_def split: list.split option.split)
qed (use assms in \<open>auto simp: node_sub_ok_def ending_def on_event_def sender_dropped_def raw_next_def
    raw_next_send_def node_unsubscribe_def raw_dispose_def collected_def can_call_next_def
    split: option.split\<close>)

lemma callbacks_dispatcher:
  "node_sub_ok st \<Longrightarrow> callbacks (dispatcher_loop_step L st) = callbacks st"
  by (cases "nb_at st")
    (auto simp: callbacks_def held_def dispatcher_loop_step_def node_sub_ok_def
      split: list.split option.split)

lemma callbacks_act:
  assumes "a \<noteq> RawDispose" and "node_sub_ok st"
  shows "callbacks (node_act L a st) = callbacks st + mset (registered L [a] st)"
proof (cases a)
  case DispatcherStep
  with assms show ?thesis by (simp add: callbacks_dispatcher)
qed (use assms in \<open>auto simp: callbacks_def held_def node_sub_ok_def ending_def on_event_def
    sender_dropped_def raw_next_def raw_next_send_def node_unsubscribe_def raw_dispose_def
    collected_def can_call_next_def split: option.split\<close>)

lemma node_acts_account:
  assumes "RawDispose \<notin> set as" and "node_sub_ok st"
  shows "node_sub_ok (node_acts L as st) \<and>
    callbacks (node_acts L as st) = callbacks st + mset (registered L as st)"
  using assms
proof (induction as arbitrary: st)
  case (Cons a as)
  then have "a \<noteq> RawDispose" by auto
  with Cons show ?case
    using node_sub_ok_act [of a st L] callbacks_act [of a st L] by simp
qed simp

section \<open>After the end of the subscription\<close>

text \<open>What the dispatcher has still to do on a closed subscription.\<close>

definition work :: "node_sub \<Rightarrow> nat" where
  "work st =
     (let k = 2 * length (nb_pending st)
      in case nb_at st of
           AtRecv \<Rightarrow> k | Took _ \<Rightarrow> k + 1 | Polling _ \<Rightarrow> k + 3 | Receiving _ \<Rightarrow> k + 4
         | Calling _ v \<Rightarrow> k + 2 | Draining \<Rightarrow> k + 1 | Leaving \<Rightarrow> 0 | Exited \<Rightarrow> 0)"

lemma work_decreases:
  assumes "nb_closed st" and "node_sub_ok st"
  shows "work (dispatcher_loop_step L st) \<le> work st - 1"
  using assms
  by (cases "nb_at st")
    (auto simp: work_def dispatcher_loop_step_def node_sub_ok_def Let_def
      split: list.split option.split)

lemma nb_closed_dispatcher [simp]: "nb_closed (dispatcher_loop_step L st) = nb_closed st"
  by (auto simp: dispatcher_loop_step_def split: dispatcher_at.split list.split)

lemma nb_closed_dispatchers:
  "nb_closed (node_acts L (replicate k DispatcherStep) st) = nb_closed st"
  by (induction k arbitrary: st) simp_all

lemma dispatcher_finishes:
  assumes "nb_closed st" and "node_sub_ok st" and "work st \<le> k"
  shows "work (node_acts L (replicate k DispatcherStep) st) = 0"
  using assms
proof (induction k arbitrary: st)
  case (Suc k)
  moreover have "node_sub_ok (dispatcher_loop_step L st)"
    using node_sub_ok_act [of DispatcherStep st L] Suc.prems by simp
  moreover have "work (dispatcher_loop_step L st) \<le> k"
    using work_decreases [of st L] Suc.prems by linarith
  ultimately show ?case by simp
qed simp

lemma registered_dispatcher: "registered L (replicate k DispatcherStep) st = []"
  by (induction k arbitrary: st) simp_all

lemma work_bound: "work st \<le> 2 * length (nb_pending st) + 4"
  by (cases "nb_at st") (simp_all add: work_def)

lemma done_callbacks:
  "work st = 0 \<Longrightarrow> nb_closed st \<Longrightarrow> node_sub_ok st \<Longrightarrow> callbacks st = mset (map fst (nb_calls st))"
  by (cases "nb_at st") (auto simp: work_def callbacks_def held_def node_sub_ok_def Let_def)

section \<open>The properties\<close>

text \<open>
  C6. Whatever the interleaving of the store's handler, of JavaScript and of the dispatcher thread,
  the callbacks of a Node subscription are called with the events the channel took, in that order
  and each once, and until the thread has ended nothing of them is lost; the channel takes a
  subsequence of the events the store hands to the handler.
\<close>

theorem node_subscription_fifo:
  "(let st = node_acts L as (node_sub_new n);
        taken = sent L as (node_sub_new n)
    in prefix (delivered st) (map (stored_event_to_js L) taken) \<and>
       (nb_at st = Exited \<or>
        delivered st @ map (stored_event_to_js L) (in_hand st @ nb_rx st) =
          map (stored_event_to_js L) taken) \<and>
       subseq taken (offered as))"
proof -
  have "delivers L [] (node_sub_new n)"
    by (simp add: delivers_def fifo_def in_hand_def node_sub_new_def delivered_def map_filter_def)
  from delivers_acts [OF this, of as] show ?thesis
    by (auto simp: Let_def delivers_def fifo_def sent_subseq)
qed

text \<open>
  C10. After \<open>unsubscribe\<close>, and without \<open>raw_dispose\<close>, every callback ever registered through
  \<open>raw_next\<close> has been called exactly once as soon as the dispatcher thread has taken twice as many
  steps as callbacks are pending, and four more.
\<close>

theorem unsubscribe_answers_callbacks:
  assumes "RawDispose \<notin> set as" and "nb_closed (node_acts L as (node_sub_new n))"
    and "2 * length (nb_pending (node_acts L as (node_sub_new n))) + 4 \<le> k"
  shows "mset (map fst (nb_calls
      (node_acts L (as @ replicate k DispatcherStep) (node_sub_new n)))) =
    mset (registered L as (node_sub_new n))"
proof -
  let ?st = "node_acts L as (node_sub_new n)"
  let ?fin = "node_acts L (replicate k DispatcherStep) ?st"
  have ok: "node_sub_ok ?st" "callbacks ?st = mset (registered L as (node_sub_new n))"
    using node_acts_account [OF assms(1) node_sub_ok_new, of L n]
    by (simp_all add: callbacks_def held_def node_sub_new_def)
  have "RawDispose \<notin> set (replicate k DispatcherStep)" by simp
  from node_acts_account [OF this ok(1), of L]
  have "node_sub_ok ?fin" "callbacks ?fin = callbacks ?st"
    by (simp_all add: registered_dispatcher)
  moreover have "work ?fin = 0"
    using dispatcher_finishes [OF assms(2) ok(1), of k L] work_bound [of ?st] assms(3) by linarith
  moreover have "nb_closed ?fin"
    using assms(2) by (simp only: nb_closed_dispatchers)
  ultimately show ?thesis using done_callbacks [of ?fin] ok by simp
qed

text \<open>One event is delivered, and the callback that waits for the second is answered in the end.\<close>

definition demo_actions :: "node_action list" where
  "demo_actions =
     [OnEvent (demo_event 0), RawNext 0, RawNextSend, DispatcherStep, DispatcherStep, DispatcherStep,
      DispatcherStep, DispatcherStep, RawNext 1, RawNextSend, DispatcherStep, Unsubscribe]"

lemmas demo_run =
  demo_actions_def node_sub_new_def on_event_def can_send_def raw_next_def raw_next_send_def
  can_call_next_def node_unsubscribe_def raw_dispose_def dispatcher_loop_step_def

lemma demo_state:
  "nb_closed (node_acts demo_libs demo_actions (node_sub_new 2))"
  "nb_pending (node_acts demo_libs demo_actions (node_sub_new 2)) = []"
  "registered demo_libs demo_actions (node_sub_new 2) = [0, 1]"
  by (simp_all add: demo_run)

theorem unsubscribe_answers_callbacks_witness:
  "mset (map fst (nb_calls
      (node_acts demo_libs (demo_actions @ replicate 4 DispatcherStep) (node_sub_new 2)))) =
    mset [0, 1]"
proof -
  have "RawDispose \<notin> set demo_actions" by (simp add: demo_actions_def)
  from unsubscribe_answers_callbacks [OF this demo_state(1), of 4] show ?thesis
    by (simp only: demo_state) simp
qed

text \<open>
  \<open>raw_dispose\<close> runs on another thread than \<open>raw_next\<close>. When it comes between the look at the flag
  and the sending of the callback, the callback can be dropped without a call.
\<close>

theorem dispose_race_loses_callback:
  "(let st = node_acts L
         [RawNext 0, RawNextSend, DispatcherStep, DispatcherStep, RawNext 1, RawDispose,
          DispatcherStep, DispatcherStep, DispatcherStep, DispatcherStep, DispatcherStep, RawNextSend]
         (node_sub_new n)
    in nb_at st = Exited \<and> nb_pending st = [] \<and> nb_sending st = None \<and> 1 \<notin> fst ` set (nb_calls st))"
  by (simp add: demo_run)

text \<open>
  An event that finds the channel full is dropped, and the subscription is not marked: the store's
  own queue has room again as soon as its handler thread has made the call.
\<close>

theorem overflow_not_degraded:
  assumes "length (nb_rx st) = nb_capacity st" and "0 < nb_capacity st"
    and "se_handler entry = channel_handler"
  shows "on_event e st = st \<and> se_degraded (handler_take entry) = se_degraded entry \<and>
    (\<forall>pc. se_kind entry = PostCommit pc \<and> pc_open pc \<longrightarrow>
       (\<exists>pc'. se_kind (handler_take entry) = PostCommit pc' \<and> pc_open pc'))"
  using assms
  by (auto simp: on_event_def can_send_def handler_take_def channel_handler_def Let_def
      split: subscriber_kind.split list.split)

end
