(* ===== verification/Py_Types.thy ===== *)
theory Py_Types
  imports Store Hnsw
begin

text \<open>
  The values of the Python binding (\<open>fossic-py/src/types.rs\<close>, \<open>errors.rs\<close>): exceptions, the way
  between JSON and Python objects, and the classes that wrap events, appends, queries, options and
  outcomes.

  A Python object is a value of a type variable. The calls into Python are functions: what
  \<open>json.loads\<close> and \<open>json.dumps\<close> do, and what the objects of the caller do, are parameters of the
  model, as is the text pyo3 prints for an exception. The arguments a constructor may leave out are
  options.
\<close>

section \<open>Exceptions\<close>

datatype py_class =
    PyStreamNotDeclared
  | PyInvalidStreamId
  | PyInvalidEventId
  | PyStoreNotFound
  | PySchemaMismatch
  | PyNotImplemented
  | PyBranchNotFound
  | PyBranchLifecycle
  | PyInvalidBranchId
  | PyReducerPatternAmbiguous
  | PyReducerNotFound
  | PyReducerNotFoundByName
  | PyReducerCall
  | PyNoEventsToSnapshot
  | PyPurgeConfirmation
  | PyEventNotFound
  | PyUpcasterChainGap
  | PyStorage
  | PyValueError
  | PyKeyError
  | PyAttributeError
  | PyStopIteration
  | PyPanic
  | PyOther string

text \<open>
  The message: the text of an error of the store, a text, the error of the JSON parser on a text,
  or a text followed by an error of the canonical encoding.
\<close>

datatype py_message = PyErrorText error | PyText string | PyBadJson string | PyCceError string cce_error

datatype py_err = PyErr py_class py_message

fun py_error_class :: "error \<Rightarrow> py_class" where
  "py_error_class (StreamNotDeclared _) = PyStreamNotDeclared"
| "py_error_class (InvalidStreamId _ _) = PyInvalidStreamId"
| "py_error_class (InvalidEventId _) = PyInvalidEventId"
| "py_error_class (StoreNotFound _) = PyStoreNotFound"
| "py_error_class (SchemaMismatch _ _) = PySchemaMismatch"
| "py_error_class (NotImplemented _) = PyNotImplemented"
| "py_error_class (BranchNotFound _ _) = PyBranchNotFound"
| "py_error_class (BranchLifecycleError _) = PyBranchLifecycle"
| "py_error_class (InvalidBranchId _ _) = PyInvalidBranchId"
| "py_error_class (ReducerPatternAmbiguous _ _) = PyReducerPatternAmbiguous"
| "py_error_class (ReducerNotFound _) = PyReducerNotFound"
| "py_error_class (ReducerNotFoundByName _) = PyReducerNotFoundByName"
| "py_error_class (ReducerError _) = PyReducerCall"
| "py_error_class (NoEventsToSnapshot _ _) = PyNoEventsToSnapshot"
| "py_error_class (PurgeConfirmationError _) = PyPurgeConfirmation"
| "py_error_class (EventNotFound _) = PyEventNotFound"
| "py_error_class (UpcasterChainGap _ _) = PyUpcasterChainGap"
| "py_error_class _ = PyStorage"

definition to_py_err :: "error \<Rightarrow> py_err" where
  "to_py_err e = PyErr (py_error_class e) (PyErrorText e)"

definition py_value_error :: "string \<Rightarrow> py_err" where
  "py_value_error s = PyErr PyValueError (PyText s)"

section \<open>JSON and Python objects\<close>

record 'p py_lib =
  py_loads :: "string \<Rightarrow> py_err + 'p"
  py_dumps :: "'p \<Rightarrow> py_err + string"
  py_err_text :: "py_err \<Rightarrow> string"

definition json_to_py :: "'p py_lib \<Rightarrow> libs \<Rightarrow> json \<Rightarrow> py_err + 'p" where
  "json_to_py P L v = py_loads P (json_to_string L v)"

definition py_to_json :: "'p py_lib \<Rightarrow> libs \<Rightarrow> 'p \<Rightarrow> py_err + json" where
  "py_to_json P L obj =
     bind_res (py_dumps P obj) (\<lambda>s.
       case json_from_str L s of
         None \<Rightarrow> Inl (PyErr PyValueError (PyBadJson s))
       | Some v \<Rightarrow> Inr v)"

definition payload_to_py :: "'p py_lib \<Rightarrow> libs \<Rightarrow> bytes \<Rightarrow> py_err + 'p" where
  "payload_to_py P L bytes =
     bind_res (map_err (\<lambda>e. py_value_error (''msgpack decode error: '' @ e)) (mp_from_slice L bytes))
       (json_to_py P L)"

definition py_to_json_option :: "'p py_lib \<Rightarrow> libs \<Rightarrow> 'p option \<Rightarrow> py_err + json option" where
  "py_to_json_option P L obj =
     (case obj of None \<Rightarrow> Inr None | Some p \<Rightarrow> bind_res (py_to_json P L p) (\<lambda>v. Inr (Some v)))"

definition json_to_py_option :: "'p py_lib \<Rightarrow> libs \<Rightarrow> json option \<Rightarrow> py_err + 'p option" where
  "json_to_py_option P L v =
     (case v of None \<Rightarrow> Inr None | Some j \<Rightarrow> bind_res (json_to_py P L j) (\<lambda>p. Inr (Some p)))"

section \<open>Identities and events\<close>

definition py_event_id_as_bytes :: "event_id \<Rightarrow> bytes" where
  "py_event_id_as_bytes i = id_bytes i"

definition py_event_id_hex :: "event_id \<Rightarrow> string" where
  "py_event_id_hex i = to_hex i"

definition py_event_id_from_hex :: "string \<Rightarrow> py_err + event_id" where
  "py_event_id_from_hex s = map_err to_py_err (from_hex s)"

definition py_event_id_repr :: "event_id \<Rightarrow> string" where
  "py_event_id_repr i = ''EventId('' @ to_hex i @ '')''"

text \<open>An event is wrapped; the attributes Python reads, and the methods.\<close>

record py_event_attrs =
  pe_id :: event_id
  pe_stream_id :: string
  pe_branch :: string
  pe_version :: u64
  pe_timestamp_us :: i64
  pe_causation_id :: "event_id option"
  pe_correlation_id :: "event_id option"
  pe_event_type :: string
  pe_type_version :: u32
  pe_external_id :: "string option"

definition py_event_attrs_of :: "stored_event \<Rightarrow> py_event_attrs" where
  "py_event_attrs_of e =
     \<lparr>pe_id = ev_id e, pe_stream_id = ev_stream_id e, pe_branch = ev_branch e,
      pe_version = ev_version e, pe_timestamp_us = ev_timestamp_us e,
      pe_causation_id = ev_causation_id e, pe_correlation_id = ev_correlation_id e,
      pe_event_type = ev_event_type e, pe_type_version = ev_type_version e,
      pe_external_id = ev_external_id e\<rparr>"

definition py_event_payload :: "'p py_lib \<Rightarrow> libs \<Rightarrow> stored_event \<Rightarrow> py_err + 'p" where
  "py_event_payload P L e = payload_to_py P L (ev_payload e)"

definition py_event_payload_bytes :: "stored_event \<Rightarrow> bytes" where
  "py_event_payload_bytes e = ev_payload e"

definition py_event_indexed_tags :: "'p py_lib \<Rightarrow> libs \<Rightarrow> stored_event \<Rightarrow> py_err + 'p option" where
  "py_event_indexed_tags P L e = json_to_py_option P L (ev_indexed_tags e)"

definition py_event_repr :: "libs \<Rightarrow> stored_event \<Rightarrow> string" where
  "py_event_repr L e =
     ''StoredEvent(stream_id='' @ debug_string L (ev_stream_id e) @ '', version='' @
     show_nat (unat (ev_version e)) @ '', event_type='' @ debug_string L (ev_event_type e) @ '')''"

section \<open>Appends, queries and branches\<close>

text \<open>An argument that was left out has its default.\<close>

definition given_or :: "'a \<Rightarrow> 'a option \<Rightarrow> 'a" where
  "given_or dflt x = (case x of None \<Rightarrow> dflt | Some a \<Rightarrow> a)"

record 'p py_append =
  pa_stream_id :: string
  pa_branch :: string
  pa_event_type :: string
  pa_type_version :: u32
  pa_payload :: 'p
  pa_causation_id :: "event_id option"
  pa_correlation_id :: "event_id option"
  pa_external_id :: "string option"
  pa_indexed_tags :: "'p option"
  pa_timestamp_us :: "i64 option"

definition py_append_new ::
  "string \<Rightarrow> string \<Rightarrow> 'p \<Rightarrow> string option \<Rightarrow> u32 option \<Rightarrow> event_id option \<Rightarrow> event_id option \<Rightarrow>
     string option \<Rightarrow> 'p option \<Rightarrow> i64 option \<Rightarrow> 'p py_append" where
  "py_append_new stream_id event_type payload branch type_version causation_id correlation_id
       external_id indexed_tags timestamp_us =
     \<lparr>pa_stream_id = stream_id, pa_branch = given_or ''main'' branch, pa_event_type = event_type,
      pa_type_version = given_or 1 type_version, pa_payload = payload,
      pa_causation_id = causation_id, pa_correlation_id = correlation_id,
      pa_external_id = external_id, pa_indexed_tags = indexed_tags, pa_timestamp_us = timestamp_us\<rparr>"

definition py_append_to_rust :: "'p py_lib \<Rightarrow> libs \<Rightarrow> 'p py_append \<Rightarrow> py_err + append_req" where
  "py_append_to_rust P L a =
     bind_res (py_to_json P L (pa_payload a)) (\<lambda>payload_json.
     bind_res (py_to_json_option P L (pa_indexed_tags a)) (\<lambda>indexed_tags.
       Inr \<lparr>a_stream_id = pa_stream_id a, a_branch = pa_branch a, a_event_type = pa_event_type a,
            a_type_version = pa_type_version a, a_payload = payload_json,
            a_causation_id = pa_causation_id a, a_correlation_id = pa_correlation_id a,
            a_external_id = pa_external_id a, a_indexed_tags = indexed_tags,
            a_timestamp_us = pa_timestamp_us a\<rparr>))"

record py_read_query =
  pq_stream_id :: string
  pq_branch :: string
  pq_from_version :: "u64 option"
  pq_to_version :: "u64 option"
  pq_limit :: "u64 option"
  pq_event_type_filter :: "string option"

definition py_read_query_new ::
  "string \<Rightarrow> string option \<Rightarrow> u64 option \<Rightarrow> u64 option \<Rightarrow> u64 option \<Rightarrow> string option \<Rightarrow>
     py_read_query" where
  "py_read_query_new stream_id branch from_version to_version limit event_type_filter =
     \<lparr>pq_stream_id = stream_id, pq_branch = given_or ''main'' branch,
      pq_from_version = from_version, pq_to_version = to_version, pq_limit = limit,
      pq_event_type_filter = event_type_filter\<rparr>"

definition py_read_query_to_rust :: "py_read_query \<Rightarrow> read_query" where
  "py_read_query_to_rust q =
     \<lparr>q_stream_id = pq_stream_id q, q_branch = pq_branch q, q_from_version = pq_from_version q,
      q_to_version = pq_to_version q, q_limit = pq_limit q,
      q_event_type_filter = pq_event_type_filter q\<rparr>"

record 'p py_create_branch =
  pc_stream_id :: string
  pc_branch_id :: string
  pc_parent_id :: string
  pc_parent_version :: u64
  pc_description :: "string option"
  pc_alternatives :: "'p option"

definition py_create_branch_new ::
  "string \<Rightarrow> string \<Rightarrow> string option \<Rightarrow> u64 option \<Rightarrow> string option \<Rightarrow> 'p option \<Rightarrow>
     'p py_create_branch" where
  "py_create_branch_new stream_id branch_id parent_id parent_version description alternatives =
     \<lparr>pc_stream_id = stream_id, pc_branch_id = branch_id, pc_parent_id = given_or ''main'' parent_id,
      pc_parent_version = given_or 0 parent_version, pc_description = description,
      pc_alternatives = alternatives\<rparr>"

definition py_create_branch_to_rust ::
  "'p py_lib \<Rightarrow> libs \<Rightarrow> 'p py_create_branch \<Rightarrow> py_err + create_branch_req" where
  "py_create_branch_to_rust P L b =
     bind_res (py_to_json_option P L (pc_alternatives b)) (\<lambda>alternatives.
       Inr \<lparr>cb_stream_id = pc_stream_id b, cb_branch_id = pc_branch_id b,
            cb_parent_id = pc_parent_id b, cb_parent_version = pc_parent_version b,
            cb_description = pc_description b, cb_alternatives = alternatives\<rparr>)"

record 'p py_aggregate_query =
  pg_stream_pattern :: string
  pg_branch :: string
  pg_event_type_filter :: "string option"
  pg_from_timestamp_us :: "i64 option"
  pg_to_timestamp_us :: "i64 option"
  pg_indexed_tags_filter :: "'p option"

definition py_aggregate_query_new ::
  "string option \<Rightarrow> string option \<Rightarrow> string option \<Rightarrow> i64 option \<Rightarrow> i64 option \<Rightarrow> 'p option \<Rightarrow>
     'p py_aggregate_query" where
  "py_aggregate_query_new stream_pattern branch event_type_filter from_timestamp_us to_timestamp_us
       indexed_tags_filter =
     \<lparr>pg_stream_pattern = given_or ''*'' stream_pattern, pg_branch = given_or ''main'' branch,
      pg_event_type_filter = event_type_filter, pg_from_timestamp_us = from_timestamp_us,
      pg_to_timestamp_us = to_timestamp_us, pg_indexed_tags_filter = indexed_tags_filter\<rparr>"

section \<open>Options\<close>

record py_open_options =
  po_encryption :: string
  po_on_first_open :: string

definition py_open_options_new :: "string option \<Rightarrow> string option \<Rightarrow> py_open_options" where
  "py_open_options_new encryption on_first_open =
     \<lparr>po_encryption = given_or ''plaintext'' encryption,
      po_on_first_open = given_or ''create_if_missing'' on_first_open\<rparr>"

definition py_open_options_try_from :: "libs \<Rightarrow> py_open_options \<Rightarrow> py_err + open_options" where
  "py_open_options_try_from L o' =
     bind_res
       (if po_encryption o' = ''plaintext'' then Inr Plaintext
        else if po_encryption o' = ''os_keyring'' then Inr OsKeyring
        else Inl (py_value_error (''unknown encryption mode '' @ debug_string L (po_encryption o') @
               ''; expected \"plaintext\" or \"os_keyring\"''))) (\<lambda>encryption.
     bind_res
       (if po_on_first_open o' = ''create_if_missing'' then Inr CreateIfMissing
        else if po_on_first_open o' = ''require_existing'' then Inr RequireExisting
        else Inl (py_value_error (''unknown on_first_open '' @ debug_string L (po_on_first_open o') @
               ''; expected \"create_if_missing\" or \"require_existing\"''))) (\<lambda>on_first_open.
       Inr \<lparr>opt_encryption = encryption, opt_checkpoint_mode = CheckpointAuto,
            opt_on_first_open = on_first_open, opt_read_pool_size = 4,
            opt_read_pool_timeout_ms = 30000, opt_default_max_results = None,
            opt_default_max_bytes = None, opt_reducer_state_large_threshold_bytes = 1048576,
            opt_auto_gc_orphans = False, opt_background_executor_grace_timeout_ms = 10000,
            opt_executor_quiescence_window_ms = 2000\<rparr>))"

text \<open>\<open>SubModeKind\<close> is the mode of the core; \<open>post_commit\<close> has a default for its argument.\<close>

definition py_mode_post_commit :: "nat option \<Rightarrow> subscription_mode" where
  "py_mode_post_commit queue_size = ModePostCommit (given_or 1024 queue_size)"

definition py_mode_repr :: "subscription_mode \<Rightarrow> string" where
  "py_mode_repr m =
     (case m of
        ModeSynchronous \<Rightarrow> ''SubscriptionMode.synchronous()''
      | ModePostCommit _ \<Rightarrow> ''SubscriptionMode.post_commit(...)'')"

definition py_sampling_breadth_first :: "nat option \<Rightarrow> sampling_mode" where
  "py_sampling_breadth_first max_per_level = BreadthFirst (given_or 100 max_per_level)"

definition py_sampling_adaptive :: "nat option \<Rightarrow> sampling_mode" where
  "py_sampling_adaptive target_count = Adaptive (given_or 100 target_count)"

definition py_sampling_repr :: "sampling_mode \<Rightarrow> string" where
  "py_sampling_repr m =
     (case m of
        Exhaustive \<Rightarrow> ''SamplingMode.exhaustive()''
      | BreadthFirst n \<Rightarrow> ''SamplingMode.breadth_first(max_per_level='' @ show_nat n @ '')''
      | Adaptive n \<Rightarrow> ''SamplingMode.adaptive(target_count='' @ show_nat n @ '')'')"

section \<open>Streams, branches and snapshots\<close>

text \<open>The attributes of the wrapped values, and the method of a branch.\<close>

record py_stream_info =
  psi_id :: string
  psi_declared_by :: string
  psi_declared_at :: i64
  psi_description :: "string option"

definition py_stream_info_of :: "stream_info \<Rightarrow> py_stream_info" where
  "py_stream_info_of s =
     \<lparr>psi_id = si_id s, psi_declared_by = si_declared_by s, psi_declared_at = si_declared_at s,
      psi_description = si_description s\<rparr>"

definition py_stream_info_repr :: "libs \<Rightarrow> stream_info \<Rightarrow> string" where
  "py_stream_info_repr L s = ''StreamInfo(id='' @ debug_string L (si_id s) @ '')''"

record py_branch_info =
  pbi_id :: string
  pbi_stream_id :: string
  pbi_parent_id :: string
  pbi_parent_version :: u64
  pbi_description :: "string option"
  pbi_created_at :: i64
  pbi_lifecycle :: string
  pbi_closed_at :: "i64 option"
  pbi_closed_reason :: "string option"

definition py_branch_info_of :: "branch_info \<Rightarrow> py_branch_info" where
  "py_branch_info_of b =
     \<lparr>pbi_id = bi_id b, pbi_stream_id = bi_stream_id b, pbi_parent_id = bi_parent_id b,
      pbi_parent_version = bi_parent_version b, pbi_description = bi_description b,
      pbi_created_at = bi_created_at b, pbi_lifecycle = bi_lifecycle b,
      pbi_closed_at = bi_closed_at b, pbi_closed_reason = bi_closed_reason b\<rparr>"

definition py_branch_alternatives :: "'p py_lib \<Rightarrow> libs \<Rightarrow> branch_info \<Rightarrow> py_err + 'p option" where
  "py_branch_alternatives P L b = json_to_py_option P L (bi_alternatives b)"

definition py_branch_info_repr :: "libs \<Rightarrow> branch_info \<Rightarrow> string" where
  "py_branch_info_repr L b =
     ''BranchInfo(id='' @ debug_string L (bi_id b) @ '', lifecycle='' @
     debug_string L (bi_lifecycle b) @ '')''"

record py_branch_segment =
  pbs_branch_id :: string
  pbs_to_version :: "u64 option"

definition py_branch_segment_of :: "segment \<Rightarrow> py_branch_segment" where
  "py_branch_segment_of s = \<lparr>pbs_branch_id = fst s, pbs_to_version = snd s\<rparr>"

definition py_branch_segment_repr :: "libs \<Rightarrow> segment \<Rightarrow> string" where
  "py_branch_segment_repr L s =
     ''BranchSegment(branch_id='' @ debug_string L (fst s) @ '', to_version='' @
     (case snd s of None \<Rightarrow> ''None'' | Some v \<Rightarrow> ''Some('' @ show_nat (unat v) @ '')'') @ '')''"

record py_snapshot_info =
  psn_stream_id :: string
  psn_branch :: string
  psn_version :: u64
  psn_reducer_name :: string
  psn_reducer_version :: u32
  psn_state_schema_version :: u32
  psn_created_at :: i64

definition py_snapshot_info_of :: "snapshot_info \<Rightarrow> py_snapshot_info" where
  "py_snapshot_info_of s =
     \<lparr>psn_stream_id = sn_stream_id s, psn_branch = sn_branch s, psn_version = sn_version s,
      psn_reducer_name = sn_reducer_name s, psn_reducer_version = sn_reducer_version s,
      psn_state_schema_version = sn_state_schema_version s, psn_created_at = sn_created_at s\<rparr>"

definition py_snapshot_info_repr :: "libs \<Rightarrow> snapshot_info \<Rightarrow> string" where
  "py_snapshot_info_repr L s =
     ''SnapshotInfo(stream_id='' @ debug_string L (sn_stream_id s) @ '', version='' @
     show_nat (unat (sn_version s)) @ '')''"

section \<open>Bounded reads\<close>

definition py_cursor_to_bytes :: "truncation_cursor \<Rightarrow> bytes" where
  "py_cursor_to_bytes c = cursor_bytes c"

definition py_cursor_from_bytes :: "bytes \<Rightarrow> truncation_cursor" where
  "py_cursor_from_bytes b = TruncationCursor b"

text \<open>The cursor is copied through its bytes before a read.\<close>

definition py_cursor_clone :: "truncation_cursor \<Rightarrow> truncation_cursor" where
  "py_cursor_clone c = TruncationCursor (cursor_bytes c)"

definition py_cursor_repr :: "truncation_cursor \<Rightarrow> string" where
  "py_cursor_repr c =
     ''TruncationCursor(<'' @ show_nat (length (cursor_bytes c)) @ '' bytes>)''"

record py_read_outcome =
  pr_events :: "stored_event list"
  pr_is_truncated :: bool
  pr_reason :: "string option"
  pr_next_cursor :: "truncation_cursor option"

definition py_outcome_from :: "stored_event list read_outcome \<Rightarrow> py_read_outcome" where
  "py_outcome_from outcome =
     (case outcome of
        Complete events \<Rightarrow>
          \<lparr>pr_events = events, pr_is_truncated = False, pr_reason = None, pr_next_cursor = None\<rparr>
      | Truncated data cursor reason \<Rightarrow>
          \<lparr>pr_events = data, pr_is_truncated = True,
           pr_reason = Some (case reason of ResultCount \<Rightarrow> ''result_count'' | ByteSize \<Rightarrow> ''byte_size''),
           pr_next_cursor = cursor\<rparr>)"

text \<open>The properties of an outcome.\<close>

definition py_outcome_results :: "py_read_outcome \<Rightarrow> stored_event list" where
  "py_outcome_results r = pr_events r"

definition py_outcome_complete :: "py_read_outcome \<Rightarrow> bool" where
  "py_outcome_complete r \<longleftrightarrow> \<not> pr_is_truncated r"

definition py_outcome_next_cursor :: "py_read_outcome \<Rightarrow> truncation_cursor option" where
  "py_outcome_next_cursor r = map_option py_cursor_clone (pr_next_cursor r)"

definition py_outcome_repr :: "libs \<Rightarrow> py_read_outcome \<Rightarrow> string" where
  "py_outcome_repr L r =
     (if pr_is_truncated r
      then ''ReadOutcome.truncated(count='' @ show_nat (length (pr_events r)) @ '', reason='' @
        debug_string L (case pr_reason r of None \<Rightarrow> [] | Some s \<Rightarrow> s) @ '')''
      else ''ReadOutcome.complete(count='' @ show_nat (length (pr_events r)) @ '')'')"

lemma py_cursor_clone_id [simp]: "py_cursor_clone c = c"
  by (simp add: py_cursor_clone_def)

lemma py_outcome_next_cursor_id [simp]: "py_outcome_next_cursor r = pr_next_cursor r"
  by (cases "pr_next_cursor r") (simp_all add: py_outcome_next_cursor_def)

section \<open>Results\<close>

definition py_res :: "('a \<Rightarrow> 'b) \<Rightarrow> 'a res \<Rightarrow> py_err + 'b" where
  "py_res f r = (case r of Inl e \<Rightarrow> Inl (to_py_err e) | Inr a \<Rightarrow> Inr (f a))"

definition py_run :: "('a \<Rightarrow> 'b) \<Rightarrow> 'a res option \<Rightarrow> (py_err + 'b) option" where
  "py_run f r = map_option (py_res f) r"

definition py_change :: "('a \<Rightarrow> 'b) \<Rightarrow> store \<times> 'a res \<Rightarrow> store \<times> (py_err + 'b)" where
  "py_change f x = (case x of (st, r) \<Rightarrow> (st, py_res f r))"

lemma py_res_simps [simp]:
  "py_res f (Inl e) = Inl (to_py_err e)" "py_res f (Inr a) = Inr (f a)"
  by (simp_all add: py_res_def)

end
