(* ===== verification/Py_Store.thy ===== *)
theory Py_Store
  imports Py_Types
begin

text \<open>
  The class \<open>Store\<close> of the Python binding (\<open>fossic-py/src/store.rs\<close>): the adapters that make Python
  callables and objects into transforms, upcasters and reducers, every method, and the iterators.
  Which thread holds the interpreter lock is not modelled.
\<close>

section \<open>Python callables as transforms and upcasters\<close>

text \<open>The arrow in the messages is one character of three bytes.\<close>

definition arrow :: string where
  "arrow = [CHR 0xE2, CHR 0x86, CHR 0x92]"

definition py_transform ::
  "'p py_lib \<Rightarrow> libs \<Rightarrow> (string \<Rightarrow> 'p \<Rightarrow> py_err + 'p) \<Rightarrow> string \<Rightarrow> bytes \<Rightarrow> bytes res" where
  "py_transform P L callable event_type payload =
     bind_res (map_err MsgpackDecode (mp_from_slice L payload)) (\<lambda>v.
     bind_res (map_err (\<lambda>e. Internal (''transform payload '' @ arrow @ '' Python: '' @ py_err_text P e))
       (json_to_py P L v)) (\<lambda>py_payload.
     bind_res (map_err (\<lambda>e. Internal (''transform callable raised: '' @ py_err_text P e))
       (callable event_type py_payload)) (\<lambda>result.
     bind_res (map_err (\<lambda>e. Internal (''transform result '' @ arrow @ '' JSON: '' @ py_err_text P e))
       (py_to_json P L result)) (\<lambda>json_v.
       map_err MsgpackEncode (mp_to_vec L json_v)))))"

definition py_upcaster ::
  "'p py_lib \<Rightarrow> libs \<Rightarrow> ('p \<Rightarrow> py_err + 'p) \<Rightarrow> bytes \<Rightarrow> bytes res" where
  "py_upcaster P L callable payload =
     bind_res (map_err MsgpackDecode (mp_from_slice L payload)) (\<lambda>v.
     bind_res (map_err (\<lambda>e. Internal (''upcaster payload '' @ arrow @ '' Python: '' @ py_err_text P e))
       (json_to_py P L v)) (\<lambda>py_payload.
     bind_res (map_err (\<lambda>e. Internal (''upcaster callable raised: '' @ py_err_text P e))
       (callable py_payload)) (\<lambda>result.
     bind_res (map_err (\<lambda>e. Internal (''upcaster result '' @ arrow @ '' JSON: '' @ py_err_text P e))
       (py_to_json P L result)) (\<lambda>json_v.
       map_err MsgpackEncode (mp_to_vec L json_v)))))"

section \<open>Python objects as reducers\<close>

text \<open>
  What the object answers: an attribute is \<open>None\<close> when it is missing or of another type.
\<close>

record 'p py_reducer =
  pd_name :: "string option"
  pd_version :: "u32 option"
  pd_state_schema_version :: "u32 option"
  pd_initial_state :: "py_err + 'p"
  pd_apply :: "'p \<Rightarrow> 'p \<Rightarrow> py_err + 'p"

definition reducer_error :: "'p py_lib \<Rightarrow> string \<Rightarrow> py_err \<Rightarrow> error" where
  "reducer_error P what e = ReducerError (what @ py_err_text P e)"

definition py_initial_state_bytes :: "'p py_lib \<Rightarrow> libs \<Rightarrow> 'p py_reducer \<Rightarrow> bytes res" where
  "py_initial_state_bytes P L obj =
     bind_res (map_err (reducer_error P ''initial_state() raised: '') (pd_initial_state obj)) (\<lambda>py_state.
     bind_res (map_err (reducer_error P ''initial_state result not JSON-serialisable: '')
       (py_to_json P L py_state)) (\<lambda>json_v.
       map_err MsgpackEncode (mp_to_vec L json_v)))"

definition py_apply_bytes :: "'p py_lib \<Rightarrow> libs \<Rightarrow> 'p py_reducer \<Rightarrow> bytes \<Rightarrow> bytes \<Rightarrow> bytes res" where
  "py_apply_bytes P L obj stored_state event_payload =
     bind_res (map_err MsgpackDecode (mp_from_slice L stored_state)) (\<lambda>state_json.
     bind_res (map_err (reducer_error P ''state deserialise to Python: '')
       (json_to_py P L state_json)) (\<lambda>py_state.
     bind_res (map_err MsgpackDecode (mp_from_slice L event_payload)) (\<lambda>event_json.
     bind_res (map_err (reducer_error P ''event_payload deserialise to Python: '')
       (json_to_py P L event_json)) (\<lambda>py_event.
     bind_res (map_err (reducer_error P ''apply() raised: '')
       (pd_apply obj py_state py_event)) (\<lambda>new_state.
     bind_res (map_err (reducer_error P ''apply result not JSON-serialisable: '')
       (py_to_json P L new_state)) (\<lambda>new_json.
       map_err MsgpackEncode (mp_to_vec L new_json)))))))"

definition py_dyn_reducer ::
  "'p py_lib \<Rightarrow> libs \<Rightarrow> string \<Rightarrow> u32 \<Rightarrow> u32 \<Rightarrow> 'p py_reducer \<Rightarrow> boxed_reducer" where
  "py_dyn_reducer P L name version state_schema_version obj =
     \<lparr>rd_name = name, rd_version = version, rd_state_schema_version = state_schema_version,
      rd_initial_state_bytes = py_initial_state_bytes P L obj,
      rd_apply_bytes = (\<lambda>state event. Returned (py_apply_bytes P L obj state event))\<rparr>"

definition attribute :: "string \<Rightarrow> 'a option \<Rightarrow> py_err + 'a" where
  "attribute text x = (case x of None \<Rightarrow> Inl (PyErr PyAttributeError (PyText text)) | Some a \<Rightarrow> Inr a)"

definition py_register_reducer ::
  "'p py_lib \<Rightarrow> libs \<Rightarrow> string \<Rightarrow> 'p py_reducer \<Rightarrow> store \<Rightarrow> store \<times> (py_err + unit)" where
  "py_register_reducer P L pattern obj st =
     (case bind_res (attribute ''reducer must have a `name: str` attribute'' (pd_name obj)) (\<lambda>name.
           bind_res (attribute ''reducer must have a `version: int` attribute'' (pd_version obj)) (\<lambda>version.
           bind_res (attribute ''reducer must have a `state_schema_version: int` attribute''
             (pd_state_schema_version obj)) (\<lambda>schema.
             Inr (py_dyn_reducer P L name version schema obj)))) of
        Inl e \<Rightarrow> (st, Inl e)
      | Inr reducer \<Rightarrow> py_change id (store_register_reducer pattern reducer Manual st))"

definition py_state :: "'p py_lib \<Rightarrow> libs \<Rightarrow> bytes res \<Rightarrow> py_err + 'p" where
  "py_state P L r =
     bind_res (py_res id r) (\<lambda>bytes.
     bind_res (map_err py_value_error (mp_from_slice L bytes)) (\<lambda>json_v.
       json_to_py P L json_v))"

definition py_read_state ::
  "'p py_lib \<Rightarrow> libs \<Rightarrow> (nat \<Rightarrow> i64) \<Rightarrow> string \<Rightarrow> string \<Rightarrow> store \<Rightarrow> store \<times> (py_err + 'p)" where
  "py_read_state P L clock stream_id branch st =
     (let (st', r) = store_read_state_bytes L clock stream_id branch st in (st', py_state P L r))"

definition py_read_state_at_version ::
  "'p py_lib \<Rightarrow> libs \<Rightarrow> store \<Rightarrow> string \<Rightarrow> string \<Rightarrow> u64 \<Rightarrow> py_err + 'p" where
  "py_read_state_at_version P L st stream_id branch version =
     py_state P L
       (read_state_bytes_at_version L (so_db st) (ss_reducers (so_state st)) stream_id branch version)"

section \<open>Opening, streams and appends\<close>

text \<open>\<open>expand\<close> is \<open>shellexpand::tilde\<close>.\<close>

definition py_open ::
  "(string \<Rightarrow> string) \<Rightarrow> libs \<Rightarrow> string \<Rightarrow> string \<Rightarrow> (nat \<Rightarrow> i64) \<Rightarrow> string \<Rightarrow> py_open_options option \<Rightarrow>
     (string \<Rightarrow> db option) \<Rightarrow> py_err + store" where
  "py_open expand L crate_version now_text clock path options files =
     bind_res
       (case options of None \<Rightarrow> Inr open_options_default | Some o' \<Rightarrow> py_open_options_try_from L o')
       (\<lambda>opts. py_res id
         (store_open crate_version now_text clock (expand path) opts (files (expand path))))"

definition py_declare_stream ::
  "libs \<Rightarrow> i64 \<Rightarrow> string \<Rightarrow> string \<Rightarrow> string option \<Rightarrow> store \<Rightarrow> store \<times> (py_err + unit)" where
  "py_declare_stream L now stream_id declared_by description st =
     py_change id (store_declare_stream L now stream_id declared_by description st)"

definition py_streams :: "store \<Rightarrow> py_err + py_stream_info list" where
  "py_streams st = py_res (map py_stream_info_of) (Inr (streams_impl (so_db st)))"

definition py_stream_exists :: "store \<Rightarrow> string \<Rightarrow> py_err + bool" where
  "py_stream_exists st stream_id = py_res id (Inr (stream_exists_impl (so_db st) stream_id))"

definition py_append_op ::
  "'p py_lib \<Rightarrow> libs \<Rightarrow> i64 \<Rightarrow> i64 \<Rightarrow> 'p py_append \<Rightarrow> store \<Rightarrow> store \<times> (py_err + event_id)" where
  "py_append_op P L now now2 a st =
     (case py_append_to_rust P L a of
        Inl e \<Rightarrow> (st, Inl e)
      | Inr rust_a \<Rightarrow> py_change id (store_append L now now2 rust_a st))"

text \<open>The appends come with the readings of the clock.\<close>

definition py_append_batch ::
  "'p py_lib \<Rightarrow> libs \<Rightarrow> i64 \<Rightarrow> ('p py_append \<times> i64) list \<Rightarrow> store \<Rightarrow>
     store \<times> (py_err + event_id list)" where
  "py_append_batch P L now2 appends st =
     (case collect_res (\<lambda>(a, now). bind_res (py_append_to_rust P L a) (\<lambda>r. Inr (r, now))) appends of
        Inl e \<Rightarrow> (st, Inl e)
      | Inr rust \<Rightarrow> py_change id (store_append_batch L now2 rust st))"

definition py_register_upcaster ::
  "'p py_lib \<Rightarrow> libs \<Rightarrow> i64 \<Rightarrow> string \<Rightarrow> u32 \<Rightarrow> u32 \<Rightarrow> ('p \<Rightarrow> py_err + 'p) \<Rightarrow> store \<Rightarrow>
     store \<times> (py_err + unit)" where
  "py_register_upcaster P L now event_type from_version to_version callable st =
     (store_register_upcaster_op now event_type from_version to_version (py_upcaster P L callable) st,
      Inr ())"

definition py_register_payload_transform ::
  "'p py_lib \<Rightarrow> libs \<Rightarrow> string \<Rightarrow> (string \<Rightarrow> 'p \<Rightarrow> py_err + 'p) \<Rightarrow> store \<Rightarrow> store \<times> (py_err + unit)" where
  "py_register_payload_transform P L stream_pattern callable st =
     (store_register_transform stream_pattern (py_transform P L callable) st, Inr ())"

section \<open>Reads\<close>

text \<open>An event is returned as it is; its class is a wrapper.\<close>

definition py_read_range ::
  "libs \<Rightarrow> store \<Rightarrow> py_read_query \<Rightarrow> (py_err + stored_event list) option" where
  "py_read_range L st query =
     py_run id (store_read_range L (so_db st) (so_upcasters st) (py_read_query_to_rust query))"

definition py_read_one :: "libs \<Rightarrow> store \<Rightarrow> event_id \<Rightarrow> (py_err + stored_event option) option" where
  "py_read_one L st i = py_run id (store_read_one L (so_db st) (so_upcasters st) i)"

definition py_read_batch :: "libs \<Rightarrow> store \<Rightarrow> event_id list \<Rightarrow> (py_err + stored_event list) option" where
  "py_read_batch L st ids = py_run id (store_read_batch L (so_db st) (so_upcasters st) ids)"

definition py_read_by_external_id ::
  "libs \<Rightarrow> store \<Rightarrow> string \<Rightarrow> string \<Rightarrow> (py_err + stored_event option) option" where
  "py_read_by_external_id L st stream_id external_id =
     py_run id (store_read_by_external_id L (so_db st) (so_upcasters st) stream_id external_id)"

definition py_read_by_correlation ::
  "libs \<Rightarrow> store \<Rightarrow> event_id \<Rightarrow> (py_err + stored_event list) option" where
  "py_read_by_correlation L st i =
     py_run id (store_read_by_correlation L (so_db st) (so_upcasters st) i)"

definition py_parse_direction :: "libs \<Rightarrow> string \<Rightarrow> py_err + walk_direction" where
  "py_parse_direction L s =
     (if s = ''forward'' then Inr Forward
      else if s = ''backward'' then Inr Backward
      else if s = ''both'' then Inr Both
      else Inl (py_value_error (''unknown direction '' @ debug_string L s @
             ''; expected \"forward\", \"backward\", or \"both\"'')))"

definition py_walk_causation ::
  "libs \<Rightarrow> store \<Rightarrow> event_id \<Rightarrow> string \<Rightarrow> nat \<Rightarrow> (py_err + stored_event list) option" where
  "py_walk_causation L st start direction max_depth =
     bind_run (Some (py_parse_direction L direction)) (\<lambda>dir.
       py_run id (store_walk_causation L (so_db st) (so_upcasters st) start dir max_depth))"

definition py_read_range_bounded ::
  "libs \<Rightarrow> store \<Rightarrow> py_read_query \<Rightarrow> nat option \<Rightarrow> nat option \<Rightarrow> truncation_cursor option \<Rightarrow>
     (py_err + py_read_outcome) option" where
  "py_read_range_bounded L st query max_results max_bytes cursor =
     py_run py_outcome_from
       (store_read_range_bounded L (ss_options (so_state st)) (so_db st) (so_upcasters st)
          (py_read_query_to_rust query) max_results max_bytes (map_option py_cursor_clone cursor))"

definition py_read_by_correlation_bounded ::
  "libs \<Rightarrow> store \<Rightarrow> event_id \<Rightarrow> nat option \<Rightarrow> nat option \<Rightarrow> truncation_cursor option \<Rightarrow>
     (py_err + py_read_outcome) option" where
  "py_read_by_correlation_bounded L st i max_results max_bytes cursor =
     py_run py_outcome_from
       (store_read_by_correlation_bounded L (ss_options (so_state st)) (so_db st) (so_upcasters st)
          i max_results max_bytes (map_option py_cursor_clone cursor))"

definition py_walk_causation_bounded ::
  "libs \<Rightarrow> store \<Rightarrow> event_id \<Rightarrow> string option \<Rightarrow> nat option \<Rightarrow> sampling_mode option \<Rightarrow> nat option \<Rightarrow>
     nat option \<Rightarrow> truncation_cursor option \<Rightarrow> (py_err + py_read_outcome) option" where
  "py_walk_causation_bounded L st start direction max_depth sampling max_results max_bytes cursor =
     bind_run (Some (py_parse_direction L (given_or ''forward'' direction))) (\<lambda>dir.
       py_run py_outcome_from
         (store_walk_causation_bounded L (ss_options (so_state st)) (so_db st) (so_upcasters st) start
            \<lparr>wp_direction = dir, wp_max_depth = given_or 100 max_depth,
             wp_sampling = given_or Exhaustive sampling, wp_max_results = max_results,
             wp_max_bytes = max_bytes\<rparr>
            (map_option py_cursor_clone cursor)))"

text \<open>The aggregate that collects every event, and the query with its tags made JSON.\<close>

definition collect_all :: "(stored_event list, stored_event list) aggregator" where
  "collect_all = \<lparr>agg_fold = (\<lambda>es e. es @ [e]), agg_finalize = (\<lambda>es. es)\<rparr>"

definition py_aggregate ::
  "'p py_lib \<Rightarrow> libs \<Rightarrow> store \<Rightarrow> 'p py_aggregate_query \<Rightarrow> (py_err + stored_event list) option" where
  "py_aggregate P L st query =
     bind_run (Some (py_to_json_option P L (pg_indexed_tags_filter query))) (\<lambda>indexed_tags_filter.
       py_run id (store_aggregate L (so_db st) (so_upcasters st)
         \<lparr>aq_stream_pattern = pg_stream_pattern query, aq_branch = pg_branch query,
          aq_event_type_filter = pg_event_type_filter query,
          aq_from_timestamp_us = pg_from_timestamp_us query,
          aq_to_timestamp_us = pg_to_timestamp_us query,
          aq_indexed_tags_filter = indexed_tags_filter\<rparr>
         collect_all []))"

section \<open>Iterators\<close>

text \<open>
  The three classes share their step; \<open>fetch\<close> is the bounded read of their iterator. An iterator
  over a walk is made from the direction and its defaults.
\<close>

definition py_walk_iter_params ::
  "libs \<Rightarrow> string option \<Rightarrow> nat option \<Rightarrow> sampling_mode option \<Rightarrow>
     py_err + walk_direction \<times> nat \<times> sampling_mode" where
  "py_walk_iter_params L direction max_depth sampling =
     bind_res (py_parse_direction L (given_or ''forward'' direction)) (\<lambda>dir.
       Inr (dir, given_or 100 max_depth, given_or Exhaustive sampling))"

definition py_iter_next :: "fetcher \<Rightarrow> iter \<Rightarrow> (py_err + stored_event option) \<times> iter" where
  "py_iter_next fetch it =
     (case iter_next fetch it of
        (None, it') \<Rightarrow> (Inr None, it')
      | (Some (Inr ev), it') \<Rightarrow> (Inr (Some ev), it')
      | (Some (Inl e), it') \<Rightarrow> (Inl (to_py_err e), it'))"

text \<open>A Python \<open>for\<close> loop: it ends at \<open>None\<close> or with an exception.\<close>

fun py_for ::
  "fetcher \<Rightarrow> nat \<Rightarrow> iter \<Rightarrow> (stored_event list \<times> py_err option) option" where
  "py_for fetch 0 it = None"
| "py_for fetch (Suc n) it =
     (case py_iter_next fetch it of
        (Inr None, _) \<Rightarrow> Some ([], None)
      | (Inl e, _) \<Rightarrow> Some ([], Some e)
      | (Inr (Some ev), it') \<Rightarrow> map_option (\<lambda>(evs, err). (ev # evs, err)) (py_for fetch n it'))"

section \<open>Deletion, cursors, branches, snapshots and the registry\<close>

definition py_purge_event ::
  "libs \<Rightarrow> i64 \<Rightarrow> event_id \<Rightarrow> string \<Rightarrow> string \<Rightarrow> string \<Rightarrow> store \<Rightarrow> store \<times> (py_err + unit)" where
  "py_purge_event L now i confirm reason purged_by st =
     py_change id (store_purge_event L now i confirm reason purged_by st)"

definition py_shred_stream :: "string \<Rightarrow> string \<Rightarrow> store \<Rightarrow> store \<times> (py_err + unit)" where
  "py_shred_stream stream_id reason st = py_change id (store_shred_stream stream_id reason st)"

definition py_get_cursor :: "store \<Rightarrow> string \<Rightarrow> string \<Rightarrow> string \<Rightarrow> py_err + u64 option" where
  "py_get_cursor st consumer_id stream_id branch =
     py_res id (Inr (get_cursor_impl (so_db st) consumer_id stream_id branch))"

definition py_set_cursor ::
  "i64 \<Rightarrow> string \<Rightarrow> string \<Rightarrow> string \<Rightarrow> u64 \<Rightarrow> store \<Rightarrow> store \<times> (py_err + unit)" where
  "py_set_cursor now consumer_id stream_id branch version st =
     py_change id (store_set_cursor now consumer_id stream_id branch version st)"

definition py_create_branch_op ::
  "'p py_lib \<Rightarrow> libs \<Rightarrow> i64 \<Rightarrow> 'p py_create_branch \<Rightarrow> store \<Rightarrow> store \<times> (py_err + unit)" where
  "py_create_branch_op P L now b st =
     (case py_create_branch_to_rust P L b of
        Inl e \<Rightarrow> (st, Inl e)
      | Inr rust_b \<Rightarrow> py_change id (store_create_branch_op L now rust_b st))"

definition py_promote_branch ::
  "i64 \<Rightarrow> string \<Rightarrow> string \<Rightarrow> string option \<Rightarrow> store \<Rightarrow> store \<times> (py_err + unit)" where
  "py_promote_branch now stream_id branch_id reason st =
     py_change id (store_promote_branch now stream_id branch_id reason st)"

definition py_mark_branch_dead_end ::
  "i64 \<Rightarrow> string \<Rightarrow> string \<Rightarrow> string option \<Rightarrow> store \<Rightarrow> store \<times> (py_err + unit)" where
  "py_mark_branch_dead_end now stream_id branch_id reason st =
     py_change id (store_mark_branch_dead_end now stream_id branch_id reason st)"

definition py_list_branches :: "libs \<Rightarrow> store \<Rightarrow> string \<Rightarrow> py_err + py_branch_info list" where
  "py_list_branches L st stream_id =
     py_res (map py_branch_info_of) (Inr (list_branches_impl L (so_db st) stream_id))"

text \<open>The chain comes from the cache of the store, which the call may fill.\<close>

definition py_resolve_chain ::
  "string \<Rightarrow> string \<Rightarrow> store \<Rightarrow> (store \<times> (py_err + py_branch_segment list)) option" where
  "py_resolve_chain stream_id branch_id st =
     map_option (\<lambda>r. case r of
         Inl e \<Rightarrow> (st, Inl (to_py_err e))
       | Inr (bs, chain) \<Rightarrow>
           (st\<lparr>so_branch_cache := bs_cache bs\<rparr>, Inr (map py_branch_segment_of chain)))
       (store_resolve_chain
          \<lparr>bs_db = so_db st, bs_cache = so_branch_cache st, bs_pending = []\<rparr> stream_id branch_id)"

definition py_snapshot_info_op ::
  "store \<Rightarrow> string \<Rightarrow> string \<Rightarrow> string \<Rightarrow> py_err + py_snapshot_info option" where
  "py_snapshot_info_op st stream_id branch reducer_name =
     py_res (map_option py_snapshot_info_of)
       (Inr (snapshot_info_impl (so_db st) stream_id branch reducer_name))"

definition py_take_snapshot ::
  "libs \<Rightarrow> i64 \<Rightarrow> string \<Rightarrow> string \<Rightarrow> store \<Rightarrow> store \<times> (py_err + py_snapshot_info)" where
  "py_take_snapshot L now stream_id branch st =
     py_change py_snapshot_info_of (store_take_snapshot L now stream_id branch st)"

definition py_gc_orphaned_snapshots :: "store \<Rightarrow> store \<times> (py_err + nat)" where
  "py_gc_orphaned_snapshots st =
     (let (st', n) = store_gc_orphaned_snapshots st in py_change id (st', Inr n))"

definition py_emit_project_registered ::
  "libs \<Rightarrow> i64 \<Rightarrow> string \<Rightarrow> string \<Rightarrow> string \<Rightarrow> string \<Rightarrow> store \<Rightarrow> store \<times> (py_err + unit)" where
  "py_emit_project_registered L now source_store local_store_path subscribe_pattern
       project_description st =
     (store_emit_project_registered L now source_store local_store_path subscribe_pattern
        project_description st, Inr ())"

definition py_emit_relay_heartbeat ::
  "libs \<Rightarrow> i64 \<Rightarrow> string \<Rightarrow> i64 \<Rightarrow> u64 \<Rightarrow> i64 \<Rightarrow> store \<Rightarrow> store \<times> (py_err + unit)" where
  "py_emit_relay_heartbeat L now source_store last_event_version queue_lag uptime_us st =
     (store_emit_relay_heartbeat L now source_store last_event_version queue_lag uptime_us st, Inr ())"

end
