(* ===== verification/Py_Reducers.thy ===== *)
theory Py_Reducers
  imports Py_Store Publishing
begin

text \<open>
  A Python reducer in the store. The store keeps its state as bytes and calls it through three
  codecs; the abstract side is the fold a Python programmer writes, over Python objects, in which
  every state goes through JSON once.
\<close>

section \<open>The fold in Python\<close>

definition msgpack_ok :: "libs \<Rightarrow> bool" where
  "msgpack_ok L \<longleftrightarrow> (\<forall>j. \<exists>b. mp_to_vec L j = Inr b \<and> mp_from_slice L b = Inr j)"

definition py_through_json :: "'p py_lib \<Rightarrow> libs \<Rightarrow> 'p \<Rightarrow> py_err + 'p" where
  "py_through_json P L obj = bind_res (py_to_json P L obj) (json_to_py P L)"

fun py_fold :: "'p py_lib \<Rightarrow> libs \<Rightarrow> 'p py_reducer \<Rightarrow> 'p \<Rightarrow> 'p list \<Rightarrow> py_err + 'p" where
  "py_fold P L obj s [] = Inr s"
| "py_fold P L obj s (e # es) =
     bind_res (pd_apply obj s e) (\<lambda>s1. bind_res (py_through_json P L s1) (\<lambda>s2. py_fold P L obj s2 es))"

definition py_fold_from_start :: "'p py_lib \<Rightarrow> libs \<Rightarrow> 'p py_reducer \<Rightarrow> 'p list \<Rightarrow> py_err + 'p" where
  "py_fold_from_start P L obj es =
     bind_res (pd_initial_state obj) (\<lambda>s0. bind_res (py_through_json P L s0) (\<lambda>s1. py_fold P L obj s1 es))"

section \<open>The bytes represent the Python state\<close>

lemma msgpack_encode:
  assumes "msgpack_ok L"
  obtains b where "mp_to_vec L j = Inr b" and "mp_from_slice L b = Inr j"
  using assms unfolding msgpack_ok_def by blast

lemma py_state_bytes: "mp_from_slice L b = Inr j \<Longrightarrow> py_state P L (Inr b) = json_to_py P L j"
  by (simp add: py_state_def)

lemma py_state_Inl [simp]: "py_state P L (Inl e) = Inl (to_py_err e)"
  by (simp add: py_state_def)

lemma fold_events_Cons:
  "fold_events (py_dyn_reducer P L name version schema obj) s b (e # es) =
     bind_res (py_apply_bytes P L obj b (ev_payload e))
       (\<lambda>b'. fold_events (py_dyn_reducer P L name version schema obj) s b' es)"
  by (simp add: fold_events_def apply_reducer_guarded_def py_dyn_reducer_def)

lemma py_apply_bytes_step:
  assumes "mp_from_slice L b = Inr j" and "py_event_payload P L e = Inr p"
  shows "py_apply_bytes P L obj b (ev_payload e) =
    bind_res (map_err (reducer_error P ''state deserialise to Python: '') (json_to_py P L j)) (\<lambda>s0.
    bind_res (map_err (reducer_error P ''apply() raised: '') (pd_apply obj s0 p)) (\<lambda>s1.
    bind_res (map_err (reducer_error P ''apply result not JSON-serialisable: '') (py_to_json P L s1)) (\<lambda>j1.
      map_err MsgpackEncode (mp_to_vec L j1))))"
proof -
  from assms(2) obtain k where "mp_from_slice L (ev_payload e) = Inr k" "json_to_py P L k = Inr p"
    by (cases "mp_from_slice L (ev_payload e)") (auto simp: py_event_payload_def payload_to_py_def)
  with assms(1) show ?thesis
    by (cases "json_to_py P L j") (simp_all add: py_apply_bytes_def)
qed

lemma py_fold_events:
  assumes "msgpack_ok L" and "mp_from_slice L b = Inr j"
    and "list_all2 (\<lambda>e p. py_event_payload P L e = Inr p) es ps"
  shows "py_state P L (fold_events (py_dyn_reducer P L name version schema obj) s b es) = Inr t \<longleftrightarrow>
    bind_res (json_to_py P L j) (\<lambda>s0. py_fold P L obj s0 ps) = Inr t"
  using assms(3,2)
proof (induction es ps arbitrary: b j rule: list_all2_induct)
  case Nil
  then show ?case by (cases "json_to_py P L j") (simp_all add: fold_events_def py_state_bytes)
next
  case (Cons e es p ps)
  note step = py_apply_bytes_step [OF Cons.prems Cons.hyps(1), of obj]
  show ?case
  proof (cases "json_to_py P L j")
    case (Inr s0)
    note s0 = this
    show ?thesis
    proof (cases "pd_apply obj s0 p")
      case (Inr s1)
      note s1 = this
      show ?thesis
      proof (cases "py_to_json P L s1")
        case (Inr j1)
        obtain b1 where "mp_to_vec L j1 = Inr b1" "mp_from_slice L b1 = Inr j1"
          by (rule msgpack_encode [OF assms(1)])
        with Cons.IH [of b1 j1] s0 s1 Inr show ?thesis
          by (simp add: fold_events_Cons step py_through_json_def)
      qed (simp add: fold_events_Cons step s0 s1 py_through_json_def)
    qed (simp add: fold_events_Cons step s0)
  qed (simp add: fold_events_Cons step)
qed

lemma py_full_state:
  assumes "msgpack_ok L"
    and "list_all2 (\<lambda>e p. py_event_payload P L e = Inr p) (branch_log L d s b 0 hi) ps"
  shows "py_state P L (full_state L d (py_dyn_reducer P L name version schema obj) s b hi) = Inr t \<longleftrightarrow>
    py_fold_from_start P L obj ps = Inr t"
proof (cases "pd_initial_state obj")
  case (Inr s0)
  note s0 = this
  show ?thesis
  proof (cases "py_to_json P L s0")
    case (Inr j)
    obtain b0 where "mp_to_vec L j = Inr b0" "mp_from_slice L b0 = Inr j"
      by (rule msgpack_encode [OF assms(1)])
    with py_fold_events [OF assms(1) this(2) assms(2), of name version schema obj s t] s0 Inr
    show ?thesis
      by (simp add: full_state_def py_fold_from_start_def py_through_json_def py_dyn_reducer_def
          py_initial_state_bytes_def)
  qed (simp add: full_state_def py_fold_from_start_def py_through_json_def py_dyn_reducer_def
      py_initial_state_bytes_def s0)
qed (simp add: full_state_def py_fold_from_start_def py_dyn_reducer_def py_initial_state_bytes_def)

section \<open>Reading a state in Python\<close>


text \<open>A reducer that collects the payloads in nested arrays; here Python objects are JSON values.\<close>

definition demo_py :: "json py_lib" where
  "demo_py =
     \<lparr>py_loads = (\<lambda>s. case json_from_str demo_libs s of
          None \<Rightarrow> Inl (PyErr PyValueError (PyBadJson s)) | Some j \<Rightarrow> Inr j),
      py_dumps = (\<lambda>j. Inr (json_to_string demo_libs j)), py_err_text = (\<lambda>_. [])\<rparr>"

definition demo_py_reducer :: "json py_reducer" where
  "demo_py_reducer =
     \<lparr>pd_name = Some ''nest'', pd_version = Some 1, pd_state_schema_version = Some 1,
      pd_initial_state = Inr JNull, pd_apply = (\<lambda>s e. Inr (JArray [s, e]))\<rparr>"

definition demo_py_store :: store where
  "demo_py_store =
     fst (py_register_reducer demo_py demo_libs ''a/b'' demo_py_reducer (set_db demo_log demo_open_store))"

lemma demo_py_codec [simp]:
  "json_to_py demo_py demo_libs j = Inr j" "py_to_json demo_py demo_libs j = Inr j"
  by (simp_all add: json_to_py_def py_to_json_def demo_py_def)

lemma demo_msgpack_ok: "msgpack_ok demo_libs"
  by (simp add: msgpack_ok_def)

lemma demo_py_store:
  "so_db demo_py_store = demo_log"
  "get_reducer_with_policy (ss_reducers (so_state demo_py_store)) ''a/b'' =
     Inr (py_dyn_reducer demo_py demo_libs ''nest'' 1 1 demo_py_reducer, Manual)"
  by (simp_all add: demo_py_store_def py_register_reducer_def demo_py_reducer_def attribute_def
      store_register_reducer_def register_with_policy_def validate_snapshot_policy_def set_db_def
      demo_open_store_def py_change_def get_reducer_with_policy_def find_arc_with_policy_def
      glob_matches_literal Let_def)


end
