(* ===== verification/Py_Cce.thy ===== *)
theory Py_Cce
  imports Py_Reducers
begin

text \<open>
  The canonical encoding in Python (\<open>fossic-py/src/cce.rs\<close>): the encoders for conformance tests and
  the identity of an event that has not been appended.
\<close>

section \<open>Encoders\<close>

definition py_cce_encode_value :: "'p py_lib \<Rightarrow> libs \<Rightarrow> 'p \<Rightarrow> py_err + bytes" where
  "py_cce_encode_value P L v =
     bind_res (py_to_json P L v) (\<lambda>json_value.
       map_err (\<lambda>e. PyErr PyValueError (PyCceError ''CCE encode error: '' e))
         (encode_value L [] json_value))"

definition py_cce_encode_bytes_raw :: "bytes \<Rightarrow> bytes" where
  "py_cce_encode_bytes_raw data = encode_bytes [] data"

text \<open>\<open>u64::from_str_radix\<close> with base 16, and the texts of its errors.\<close>

fun radix16_loop :: "nat \<Rightarrow> bytes \<Rightarrow> string + nat" where
  "radix16_loop acc [] = Inr acc"
| "radix16_loop acc (c # cs) =
     (case hex_nibble c of
        Inl _ \<Rightarrow> Inl ''invalid digit found in string''
      | Inr x \<Rightarrow>
          if 2 ^ 64 \<le> acc * 16 \<or> 2 ^ 64 \<le> acc * 16 + unat x
          then Inl ''number too large to fit in target type''
          else radix16_loop (acc * 16 + unat x) cs)"

definition u64_from_radix16 :: "string \<Rightarrow> string + u64" where
  "u64_from_radix16 s =
     (if s = [] then Inl ''cannot parse integer from empty string''
      else if s = ''+'' \<or> s = ''-'' then Inl ''invalid digit found in string''
      else bind_res (radix16_loop 0 (str_bytes (if hd s = CHR ''+'' then tl s else s)))
             (\<lambda>n. Inr (word_of_nat n)))"

definition py_cce_encode_f64_bits :: "string \<Rightarrow> py_err + bytes" where
  "py_cce_encode_f64_bits bits_hex =
     bind_res (map_err (\<lambda>e. py_value_error (''invalid bits_hex: '' @ e)) (u64_from_radix16 bits_hex))
       (\<lambda>raw.
         let canonical = (if f64_is_nan raw then 0x7FF8000000000000
                          else if raw = 0x8000000000000000 then 0 else raw)
         in Inr (0x03 # u64_le canonical))"

text \<open>The identity of an event, without a store.\<close>

definition py_compute_event_id ::
  "'p py_lib \<Rightarrow> libs \<Rightarrow> string \<Rightarrow> 'p \<Rightarrow> u32 option \<Rightarrow> event_id option \<Rightarrow> py_err + event_id" where
  "py_compute_event_id P L event_type payload type_version causation_id =
     bind_res (py_to_json P L payload) (\<lambda>json_value.
     bind_res (map_err (\<lambda>e. PyErr PyValueError (PyCceError ''CCE error: '' e))
        (derive_event_id L event_type (given_or 1 type_version) (map_option id_bytes causation_id)
           json_value)) (\<lambda>bytes. Inr (EventId bytes)))"

section \<open>The encoder of bit patterns is the encoder of the store\<close>

lemma f64_is_zero_iff: "f64_is_zero v \<longleftrightarrow> v = 0 \<or> v = 0x8000000000000000"
proof
  assume "f64_is_zero v"
  then have low: "take_bit 63 v = 0"
    by (simp add: f64_is_zero_def take_bit_eq_mask mask_eq_exp_minus_1)
  define d where "d = drop_bit 63 v"
  have v: "v = push_bit 63 d"
    using bits_ident [of 63 v] low by (simp add: d_def)
  have "unat v < 2 ^ 64" using unsigned_less [of v] by simp
  moreover have "unat d = unat v div 2 ^ 63"
    unfolding d_def using unat_drop_bit_eq [of 63 v] drop_bit_eq_div [of 63 "unat v"] by (rule trans)
  ultimately have "unat d < 2" by simp
  then have "d = 0 \<or> d = 1"
    by (auto simp: less_2_cases_iff word_unat_eq_iff)
  then show "v = 0 \<or> v = 0x8000000000000000"
    unfolding v by (auto simp: push_bit_eq_mult)
qed (auto simp: f64_is_zero_def)

text \<open>
  Whatever bit pattern the text stands for, the encoder for tests gives what the encoder of the
  store gives for a number with that pattern.
\<close>

theorem py_f64_bits_as_store:
  assumes "u64_from_radix16 s = Inr raw"
  shows "py_cce_encode_f64_bits s = Inr (encode_f64 [] raw)"
  using assms f64_is_zero_iff [of raw]
  by (auto simp: py_cce_encode_f64_bits_def encode_f64_def canonicalize_f64_def TAG_FLOAT_def Let_def)

section \<open>The identity is the one the store assigns\<close>

lemma append_impl_id:
  "append_impl L now a p pb d = Inr (d', out) \<Longrightarrow> append_event_id L a p = Inr (ao_event_id out)"
  by (auto simp: append_impl_def bind_res_Inr_iff Let_def split: if_splits prod.splits)

lemma prepare_payload_untransformed:
  assumes "msgpack_ok L" and "list_all (\<lambda>e. \<not> glob_matches (te_pattern e) s) xs"
    and "prepare_payload L xs s t j = Inr (j', pb)"
  shows "j' = j"
proof -
  obtain b where "mp_to_vec L j = Inr b" "mp_from_slice L b = Inr j"
    by (rule msgpack_encode [OF assms(1)])
  with assms(3) show ?thesis
    by (simp add: prepare_payload_def apply_transforms_none [OF assms(2) [unfolded list_all_iff]])
qed

text \<open>
  C17. The identity Python computes for an event without writing it is the one \<open>append\<close> returns for
  that event, provided no payload transform is registered for its stream.
\<close>

theorem compute_event_id_predicts_append:
  assumes "msgpack_ok L"
    and "list_all (\<lambda>e. \<not> glob_matches (te_pattern e) (pa_stream_id a)) (so_transforms st)"
    and "snd (py_append_op P L now now2 a st) = Inr i"
  shows "py_compute_event_id P L (pa_event_type a) (pa_payload a) (Some (pa_type_version a))
    (pa_causation_id a) = Inr i"
proof -
  from assms(3) obtain r where r: "py_append_to_rust P L a = Inr r"
    by (cases "py_append_to_rust P L a") (auto simp: py_append_op_def)
  then have payload: "py_to_json P L (pa_payload a) = Inr (a_payload r)"
    and same: "a_stream_id r = pa_stream_id a" "a_event_type r = pa_event_type a"
      "a_type_version r = pa_type_version a" "a_causation_id r = pa_causation_id a"
    by (auto simp: py_append_to_rust_def bind_res_Inr_iff)
  from assms(3) r obtain j pb d' out where
    prep: "prepare_payload L (so_transforms st) (a_stream_id r) (a_event_type r) (a_payload r) = Inr (j, pb)"
    and app: "append_impl L now r j pb (so_db st) = Inr (d', out)" and i: "ao_event_id out = i"
    by (auto simp: py_append_op_def store_append_def py_change_def py_res_def bind_res_def
        split: sum.splits prod.splits)
  from prepare_payload_untransformed [OF assms(1) _ prep] assms(2) have "j = a_payload r" by (simp add: same)
  with append_impl_id [OF app] i show ?thesis
    by (auto simp: py_compute_event_id_def payload append_event_id_def same given_or_def
        bind_res_Inr_iff map_err_Inr_iff)
qed

definition demo_py_append :: "json py_append" where
  "demo_py_append = py_append_new ''a/b'' ''Ping'' JNull None None None None None None None"

lemma demo_py_append_to_rust: "py_append_to_rust demo_py demo_libs demo_py_append = Inr demo_append"
  by (simp add: py_append_to_rust_def py_to_json_option_def demo_py_append_def py_append_new_def
      given_or_def demo_append_def append_default_def)

lemma demo_declared: "stream_exists_impl demo_db ''a/b''"
  by (simp add: stream_exists_iff demo_db_def)

lemma demo_derive:
  "derive_event_id demo_libs ''Ping'' 1 None JNull =
     Inr (blake3 demo_libs (CCE_PREFIX @ TAG_STRING # len_le (length ''Ping'') @ str_bytes ''Ping'' @
       TAG_INT # i64_le 1 @ [TAG_NULL, TAG_NULL]))"
  "derive_event_id demo_libs ''Ping'' 1 None (JBool True) =
     Inr (blake3 demo_libs (CCE_PREFIX @ TAG_STRING # len_le (length ''Ping'') @ str_bytes ''Ping'' @
       TAG_INT # i64_le 1 @ [TAG_NULL, TAG_BOOL, 1]))"
  by (simp_all add: derive_event_id_def event_preimage_def encode_string_def MAX_STRING_BYTES_def
      encode_optional_bytes_def encode_u32_as_i64_def encode_i64_def del: demo_simps(2))

lemma demo_append_id: "append_event_id demo_libs demo_append j =
    map_err Cce (bind_res (derive_event_id demo_libs ''Ping'' 1 None j) (\<lambda>b. Inr (EventId b)))"
  by (cases "derive_event_id demo_libs ''Ping'' 1 None j")
    (simp_all add: append_event_id_def demo_append_def append_default_def)

text \<open>Appending the event to the store of the witnesses, with whatever transforms.\<close>

lemma demo_py_append_result:
  assumes "prepare_payload demo_libs (so_transforms st) ''a/b'' ''Ping'' JNull = Inr (j, pb)"
    and "derive_event_id demo_libs ''Ping'' 1 None j = Inr b" and "so_db st = demo_db"
  shows "snd (py_append_op demo_py demo_libs 5 6 demo_py_append st) = Inr (EventId b)"
proof -
  have "a_stream_id demo_append = ''a/b''" "a_event_type demo_append = ''Ping''"
    "a_payload demo_append = JNull" "a_indexed_tags demo_append = None"
    by (simp_all add: demo_append_def append_default_def)
  with assms show ?thesis
    by (simp add: py_append_op_def demo_py_append_to_rust store_append_def append_impl_def
        check_indexed_tags_def demo_append_id demo_declared py_change_def Let_def split_beta)
qed

theorem compute_event_id_predicts_append_witness:
  "\<exists>i. snd (py_append_op demo_py demo_libs 5 6 demo_py_append demo_open_store) = Inr i \<and>
     py_compute_event_id demo_py demo_libs ''Ping'' JNull (Some 1) None = Inr i"
proof -
  let ?st = demo_open_store
  have st: "so_transforms ?st = []" "so_db ?st = demo_db" by (simp_all add: demo_open_store_def)
  have "prepare_payload demo_libs (so_transforms ?st) ''a/b'' ''Ping'' JNull =
      Inr (JNull, replicate (to_nat JNull) 0)"
    by (simp add: prepare_payload_def st(1))
  from demo_py_append_result [OF this demo_derive(1) st(2)] obtain i where
    "snd (py_append_op demo_py demo_libs 5 6 demo_py_append ?st) = Inr i" by blast
  with compute_event_id_predicts_append [OF demo_msgpack_ok _ this] st(1) show ?thesis
    by (simp add: demo_py_append_def py_append_new_def given_or_def)
qed

text \<open>
  With a transform the identity is derived from the transformed payload, and the one computed
  beforehand is another.
\<close>

definition demo_transforming :: store where
  "demo_transforming =
     fst (py_register_payload_transform demo_py demo_libs ''a/b'' (\<lambda>_ _. Inr (JBool True)) demo_open_store)"

theorem compute_event_id_ignores_transforms:
  "\<exists>i j. snd (py_append_op demo_py demo_libs 5 6 demo_py_append demo_transforming) = Inr i \<and>
     py_compute_event_id demo_py demo_libs ''Ping'' JNull (Some 1) None = Inr j \<and> i \<noteq> j"
proof -
  have st: "so_transforms demo_transforming =
      [\<lparr>te_pattern = ''a/b'', te_transform = py_transform demo_py demo_libs (\<lambda>_ _. Inr (JBool True))\<rparr>]"
    "so_db demo_transforming = demo_db"
    by (simp_all add: demo_transforming_def py_register_payload_transform_def store_register_transform_def
        register_transform_def demo_open_store_def)
  have "prepare_payload demo_libs (so_transforms demo_transforming) ''a/b'' ''Ping'' JNull =
      Inr (JBool True, replicate (to_nat (JBool True)) 0)"
    by (simp add: prepare_payload_def st(1) py_transform_def glob_matches_literal)
  from demo_py_append_result [OF this demo_derive(2) st(2)] demo_derive show ?thesis
    by (simp add: py_compute_event_id_def given_or_def tag_defs)
qed

end
