(* ===== verification/Py_Subscription.thy ===== *)
theory Py_Subscription
  imports Py_Store Tauri_Commands
begin

text \<open>
  Subscriptions of the Python binding (\<open>fossic-py/src/subscriptions.rs\<close> and \<open>Store.subscribe\<close>): the
  handler that forwards events into an unbounded channel, and the handle whose method waits for the
  next one. The store's handler and the Python threads interleave, so a run is a list of actions.
\<close>

section \<open>Subscribing\<close>

text \<open>The channel, whether its sender (the handler in the store) is alive, and the handle.\<close>

record py_sub =
  pu_rx :: "stored_event list"
  pu_tx :: bool
  pu_handle :: "u64 option"

definition py_queue_handler :: handler where
  "py_queue_handler = (\<lambda>calls event. False)"

definition py_subscribe ::
  "string \<Rightarrow> string option \<Rightarrow> subscription_mode option \<Rightarrow> bool option \<Rightarrow> store \<Rightarrow> store \<times> py_sub" where
  "py_subscribe stream_pattern branch mode include_system st =
     (let q = \<lparr>sq_stream_pattern = stream_pattern, sq_branch = given_or ''main'' branch,
               sq_include_system = given_or False include_system\<rparr>;
          (st', handle) = store_subscribe q (given_or (ModePostCommit 1024) mode) py_queue_handler st
      in (st', \<lparr>pu_rx = [], pu_tx = True, pu_handle = Some handle\<rparr>))"

section \<open>The handle\<close>

definition py_on_event :: "stored_event \<Rightarrow> py_sub \<Rightarrow> py_sub" where
  "py_on_event e sub = (if pu_tx sub then sub\<lparr>pu_rx := pu_rx sub @ [e]\<rparr> else sub)"

text \<open>
  \<open>timeout_ok\<close> says that the seconds are a duration: \<open>Duration::from_secs_f64\<close> panics on a negative,
  infinite or undefined number. The wait sees the channel as it is when the wait ends.
\<close>

definition py_wait_for_next_event ::
  "bool \<Rightarrow> py_sub \<Rightarrow> py_sub \<times> (py_err + stored_event option)" where
  "py_wait_for_next_event timeout_ok sub =
     (if \<not> timeout_ok then (sub, Inl (PyErr PyPanic (PyText ''Duration::from_secs_f64'')))
      else case pu_rx sub of
        e # es \<Rightarrow> (sub\<lparr>pu_rx := es\<rparr>, Inr (Some e))
      | [] \<Rightarrow> (sub, if pu_tx sub then Inr None
                else Inl (PyErr PyStopIteration (PyText ''subscription closed''))))"

definition py_unsubscribe :: "py_sub \<Rightarrow> store \<Rightarrow> py_sub \<times> store" where
  "py_unsubscribe sub st =
     (sub\<lparr>pu_handle := None\<rparr>,
      case pu_handle sub of None \<Rightarrow> st | Some h \<Rightarrow> store_unsubscribe h st)"

definition py_is_degraded :: "py_sub \<Rightarrow> store \<Rightarrow> bool" where
  "py_is_degraded sub st =
     (case pu_handle sub of None \<Rightarrow> False | Some h \<Rightarrow> handle_is_degraded h (so_registry st))"

text \<open>The store drops the handler after the handle.\<close>

definition py_sender_dropped :: "py_sub \<Rightarrow> py_sub" where
  "py_sender_dropped sub = (if pu_handle sub = None then sub\<lparr>pu_tx := False\<rparr> else sub)"

section \<open>Runs\<close>

datatype py_sub_action = PyOnEvent stored_event | PyWait bool | PyUnsubscribe | PySenderDropped

fun py_sub_act ::
  "py_sub_action \<Rightarrow> py_sub \<times> (py_err + stored_event option) list \<Rightarrow>
     py_sub \<times> (py_err + stored_event option) list" where
  "py_sub_act (PyOnEvent e) (sub, rs) = (py_on_event e sub, rs)"
| "py_sub_act (PyWait ok) (sub, rs) =
     (let (sub', r) = py_wait_for_next_event ok sub in (sub', rs @ [r]))"
| "py_sub_act PyUnsubscribe (sub, rs) = (sub\<lparr>pu_handle := None\<rparr>, rs)"
| "py_sub_act PySenderDropped (sub, rs) = (py_sender_dropped sub, rs)"

fun py_sent :: "py_sub_action list \<Rightarrow> py_sub \<Rightarrow> stored_event list" where
  "py_sent [] sub = []"
| "py_sent (a # as) sub =
     (case a of PyOnEvent e \<Rightarrow> if pu_tx sub then [e] else [] | _ \<Rightarrow> []) @
     py_sent as (fst (py_sub_act a (sub, [])))"

definition received_events :: "(py_err + stored_event option) list \<Rightarrow> stored_event list" where
  "received_events rs = List.map_filter (\<lambda>r. case r of Inr (Some e) \<Rightarrow> Some e | _ \<Rightarrow> None) rs"

lemma received_events_simps [simp]:
  "received_events [] = []" "received_events (rs @ ss) = received_events rs @ received_events ss"
  "received_events (Inr (Some e) # rs) = e # received_events rs" "received_events (Inr None # rs) = received_events rs"
  "received_events (Inl x # rs) = received_events rs"
  by (simp_all add: received_events_def map_filter_def)

lemma py_sub_act_channel:
  "py_sub_act a (sub, rs) = (sub', rs') \<Longrightarrow> fst (py_sub_act a (sub, [])) = sub' \<and>
     received_events rs' @ pu_rx sub' = received_events rs @ pu_rx sub @ py_sent [a] sub"
  by (cases a)
    (auto simp: py_on_event_def py_wait_for_next_event_def py_sender_dropped_def Let_def
      split: list.splits if_splits)

text \<open>Nothing is lost: the events the waits returned, then the queued ones, are all that was sent.\<close>

theorem py_subscription_fifo:
  "fold py_sub_act as (sub, rs) = (sub', rs') \<Longrightarrow>
     received_events rs' @ pu_rx sub' = received_events rs @ pu_rx sub @ py_sent as sub"
proof (induction as arbitrary: sub rs)
  case (Cons a as)
  obtain sub1 rs1 where step: "py_sub_act a (sub, rs) = (sub1, rs1)" by fastforce
  with Cons.prems have "fold py_sub_act as (sub1, rs1) = (sub', rs')" by simp
  from Cons.IH [OF this] py_sub_act_channel [OF step] show ?case by simp
qed simp

text \<open>The queue is drained before the end of the subscription is reported.\<close>

theorem unsubscribe_keeps_queue:
  assumes "pu_rx sub = e # es"
  shows "snd (py_wait_for_next_event True (py_sender_dropped (fst (py_unsubscribe sub st)))) = Inr (Some e)"
  using assms by (simp add: py_unsubscribe_def py_sender_dropped_def py_wait_for_next_event_def)

theorem stop_iteration_is_final:
  assumes "py_wait_for_next_event True sub = (sub', Inl err)"
  shows "sub' = sub \<and> pu_rx sub = [] \<and> \<not> pu_tx sub"
  using assms by (auto simp: py_wait_for_next_event_def split: list.splits if_splits)

end
