(* ===== verification/Py_Similarity.thy ===== *)
theory Py_Similarity
  imports Py_Types Hnsw_Refinement
begin

text \<open>
  The class \<open>HnswProvider\<close> of the Python binding (\<open>fossic-py/src/similarity.rs\<close>): the provider of
  the similarity crate together with a store whose executor runs the deferred saves.

  The conversions of Python objects to Rust values are pyo3's and parameters of the model.
\<close>

section \<open>Arguments and scores\<close>

definition bytes_to_event_id :: "bytes \<Rightarrow> py_err + event_id" where
  "bytes_to_event_id b =
     (if length b = 32 then Inr (EventId b)
      else Inl (py_value_error (''event_id must be 32 bytes, got '' @ show_nat (length b))))"

definition hnsw_err :: "hnsw_error \<Rightarrow> py_err" where
  "hnsw_err e = to_py_err (Internal (hnsw_error_text e))"

definition parse_distance :: "string \<Rightarrow> py_err + distance_metric" where
  "parse_distance s =
     (if s = ''cosine'' then Inr Cosine
      else if s = ''euclidean'' \<or> s = ''l2'' then Inr Euclidean
      else if s = ''inner_product'' \<or> s = ''dot'' then Inr InnerProduct
      else Inl (py_value_error (''unknown distance metric '' @ [CHR 0x27] @ s @ [CHR 0x27] @
             '', expected '' @ [CHR 0x27] @ ''cosine'' @ [CHR 0x27] @ '', '' @ [CHR 0x27] @ ''euclidean'' @
             [CHR 0x27] @ '', or '' @ [CHR 0x27] @ ''inner_product'' @ [CHR 0x27])))"

definition parse_priority :: "string \<Rightarrow> py_err + task_priority" where
  "parse_priority s =
     (if s = ''low'' then Inr Low
      else if s = ''normal'' then Inr Normal
      else if s = ''high'' then Inr High
      else Inl (py_value_error (''unknown priority '' @ [CHR 0x27] @ s @ [CHR 0x27] @
             '', expected '' @ [CHR 0x27] @ ''low'' @ [CHR 0x27] @ '', '' @ [CHR 0x27] @ ''normal'' @
             [CHR 0x27] @ '', or '' @ [CHR 0x27] @ ''high'' @ [CHR 0x27])))"

text \<open>
  \<open>h.score as f64\<close> on bit patterns: the exponent is rebased, a subnormal number is normalised (its
  highest bit becomes the hidden one), and a NaN is made quiet.
\<close>

fun top_bit :: "nat \<Rightarrow> nat" where
  "top_bit m = (if m < 2 then 0 else Suc (top_bit (m div 2)))"

declare top_bit.simps [simp del]

definition f32_as_f64 :: "u32 \<Rightarrow> u64" where
  "f32_as_f64 b =
     (let n = unat b; sign = n div 2 ^ 31; ex = n div 2 ^ 23 mod 256; m = n mod 2 ^ 23;
          magnitude =
            (if ex = 255 then 2047 * 2 ^ 52 + (if m = 0 then 0 else m * 2 ^ 29 mod 2 ^ 51 + 2 ^ 51)
             else if ex = 0 then
               (if m = 0 then 0
                else let p = top_bit m in (p + 874) * 2 ^ 52 + (m - 2 ^ p) * 2 ^ (52 - p))
             else (ex + 896) * 2 ^ 52 + m * 2 ^ 29)
      in word_of_nat (sign * 2 ^ 63 + magnitude))"

text \<open>One, a tenth, the smallest subnormal number, infinity, minus two and a NaN.\<close>

lemma f32_as_f64_examples:
  "f32_as_f64 0x3F800000 = 0x3FF0000000000000" "f32_as_f64 0x3DCCCCCD = 0x3FB99999A0000000"
  "f32_as_f64 1 = 0x36A0000000000000" "f32_as_f64 0x7F800000 = 0x7FF0000000000000"
  "f32_as_f64 0xC0000000 = 0xC000000000000000" "f32_as_f64 0x7F800001 = 0x7FF8000020000000"
  by (simp_all add: f32_as_f64_def top_bit.simps Let_def)

section \<open>The provider\<close>

record 'ix py_hnsw =
  ph_provider :: "'ix hnsw_provider"
  ph_store :: store

text \<open>
  The provider is made first, then the store is opened on the same path. Options left out have
  their defaults.
\<close>

definition py_hnsw_config ::
  "nat \<Rightarrow> distance_metric \<Rightarrow> nat option \<Rightarrow> nat option \<Rightarrow> nat option \<Rightarrow> nat option \<Rightarrow> nat option \<Rightarrow>
     hnsw_config" where
  "py_hnsw_config dimensions dm max_elements ef_construction m ef_search stream_filter_fudge_factor =
     \<lparr>hc_max_elements = given_or 100000 max_elements, hc_dimensions = dimensions,
      hc_ef_construction = given_or 200 ef_construction, hc_m = given_or 16 m,
      hc_ef_search = given_or 50 ef_search, hc_distance = dm,
      hc_stream_filter_fudge_factor = given_or 2 stream_filter_fudge_factor\<rparr>"

text \<open>
  The index directory beside the database with its files, and what the store finds and reads when
  it opens, are arguments.
\<close>

definition py_hnsw_new ::
  "'ix hnsw_lib \<Rightarrow> string \<Rightarrow> hnsw_files \<Rightarrow> i64 \<Rightarrow> (open_options \<Rightarrow> store res) \<Rightarrow> nat \<Rightarrow>
     string option \<Rightarrow> nat option \<Rightarrow> nat option \<Rightarrow> nat option \<Rightarrow> nat option \<Rightarrow> nat option \<Rightarrow>
     u64 option \<Rightarrow> py_err + 'ix py_hnsw" where
  "py_hnsw_new H index_dir files now_us open0 dimensions distance max_elements ef_construction m
       ef_search stream_filter_fudge_factor quiescence_window_ms =
     bind_res (parse_distance (given_or ''cosine'' distance)) (\<lambda>dm.
     let config = py_hnsw_config dimensions dm max_elements ef_construction m ef_search
                    stream_filter_fudge_factor
     in bind_res (map_err hnsw_err (hnsw_provider_new H index_dir now_us config files)) (\<lambda>provider.
        bind_res (map_err to_py_err
          (open0 (open_options_default
             \<lparr>opt_executor_quiescence_window_ms := given_or 2000 quiescence_window_ms\<rparr>))) (\<lambda>st.
          Inr \<lparr>ph_provider = provider, ph_store = st\<rparr>)))"

definition py_hnsw_index ::
  "'ix hnsw_lib \<Rightarrow> bytes \<Rightarrow> embedding \<Rightarrow> 'ix py_hnsw \<Rightarrow> 'ix py_hnsw \<times> (py_err + unit)" where
  "py_hnsw_index H event_id embedding ph =
     (case bytes_to_event_id event_id of
        Inl e \<Rightarrow> (ph, Inl e)
      | Inr eid \<Rightarrow>
          (let (p', r) = index_event H eid embedding (ph_provider ph)
           in (ph\<lparr>ph_provider := p'\<rparr>, map_err to_py_err r)))"

definition py_hnsw_index_with_stream_id ::
  "'ix hnsw_lib \<Rightarrow> bytes \<Rightarrow> string \<Rightarrow> embedding \<Rightarrow> 'ix py_hnsw \<Rightarrow> 'ix py_hnsw \<times> (py_err + unit)" where
  "py_hnsw_index_with_stream_id H event_id stream_id embedding ph =
     (case bytes_to_event_id event_id of
        Inl e \<Rightarrow> (ph, Inl e)
      | Inr eid \<Rightarrow>
          (let (p', r) = index_with_stream_id H eid stream_id embedding (ph_provider ph)
           in (ph\<lparr>ph_provider := p'\<rparr>, map_err hnsw_err r)))"

text \<open>A query is a dictionary; \<open>extract\<close> converts a value or raises.\<close>

record 'p py_extract =
  px_floats :: "'p \<Rightarrow> py_err + embedding"
  px_usize :: "'p \<Rightarrow> py_err + nat"
  px_string :: "'p \<Rightarrow> py_err + string"
  px_is_none :: "'p \<Rightarrow> bool"

definition required :: "string \<Rightarrow> 'p option \<Rightarrow> py_err + 'p" where
  "required key v =
     (case v of
        None \<Rightarrow> Inl (PyErr PyKeyError (PyText (''missing key '' @ [CHR 0x27] @ key @ [CHR 0x27])))
      | Some p \<Rightarrow> Inr p)"

definition py_similarity_query ::
  "'p py_extract \<Rightarrow> (string \<Rightarrow> 'p option) \<Rightarrow> py_err + similarity_query" where
  "py_similarity_query X query =
     bind_res (bind_res (required ''embedding'' (query ''embedding'')) (px_floats X)) (\<lambda>embedding.
     bind_res (bind_res (required ''k'' (query ''k'')) (px_usize X)) (\<lambda>k.
     bind_res
       (case query ''stream_pattern'' of
          None \<Rightarrow> Inr None
        | Some v \<Rightarrow> if px_is_none X v then Inr None
            else bind_res (px_string X v) (\<lambda>s. Inr (Some s))) (\<lambda>stream_pattern.
       Inr \<lparr>sm_embedding = embedding, sm_k = k, sm_stream_pattern = stream_pattern\<rparr>)))"

definition py_hnsw_query ::
  "'ix hnsw_lib \<Rightarrow> 'p py_extract \<Rightarrow> (string \<Rightarrow> 'p option) \<Rightarrow> 'ix py_hnsw \<Rightarrow>
     py_err + (bytes \<times> u64) list" where
  "py_hnsw_query H X query ph =
     bind_res (py_similarity_query X query) (\<lambda>q.
     bind_res (map_err to_py_err (similarity_query_impl H q (ph_provider ph))) (\<lambda>hits.
       Inr (map (\<lambda>(i, score). (id_bytes i, f32_as_f64 score)) hits)))"

section \<open>Saving and the rest\<close>

definition py_hnsw_save :: "'ix hnsw_lib \<Rightarrow> 'ix py_hnsw \<Rightarrow> 'ix py_hnsw \<times> (py_err + unit)" where
  "py_hnsw_save H ph =
     (let (p', r) = save_to_disk H (ph_provider ph) in (ph\<lparr>ph_provider := p'\<rparr>, map_err hnsw_err r))"

text \<open>The task goes to the store of the object; \<open>k\<close> names its closure.\<close>

definition py_hnsw_schedule_save ::
  "i64 \<Rightarrow> nat \<Rightarrow> string option \<Rightarrow> 'ix py_hnsw \<Rightarrow> 'ix py_hnsw \<times> (py_err + unit)" where
  "py_hnsw_schedule_save now_us k priority ph =
     (case parse_priority (given_or ''low'' priority) of
        Inl e \<Rightarrow> (ph, Inl e)
      | Inr prio \<Rightarrow>
          (let (p', task) = schedule_save now_us k prio (ph_provider ph)
           in (ph\<lparr>ph_provider := p',
                  ph_store := (case task of None \<Rightarrow> ph_store ph
                               | Some t \<Rightarrow> store_schedule_task t (ph_store ph))\<rparr>, Inr ())))"

definition py_hnsw_len :: "'ix hnsw_lib \<Rightarrow> 'ix py_hnsw \<Rightarrow> nat" where
  "py_hnsw_len H ph = provider_len H (ph_provider ph)"

definition py_hnsw_is_empty :: "'ix hnsw_lib \<Rightarrow> 'ix py_hnsw \<Rightarrow> bool" where
  "py_hnsw_is_empty H ph \<longleftrightarrow> provider_len H (ph_provider ph) = 0"

definition py_hnsw_remove :: "bytes \<Rightarrow> 'ix py_hnsw \<Rightarrow> py_err + unit" where
  "py_hnsw_remove event_id ph =
     bind_res (bytes_to_event_id event_id) (\<lambda>eid. map_err hnsw_err (remove_event eid))"

definition py_hnsw_is_dirty :: "'ix py_hnsw \<Rightarrow> bool" where
  "py_hnsw_is_dirty ph \<longleftrightarrow> hp_dirty (ph_provider ph)"

definition py_hnsw_is_save_pending :: "'ix py_hnsw \<Rightarrow> bool" where
  "py_hnsw_is_save_pending ph \<longleftrightarrow> hp_save_pending (ph_provider ph)"

end
