(* ===== verification/Spec2Isabelle.thy ===== *)
theory Spec2Isabelle
  imports Aggregate Wal_Watch Walk_Pages Read_Pool Store_Invariant Publishing Hnsw_Refinement
    Store_Iters Tauri_Ipc Tauri_Subscriptions Node_Subscription Py_Cce Py_Subscription Py_Similarity
begin

text \<open>
  A verification development of fossic, an event store on one SQLite file, with streams,
  branches, snapshots of folded states, subscriptions and causation queries. The Rust crate is
  under \<open>src/src/\<close>; file names below are relative to it.

  \<^bold>\<open>The program.\<close> An append encodes the identity of an event canonically (\<open>cce.rs\<close>), and inserts a row
  with the next version of its stream and branch (\<open>append.rs\<close>); the store (\<open>store.rs\<close>) applies payload
  transforms before it, and after it hands the event to the subscribers: the synchronous ones
  under the write lock, the others through a channel, the dispatcher thread and one bounded queue
  per subscriber (\<open>subscriptions.rs\<close>). A watcher of the write-ahead log feeds events of other
  processes into the same channel (\<open>wal_watch.rs\<close>). Reads go by range, identity, correlation or
  causation, whole or in pages with cursors (\<open>read.rs\<close>, \<open>cross_stream.rs\<close>), and pass through upcasters
  (\<open>upcasters.rs\<close>). Reducers fold a branch into a state that snapshots cache (\<open>reducers.rs\<close>,
  \<open>snapshots.rs\<close>); snapshots are also taken by policy and by a background thread (\<open>executor.rs\<close>).

  \<^bold>\<open>The theories.\<close>

  \<^item> \<open>Fossic_Prelude\<close>, \<open>Fossic_Types\<close>: results as sums, UTF-8, little-endian bytes, the conversions
    between \<open>i64\<close> and \<open>u64\<close>, fallible maps; the types of \<open>types.rs\<close> and \<open>error.rs\<close>, JSON values, and the
    record \<open>libs\<close> of third-party functions. \<open>Demo_Libs\<close> instantiates it for the witnesses.
  \<^item> \<open>Cce\<close>: the encoder and the preimage of an identity. The encoder implements a canonical form,
    and its encodings are injective and prefix free.
  \<^item> \<open>Glob\<close>: patterns; the matcher decides their declarative meaning.
  \<^item> \<open>Database\<close>: the tables as lists of rows, migrations, and the statements components share.
    \<open>Streams\<close>, \<open>Append\<close>, \<open>Deletion\<close>: declaration, the three appends with the contract \<open>event_writer\<close>,
    purges and consumer cursors.
  \<^item> \<open>Read\<close>, \<open>Paging\<close>: range reads, pages and iterators; the contract of a paged query (a locale)
    gives that following its cursors yields the whole result, for \<open>Paging\<close>, \<open>Correlation\<close> and \<open>Walk_Pages\<close>.
  \<^item> \<open>Causation\<close>: the recursive queries and the breadth-first search against reachability.
    \<open>Walk_Pages\<close>: a walk in one direction, cut into pages, is the walk in one call.
    \<open>Aggregate\<close>: folds over many streams, whole and bounded.
  \<^item> \<open>Read_Pool\<close>: the pool of read connections and its guards, as a step relation.
  \<^item> \<open>Branches\<close>: lifecycle, resolution of a chain of ancestors, and the cache of the store.
  \<^item> \<open>Payloads\<close>: transforms and upcasters. \<open>Reducers\<close>, \<open>Snapshots\<close>, \<open>State_Reads\<close>: the registry of
    reducers, snapshots, and reading a state; a state read through snapshots is the fold over all
    events, also with the policies, and after any run of the executor.
  \<^item> \<open>Subscriptions\<close>, \<open>Delivery\<close>, \<open>Wal_Watch\<close>: the registry and its two dispatches; the threads as a
    step relation, with order and uniqueness of what a subscriber receives; the scan.
  \<^item> \<open>System_Stream\<close>, \<open>Executor\<close>: internal events; the heap of tasks, the quiescence gate and shutdown.
  \<^item> \<open>Store_Reads\<close>, \<open>Store\<close>, \<open>Store_Invariant\<close>, \<open>Publishing\<close>: the public operations of the store on
    all of this. \<open>Store_Invariant\<close> states the contract of an operation (\<open>store_operation\<close>),
    interprets every operation in it, and gets the invariant of the file; \<open>Publishing\<close> follows
    an event from the append to the handler of a subscriber.
  \<^item> \<open>Hnsw\<close>, \<open>Hnsw_Refinement\<close>: the similarity provider of \<open>crates/fossic-similarity-hnsw\<close>, its files and
    its deferred save; it refines the list of indexed vectors, across saves and reopenings.
  \<^item> \<open>Store_Iters\<close>: the iterators of \<open>store.rs\<close> over ranges, correlations and causation, with upcasters,
    and what a loop over them yields.
  \<^item> \<open>Tauri_Types\<close>, \<open>Tauri_Commands\<close>, \<open>Tauri_Ipc\<close>, \<open>Tauri_Subscriptions\<close>: the plugin
    \<open>crates/fossic-tauri\<close>, its serialized types, its commands, and the map of subscriptions of a window.
    Reading in pages over IPC yields what one command yields; a listed subscription is one of the store.
  \<^item> \<open>Node_Types\<close>, \<open>Node_Store\<close>, \<open>Node_Subscription\<close>: the binding \<open>fossic-node\<close>, its conversions, every
    method of its store, and its dispatcher thread as one function per step, interleaved with the handler
    and JavaScript: order, loss, and that every callback is answered after \<open>unsubscribe\<close>.
  \<^item> \<open>Py_Types\<close>, \<open>Py_Store\<close>, \<open>Py_Reducers\<close>, \<open>Py_Cce\<close>, \<open>Py_Subscription\<close>, \<open>Py_Similarity\<close>: the binding
    \<open>fossic-py\<close>; reducers written in Python are folded by the store as Python would fold them, and an
    identity computed without a store is the one an append returns.

  \<^bold>\<open>State and operations.\<close> The record \<open>db\<close> is the file; \<open>store\<close> is \<open>StoreInner\<close>, with the file and
  the reducer-related fields in \<open>state_store\<close>. An operation is a function from the old state to the
  new one and a result; an error is an \<open>Inl\<close> of the type \<open>error\<close>, whose constructors are those of
  \<open>error.rs\<close>. A transaction returns the new file only if it commits. Where phases of an operation
  happen under different locks and the order matters, there is a step relation over the phases
  (\<open>delivery_step\<close>, \<open>branch_step\<close>, \<open>executor_step\<close>, \<open>pool_reachable\<close>, and the separate read and write of a snapshot);
  \<open>store_step\<close> treats each public operation as one step.

  \<^bold>\<open>Parameters.\<close> NFC, BLAKE3, MessagePack, the JSON text format, the Unicode classes beyond ASCII, and the
  SQLite functions \<open>GLOB\<close> and \<open>json_extract\<close> are fields of \<open>libs\<close>; the index library is the record
  \<open>hnsw_lib\<close>, with the hypothesis \<open>hnsw_lib_ok\<close>; base64 is \<open>b64_lib\<close>, reading a
  \<open>BigInt\<close> is \<open>napi_lib\<close>, and the \<open>json\<close> module of Python is \<open>py_lib\<close>. Transforms, upcasters, reducers,
  handlers, aggregators and conditions are functions of the caller. What a theorem needs of them
  is a hypothesis with a name: \<open>json_text_ok\<close>, \<open>cursor_codec_ok\<close> and \<open>payload_codec_ok\<close> are round
  trips. The clock is an argument, one value per reading.

  \<^bold>\<open>Numbers and loops.\<close> Versions in rows are integers, as SQLite returns them; \<open>log_wf\<close> says they are in
  the range of \<open>i64\<close>, and versions of the interface, counters, costs and identifiers are words.
  Loops whose end depends on data are partial functions: resolving a branch and following the
  upcasters return \<open>None\<close> when they do not end, and there are theorems for when they do. The loop
  over an iterator has fuel; one unit more than the number of remaining events is enough, as
  the theorems on iterators state. The breadth-first search is bounded by its depth.

  \<^bold>\<open>Not modelled.\<close> File notification, thread spawning, sleeping, the grace period of a
  join; locks and their poisoning; failures of the storage layer. Of the bindings: the JavaScript and
  Python files around them, the interpreter lock, garbage collection beyond one action that drops an
  object, failures of the thread pools they run blocking calls on, the registration of classes and
  functions, and \<open>__hash__\<close>. The reads take a connection for
  granted: when there is one is the subject of \<open>Read_Pool\<close>.
  Hash maps are lists in the order they yield, and ties in an \<open>ORDER BY\<close> keep the order of the table.
\<close>

end
